(* ===== verification/Muduo_Prelude.thy ===== *)
theory Muduo_Prelude
  imports Main "HOL-Library.Word"
begin

text \<open>
  What every component shares: the machine integers of the program (\<open>size_t\<close>,
  \<open>int64_t\<close>, bytes), the ways in which it can stop abnormally, the sequencing of fallible
  steps, and the operations of \<open>std::vector\<close> and of raw memory copies that the code relies
  on. The collection \<open>muduo_defs\<close> gathers the definitions that only wrap these, so that a
  component proof can open all of them at once.
\<close>

named_theorems muduo_defs "wrappers that component proofs open"

section \<open>Machine types\<close>

type_synonym byte = "8 word"
type_synonym size_t = "64 word"
type_synonym int64 = "64 word"

section \<open>Abnormal ends\<close>

text \<open>
  The makefile builds without \<open>NDEBUG\<close>, so every \<open>assert\<close> is live. \<open>LOG_FATAL\<close>
  ends in \<open>exit(-1)\<close>. An access outside a vector's storage and a dereference of a freed
  object are undefined behaviour in C++: the model stops there with a value of its own.
  \<open>Terminated\<close> is \<open>std::terminate\<close>, \<open>SystemError\<close> the \<open>std::system_error\<close> of a misused thread.
\<close>

datatype failure =
    AssertFailed
  | FatalExit
  | LengthError
  | BadFunctionCall
  | OutOfBounds
  | DanglingPointer
  | Terminated
  | SystemError

type_synonym 'a result = "failure + 'a"

definition rbind :: "'a result \<Rightarrow> ('a \<Rightarrow> 'b result) \<Rightarrow> 'b result" where
  "rbind m k = (case m of Inl e \<Rightarrow> Inl e | Inr x \<Rightarrow> k x)"

lemma rbind_simps [simp]:
  "rbind (Inl e) k = Inl e"
  "rbind (Inr x) k = k x"
  by (simp_all add: rbind_def)

lemma rbind_cong [fundef_cong]:
  "m = m' \<Longrightarrow> (\<And>x. m' = Inr x \<Longrightarrow> k x = k' x) \<Longrightarrow> rbind m k = rbind m' k'"
  by (cases m') simp_all

lemma rbind_Inr_iff: "rbind m k = Inr y \<longleftrightarrow> (\<exists>x. m = Inr x \<and> k x = Inr y)"
  by (cases m) auto

lemma rbind_InrE:
  assumes "rbind m k = Inr y"
  obtains x where "m = Inr x" and "k x = Inr y"
  using assms by (auto simp: rbind_Inr_iff)

lemma rbind_assoc: "rbind (rbind m k) h = rbind m (\<lambda>x. rbind (k x) h)"
  by (cases m) simp_all

text \<open>\<open>assert(b); k\<close>\<close>

definition cpp_assert :: "bool \<Rightarrow> 'a result \<Rightarrow> 'a result" where
  "cpp_assert b k = (if b then k else Inl AssertFailed)"

lemma cpp_assert_simps [simp]:
  "cpp_assert True k = k"
  "cpp_assert False k = Inl AssertFailed"
  by (simp_all add: cpp_assert_def)

lemma cpp_assert_Inr_iff: "cpp_assert b k = Inr y \<longleftrightarrow> b \<and> k = Inr y"
  by (simp add: cpp_assert_def)

text \<open>A pointer dereference: the object must still be allocated.\<close>

definition deref :: "('p \<rightharpoonup> 'o) \<Rightarrow> 'p \<Rightarrow> 'o result" where
  "deref h p = (case h p of None \<Rightarrow> Inl DanglingPointer | Some x \<Rightarrow> Inr x)"

lemma deref_simps [simp]:
  "h p = Some x \<Longrightarrow> deref h p = Inr x"
  "h p = None \<Longrightarrow> deref h p = Inl DanglingPointer"
  by (simp_all add: deref_def)

lemma deref_Inr_iff: "deref h p = Inr x \<longleftrightarrow> h p = Some x"
  by (auto simp: deref_def split: option.splits)

text \<open>\<open>for (x : xs) f(x);\<close> over a state, stopping at the first abnormal end.\<close>

fun rfold :: "('x \<Rightarrow> 's \<Rightarrow> 's result) \<Rightarrow> 'x list \<Rightarrow> 's \<Rightarrow> 's result" where
  "rfold f [] s = Inr s"
| "rfold f (x # xs) s = rbind (f x s) (rfold f xs)"

lemma rfold_append: "rfold f (xs @ ys) s = rbind (rfold f xs s) (rfold f ys)"
proof (induction xs arbitrary: s)
  case Nil
  show ?case by simp
next
  case (Cons x xs)
  have "rfold f (xs @ ys) = (\<lambda>t. rbind (rfold f xs t) (rfold f ys))"
    by (rule ext) (rule Cons.IH)
  then show ?case by (simp add: rbind_assoc)
qed

lemma rfold_invariant:
  assumes "\<And>x s s'. x \<in> set xs \<Longrightarrow> I s \<Longrightarrow> f x s = Inr s' \<Longrightarrow> I s'"
    and "I s" and "rfold f xs s = Inr s'"
  shows "I s'"
  using assms
proof (induction xs arbitrary: s)
  case Nil
  then show ?case by simp
next
  case (Cons x xs)
  from Cons.prems(3) obtain t where t: "f x s = Inr t" "rfold f xs t = Inr s'"
    by (auto simp: rbind_Inr_iff)
  have "I t" by (rule Cons.prems(1) [OF _ Cons.prems(2) t(1)]) simp
  show ?case
  proof (rule Cons.IH [OF _ \<open>I t\<close> t(2)])
    fix y u u'
    assume "y \<in> set xs" "I u" "f y u = Inr u'"
    then show "I u'" using Cons.prems(1) [of y u u'] by simp
  qed
qed

lemma rfold_total:
  assumes "\<And>x s. x \<in> set xs \<Longrightarrow> I s \<Longrightarrow> \<exists>s'. f x s = Inr s' \<and> I s'" and "I s"
  shows "\<exists>s'. rfold f xs s = Inr s' \<and> I s'"
  using assms
proof (induction xs arbitrary: s)
  case Nil
  then show ?case by simp
next
  case (Cons x xs)
  from Cons.prems(1) [of x s] Cons.prems(2) obtain t where "f x s = Inr t" "I t" by auto
  then show ?case using Cons.IH [of t] Cons.prems(1) by simp
qed

section \<open>Vectors of bytes\<close>

text \<open>
  \<open>std::vector<char>\<close> is a byte list. \<open>max_size()\<close> is \<open>PTRDIFF_MAX\<close>; \<open>resize\<close>
  beyond it throws \<open>std::length_error\<close>, otherwise it truncates or pads with zero bytes.
\<close>

definition vec_size :: "byte list \<Rightarrow> size_t" where
  "vec_size v = of_nat (length v)"

definition vec_resize :: "size_t \<Rightarrow> byte list \<Rightarrow> byte list result" where
  "vec_resize n v =
     (if unat n < 2 ^ 63 then Inr (take (unat n) v @ replicate (unat n - length v) 0)
      else Inl LengthError)"

definition vec_read :: "byte list \<Rightarrow> size_t \<Rightarrow> size_t \<Rightarrow> byte list result" where
  "vec_read v i n =
     (if unat i + unat n \<le> length v then Inr (take (unat n) (drop (unat i) v))
      else Inl OutOfBounds)"

definition vec_write :: "byte list \<Rightarrow> size_t \<Rightarrow> byte list \<Rightarrow> byte list result" where
  "vec_write v i d =
     (if unat i + length d \<le> length v
      then Inr (take (unat i) v @ d @ drop (unat i + length d) v)
      else Inl OutOfBounds)"

lemma vec_write_length: "vec_write v i d = Inr v' \<Longrightarrow> length v' = length v"
  by (auto simp: vec_write_def split: if_splits)

lemma unat_of_nat_64 [simp]: "n < 2 ^ 64 \<Longrightarrow> unat (of_nat n :: 64 word) = n"
  by (simp add: unat_of_nat)

lemma unat_vec_size: "length v < 2 ^ 63 \<Longrightarrow> unat (vec_size v) = length v"
  by (simp add: vec_size_def)

lemma unat_diff_64: "unat b \<le> unat a \<Longrightarrow> unat (a - b :: 64 word) = unat a - unat b"
  by (simp add: unat_sub word_le_nat_alt)

lemma unat_add_64: "unat a + unat b < 2 ^ 64 \<Longrightarrow> unat (a + b :: 64 word) = unat a + unat b"
  by (simp add: unat_word_ariths)

lemma unat_diff_wrap_64:
  fixes a b :: "64 word"
  assumes "unat a < unat b"
  shows "unat (a - b) = 2 ^ 64 - (unat b - unat a)"
  using assms by (simp add: unat_sub_if_size word_size)

lemmas unat_arith_64 = word_le_nat_alt word_less_nat_alt unat_diff_64 unat_add_64 unat_vec_size

end
