(* ===== verification/Timestamps.thy ===== *)
theory Timestamps
  imports Complex_Main Muduo_Prelude "HOL-Library.Log_Nat"
begin

text \<open>
  The class \<open>Timestamp\<close> of Timestamp.h and Timestamp.cpp: microseconds since the epoch in an
  \<open>int64_t\<close>, ordered by their signed value, and \<open>addTime\<close>, which goes through a
  \<open>double\<close>. A finite double is the rational it denotes; products and quotients are rounded
  to 53 significant bits, ties to even, as IEEE 754 does within the normal range (the exponent
  range is not modelled).
\<close>

section \<open>Timestamps\<close>

datatype timestamp = Timestamp (microSecondsSinceEpoch: int64)

instantiation timestamp :: linorder
begin

definition less_timestamp :: "timestamp \<Rightarrow> timestamp \<Rightarrow> bool" where
  "less_timestamp l r \<longleftrightarrow> sint (microSecondsSinceEpoch l) < sint (microSecondsSinceEpoch r)"

definition less_eq_timestamp :: "timestamp \<Rightarrow> timestamp \<Rightarrow> bool" where
  "less_eq_timestamp l r \<longleftrightarrow> sint (microSecondsSinceEpoch l) \<le> sint (microSecondsSinceEpoch r)"

instance
proof
  fix x y z :: timestamp
  show "x < y \<longleftrightarrow> x \<le> y \<and> \<not> y \<le> x" "x \<le> x" "x \<le> y \<or> y \<le> x"
    by (auto simp: less_timestamp_def less_eq_timestamp_def)
  show "x \<le> y \<Longrightarrow> y \<le> z \<Longrightarrow> x \<le> z" by (simp add: less_eq_timestamp_def)
  assume "x \<le> y" "y \<le> x"
  then have "sint (microSecondsSinceEpoch x) = sint (microSecondsSinceEpoch y)"
    by (simp add: less_eq_timestamp_def)
  then have "microSecondsSinceEpoch x = microSecondsSinceEpoch y" by (rule signed_word_eqI)
  then show "x = y" by (rule timestamp.expand)
qed

end

definition kMicroSecondsPerSecond :: int where "kMicroSecondsPerSecond = 1000 * 1000"

definition invalid_Timestamp :: timestamp where "invalid_Timestamp = Timestamp 0"

definition isValid :: "timestamp \<Rightarrow> bool" where
  "isValid t \<longleftrightarrow> 0 < sint (microSecondsSinceEpoch t)"

text \<open>\<open>Timestamp::now\<close>, from what \<open>gettimeofday\<close> filled in.\<close>

definition Timestamp_now :: "int64 \<Rightarrow> int64 \<Rightarrow> timestamp" where
  "Timestamp_now tv_sec tv_usec = Timestamp (tv_sec * word_of_int kMicroSecondsPerSecond + tv_usec)"

section \<open>Doubles\<close>

type_synonym double = rat

definition round_half_even :: "rat \<Rightarrow> int" where
  "round_half_even x =
     (let f = \<lfloor>x\<rfloor>; d = x - of_int f in
      if d < 1 / 2 then f else if 1 / 2 < d then f + 1 else if even f then f else f + 1)"

text \<open>The binary exponent \<open>e\<close> with \<open>2 powi e \<le> \<bar>x\<bar> < 2 powi (e + 1)\<close>.\<close>

definition binary_exponent :: "rat \<Rightarrow> int" where
  "binary_exponent x =
     (case quotient_of \<bar>x\<bar> of (p, q) \<Rightarrow>
       (let k = int (floorlog 2 (nat p)) - int (floorlog 2 (nat q)) in
        if 2 powi k \<le> \<bar>x\<bar> then k else k - 1))"

definition double_round :: "rat \<Rightarrow> double" where
  "double_round x =
     (if x = 0 then 0
      else (let u = 2 powi (binary_exponent x - 52) in of_int (round_half_even (x / u)) * u))"

definition double_mult :: "double \<Rightarrow> double \<Rightarrow> double" where
  "double_mult a b = double_round (a * b)"

definition double_div :: "double \<Rightarrow> double \<Rightarrow> double" where
  "double_div a b = double_round (a / b)"

text \<open>The conversion to \<open>int64_t\<close> truncates towards zero.\<close>

definition double_to_int64 :: "double \<Rightarrow> int64" where
  "double_to_int64 x = word_of_int (if 0 \<le> x then \<lfloor>x\<rfloor> else \<lceil>x\<rceil>)"

definition addTime :: "timestamp \<Rightarrow> double \<Rightarrow> timestamp" where
  "addTime time seconds =
     (let delta = double_to_int64 (double_mult seconds (of_int kMicroSecondsPerSecond)) in
      Timestamp (microSecondsSinceEpoch time + delta))"

lemma round_half_even_int [simp]: "round_half_even (of_int n) = n"
  by (simp add: round_half_even_def)

lemma floorlog_powi:
  assumes "0 < n"
  shows "2 powi (int (floorlog 2 n) - 1) \<le> (of_nat n :: rat)"
    and "(of_nat n :: rat) < 2 powi int (floorlog 2 n)"
proof -
  from assms obtain j where j: "floorlog 2 n = Suc j"
    by (auto simp: floorlog_def)
  have b: "2 ^ j \<le> n" "n < 2 ^ Suc j"
    using floorlog_bounds [of n 2] assms j by simp_all
  have "int (floorlog 2 n) - 1 = int j" using j by simp
  moreover have "of_nat (2 ^ j) \<le> (of_nat n :: rat)" using b(1) by (simp only: of_nat_le_iff)
  ultimately show "2 powi (int (floorlog 2 n) - 1) \<le> (of_nat n :: rat)" by simp
  have "(of_nat n :: rat) < of_nat (2 ^ Suc j)" using b(2) by (simp only: of_nat_less_iff)
  then show "(of_nat n :: rat) < 2 powi int (floorlog 2 n)" using j by (simp add: power_int_add)
qed

lemma binary_exponent_bounds:
  assumes "x \<noteq> 0"
  shows "2 powi binary_exponent x \<le> \<bar>x\<bar>" and "\<bar>x\<bar> < 2 powi (binary_exponent x + 1)"
proof -
  obtain p q where pq: "quotient_of \<bar>x\<bar> = (p, q)" by (cases "quotient_of \<bar>x\<bar>")
  have q: "0 < q" using quotient_of_denom_pos [OF pq] .
  have x: "\<bar>x\<bar> = of_int p / of_int q" using quotient_of_div [OF pq] .
  have "0 < \<bar>x\<bar>" using assms by simp
  then have p: "0 < p" using x q by (simp add: zero_less_divide_iff)
  define a b where "a = int (floorlog 2 (nat p))" and "b = int (floorlog 2 (nat q))"
  have pa: "2 powi (a - 1) \<le> (of_int p :: rat)" "(of_int p :: rat) < 2 powi a"
    using floorlog_powi [of "nat p"] p by (simp_all add: a_def)
  have qb: "2 powi (b - 1) \<le> (of_int q :: rat)" "(of_int q :: rat) < 2 powi b"
    using floorlog_powi [of "nat q"] q by (simp_all add: b_def)
  have e: "binary_exponent x = (if 2 powi (a - b) \<le> \<bar>x\<bar> then a - b else a - b - 1)"
    by (simp add: binary_exponent_def pq Let_def a_def b_def)
  have qr: "(0 :: rat) < of_int q" using q by simp
  have "\<bar>x\<bar> < 2 powi (a - b + 1)"
  proof -
    have "2 powi a = 2 powi (a - b + 1) * (2 powi (b - 1) :: rat)"
      by (simp flip: power_int_add)
    also have "\<dots> \<le> 2 powi (a - b + 1) * of_int q"
      by (rule mult_left_mono [OF qb(1)]) simp
    finally have "of_int p < 2 powi (a - b + 1) * (of_int q :: rat)" using pa(2) by simp
    then show ?thesis using qr by (simp add: x pos_divide_less_eq)
  qed
  moreover have "2 powi (a - b - 1) \<le> \<bar>x\<bar>"
  proof -
    have "2 powi (a - b - 1) * (of_int q :: rat) \<le> 2 powi (a - b - 1) * 2 powi b"
      by (rule mult_left_mono) (use qb(2) in simp_all)
    also have "\<dots> = 2 powi (a - 1)" by (simp flip: power_int_add)
    finally have "2 powi (a - b - 1) * (of_int q :: rat) \<le> of_int p" using pa(1) by simp
    then show ?thesis using qr by (simp add: x pos_le_divide_eq)
  qed
  ultimately show "2 powi binary_exponent x \<le> \<bar>x\<bar>" and "\<bar>x\<bar> < 2 powi (binary_exponent x + 1)"
    unfolding e by (auto simp: not_le)
qed

text \<open>A rational with at most 53 significant bits is a double: rounding keeps it.\<close>

lemma double_round_exact:
  assumes x: "x = of_int m * 2 powi e" and m: "\<bar>m\<bar> < 2 ^ 53"
  shows "double_round x = x"
proof (cases "x = 0")
  case True
  then show ?thesis by (simp add: double_round_def)
next
  case False
  have "\<bar>x\<bar> = of_int \<bar>m\<bar> * 2 powi e" by (simp add: x abs_mult power_int_abs)
  also have "(of_int \<bar>m\<bar> :: rat) < 2 ^ 53"
    using m of_int_less_iff [of "\<bar>m\<bar>" "2 ^ 53", where 'a = rat] by simp
  then have "of_int \<bar>m\<bar> * 2 powi e < 2 ^ 53 * (2 powi e :: rat)" by simp
  also have "(2 :: rat) ^ 53 * 2 powi e = 2 powi (53 + e)" by (simp add: power_int_add)
  finally have "2 powi binary_exponent x < (2 powi (53 + e) :: rat)"
    using binary_exponent_bounds(1) [OF False] by simp
  then have lt: "binary_exponent x < 53 + e"
    by (metis not_le power_int_increasing numeral_One one_le_numeral)
  define d where "d = nat (e - (binary_exponent x - 52))"
  define k where "k = binary_exponent x - 52"
  have "2 powi e = 2 powi k * (2 powi int d :: rat)"
    using lt by (simp add: d_def k_def flip: power_int_add)
  then have xk: "x = of_int (m * 2 ^ d) * 2 powi k" using x by simp
  have "x / 2 powi k = of_int (m * 2 ^ d)"
    unfolding xk by (rule nonzero_mult_div_cancel_right) simp
  then have "round_half_even (x / 2 powi k) = m * 2 ^ d" by (simp only: round_half_even_int)
  moreover have "double_round x = of_int (round_half_even (x / 2 powi k)) * 2 powi k"
    using False by (simp add: double_round_def Let_def k_def)
  ultimately show ?thesis using xk by (simp only:)
qed

text \<open>
  Sums with a delay that has at most 53 significant bits as a double, in microseconds, are exact:
  so are all delays that are a whole number of half seconds.
\<close>

lemma addTime_half_seconds:
  assumes "\<bar>n\<bar> < 2 ^ 32"
  shows "addTime t (of_int n / 2) =
    Timestamp (microSecondsSinceEpoch t + word_of_int (n * 500000))"
proof -
  have "double_mult (of_int n / 2) (of_int kMicroSecondsPerSecond) = of_int (n * 500000)"
    unfolding double_mult_def
    by (subst double_round_exact [of _ "n * 500000" 0])
      (use assms in \<open>simp_all add: kMicroSecondsPerSecond_def\<close>)
  then show ?thesis
    by (simp only: addTime_def double_to_int64_def Let_def floor_of_int ceiling_of_int if_cancel)
qed

end
