(* ===== verification/Callbacks.thy ===== *)
theory Callbacks
  imports Timestamps
begin

text \<open>
  The closures of the program, as data. The source stores \<open>std::function\<close> values made by
  \<open>std::bind\<close> of a member function and an object; here each of them is a constructor with the
  object as its argument. \<open>loop_functor\<close> holds those that are queued in a loop or fired by a timer,
  \<open>channel_callback\<close> those that a \<open>Channel\<close> dispatches to, and \<open>close_callback\<close> those that the owner of
  a connection has it call at its end. Objects are named by the pointer
  types below.
\<close>

type_synonym loop_ptr = nat
type_synonym channel_ptr = nat
type_synonym timer_ptr = nat
type_synonym conn_ptr = nat

text \<open>\<open>TimerId\<close>: the timer's address, or null, and the sequence number it was created with.\<close>

datatype timer_id = TimerId "timer_ptr option" int64

datatype close_callback =
    Cl_TcpServer_removeConnection
  | Cl_TcpClient_removeConnection
  | Cl_removeConnection_base loop_ptr

datatype loop_functor =
    Fn_addTimerInLoop timer_ptr
  | Fn_cancelInLoop timer_id
  | Fn_sendInLoop conn_ptr "byte list"
  | Fn_shutdownInLoop conn_ptr
  | Fn_forceClose conn_ptr
  | Fn_forceCloseInLoop conn_ptr
  | Fn_connEstablished conn_ptr
  | Fn_connDestroyed conn_ptr
  | Fn_writeComplete conn_ptr
  | Fn_setCloseCallback conn_ptr close_callback
  | Fn_removeConnectionInLoop conn_ptr
  | Fn_listen
  | Fn_startInLoop
  | Fn_connect
  | Fn_resetChannel
  | Fn_user nat

datatype channel_callback =
    Cb_EventLoop_handleRead loop_ptr
  | Cb_TimerQueue_handleRead loop_ptr
  | Cb_Acceptor_handleRead
  | Cb_TcpConnection_handleRead conn_ptr
  | Cb_TcpConnection_handleClose conn_ptr
  | Cb_Connector_handleWrite
  | Cb_Connector_handleError

end
