(* ===== verification/Channels.thy ===== *)
theory Channels
  imports Callbacks
begin

unbundle bit_operations_syntax

text \<open>
  The class \<open>Channel\<close> of Channel.h and Channel.cpp: one file descriptor, the events it is
  interested in, the events that the poller reported, and the callbacks to run for them. Channels
  are heap objects: pollers and loops hold pointers to them and write their \<open>index_\<close> and
  \<open>revents_\<close>, so the state is a map from pointers to channels. The theory shows which callbacks
  an event runs, and in which order.
\<close>

section \<open>Data\<close>

type_synonym event_mask = "32 word"

definition POLLIN :: event_mask where "POLLIN = 0x1"
definition POLLPRI :: event_mask where "POLLPRI = 0x2"
definition POLLOUT :: event_mask where "POLLOUT = 0x4"
definition POLLERR :: event_mask where "POLLERR = 0x8"
definition POLLHUP :: event_mask where "POLLHUP = 0x10"
definition POLLNVAL :: event_mask where "POLLNVAL = 0x20"

definition kNonEvent :: event_mask where "kNonEvent = 0"
definition kReadEvent :: event_mask where "kReadEvent = POLLIN OR POLLPRI"
definition kWriteEvent :: event_mask where "kWriteEvent = POLLOUT"

lemmas event_masks = POLLIN_def POLLPRI_def POLLOUT_def POLLERR_def POLLHUP_def POLLNVAL_def
  kNonEvent_def kReadEvent_def kWriteEvent_def

record channel =
  ch_loop :: loop_ptr
  ch_fd :: int
  events :: event_mask
  revents :: event_mask
  index :: int
  eventHandling :: bool
  tied :: bool
  tie_obj :: "nat option"
  readCallback :: "channel_callback option"
  writeCallback :: "channel_callback option"
  errorCallback :: "channel_callback option"
  closeCallback :: "channel_callback option"

definition new_Channel :: "loop_ptr \<Rightarrow> int \<Rightarrow> channel" where
  "new_Channel loop fd =
     \<lparr>ch_loop = loop, ch_fd = fd, events = 0, revents = 0, index = -1, eventHandling = False,
      tied = False, tie_obj = None, readCallback = None, writeCallback = None,
      errorCallback = None, closeCallback = None\<rparr>"

definition tie :: "nat \<Rightarrow> channel \<Rightarrow> channel" where
  "tie obj ch = ch\<lparr>tied := True, tie_obj := Some obj\<rparr>"

text \<open>The setters of the callbacks.\<close>

definition Channel_setReadCallback :: "channel_callback \<Rightarrow> channel \<Rightarrow> channel" where
  [simp]: "Channel_setReadCallback cb ch = ch\<lparr>readCallback := Some cb\<rparr>"

definition Channel_setWriteCallback :: "channel_callback \<Rightarrow> channel \<Rightarrow> channel" where
  [simp]: "Channel_setWriteCallback cb ch = ch\<lparr>writeCallback := Some cb\<rparr>"

definition Channel_setErrorCallback :: "channel_callback \<Rightarrow> channel \<Rightarrow> channel" where
  [simp]: "Channel_setErrorCallback cb ch = ch\<lparr>errorCallback := Some cb\<rparr>"

definition Channel_setCloseCallback :: "channel_callback \<Rightarrow> channel \<Rightarrow> channel" where
  [simp]: "Channel_setCloseCallback cb ch = ch\<lparr>closeCallback := Some cb\<rparr>"

definition isNoneEvents :: "channel \<Rightarrow> bool" where
  "isNoneEvents ch \<longleftrightarrow> events ch = kNonEvent"

definition isWriting :: "channel \<Rightarrow> bool" where
  "isWriting ch \<longleftrightarrow> events ch AND kWriteEvent \<noteq> 0"

definition isReading :: "channel \<Rightarrow> bool" where
  "isReading ch \<longleftrightarrow> events ch AND kReadEvent \<noteq> 0"

text \<open>The masks that the \<open>enable\<close> and \<open>disable\<close> members store before they call \<open>update\<close>.\<close>

definition with_reading :: "channel \<Rightarrow> channel" where
  "with_reading ch = ch\<lparr>events := events ch OR kReadEvent\<rparr>"

definition with_writing :: "channel \<Rightarrow> channel" where
  "with_writing ch = ch\<lparr>events := events ch OR kWriteEvent\<rparr>"

definition without_writing :: "channel \<Rightarrow> channel" where
  "without_writing ch = ch\<lparr>events := events ch AND NOT kWriteEvent\<rparr>"

definition without_events :: "channel \<Rightarrow> channel" where
  "without_events ch = ch\<lparr>events := kNonEvent\<rparr>"

section \<open>Event dispatch\<close>

record chan_heap =
  channels :: "channel_ptr \<rightharpoonup> channel"

definition modify_channel ::
    "channel_ptr \<Rightarrow> (channel \<Rightarrow> channel) \<Rightarrow> 'a chan_heap_scheme \<Rightarrow> 'a chan_heap_scheme result" where
  "modify_channel c f w =
     rbind (deref (channels w) c) (\<lambda>ch. Inr (w\<lparr>channels := (channels w)(c \<mapsto> f ch)\<rparr>))"

text \<open>The destructor asserts that the channel is not handling an event.\<close>

definition delete_Channel ::
    "channel_ptr \<Rightarrow> 'a chan_heap_scheme \<Rightarrow> 'a chan_heap_scheme result" where
  "delete_Channel c w =
     rbind (deref (channels w) c) (\<lambda>ch.
       cpp_assert (\<not> eventHandling ch) (Inr (w\<lparr>channels := (channels w)(c := None)\<rparr>)))"

text \<open>
  One guarded call of \<open>handleEventWithGuard\<close>: \<open>if (revents_ & mask) if (cb) cb();\<close>. The
  channel is read anew each time, as the source reads its members.
\<close>

definition dispatch ::
    "(channel_callback \<Rightarrow> timestamp \<Rightarrow> 'a chan_heap_scheme \<Rightarrow> 'a chan_heap_scheme result) \<Rightarrow>
     timestamp \<Rightarrow> (event_mask \<Rightarrow> bool) \<Rightarrow> (channel \<Rightarrow> channel_callback option) \<Rightarrow> channel_ptr \<Rightarrow>
     'a chan_heap_scheme \<Rightarrow> 'a chan_heap_scheme result" where
  "dispatch exec now guard sel c w =
     rbind (deref (channels w) c) (\<lambda>ch.
       if guard (revents ch)
       then (case sel ch of None \<Rightarrow> Inr w | Some cb \<Rightarrow> exec cb now w)
       else Inr w)"

definition error_guard :: "event_mask \<Rightarrow> bool" where
  "error_guard r \<longleftrightarrow> r AND (POLLERR OR POLLNVAL) \<noteq> 0"

definition close_guard :: "event_mask \<Rightarrow> bool" where
  "close_guard r \<longleftrightarrow> r AND POLLHUP \<noteq> 0 \<and> r AND POLLIN = 0"

definition read_guard :: "event_mask \<Rightarrow> bool" where
  "read_guard r \<longleftrightarrow> r AND (POLLIN OR POLLPRI OR POLLHUP) \<noteq> 0"

definition write_guard :: "event_mask \<Rightarrow> bool" where
  "write_guard r \<longleftrightarrow> r AND POLLOUT \<noteq> 0"

definition handleEventWithGuard ::
    "(channel_callback \<Rightarrow> timestamp \<Rightarrow> 'a chan_heap_scheme \<Rightarrow> 'a chan_heap_scheme result) \<Rightarrow>
     timestamp \<Rightarrow> channel_ptr \<Rightarrow> 'a chan_heap_scheme \<Rightarrow> 'a chan_heap_scheme result" where
  "handleEventWithGuard exec now c w =
     rbind (modify_channel c (\<lambda>ch. ch\<lparr>eventHandling := True\<rparr>) w) (\<lambda>w.
     rbind (dispatch exec now error_guard errorCallback c w) (\<lambda>w.
     rbind (dispatch exec now close_guard closeCallback c w) (\<lambda>w.
     rbind (dispatch exec now read_guard readCallback c w) (\<lambda>w.
     rbind (dispatch exec now write_guard writeCallback c w) (\<lambda>w.
     modify_channel c (\<lambda>ch. ch\<lparr>eventHandling := False\<rparr>) w)))))"

text \<open>\<open>alive\<close> says whether the object behind a \<open>weak_ptr\<close> still exists.\<close>

definition handleEvent ::
    "('a chan_heap_scheme \<Rightarrow> nat \<Rightarrow> bool) \<Rightarrow>
     (channel_callback \<Rightarrow> timestamp \<Rightarrow> 'a chan_heap_scheme \<Rightarrow> 'a chan_heap_scheme result) \<Rightarrow>
     timestamp \<Rightarrow> channel_ptr \<Rightarrow> 'a chan_heap_scheme \<Rightarrow> 'a chan_heap_scheme result" where
  "handleEvent alive exec now c w =
     rbind (deref (channels w) c) (\<lambda>ch.
       if tied ch then
         (case tie_obj ch of
            None \<Rightarrow> Inr w
          | Some obj \<Rightarrow> if alive w obj then handleEventWithGuard exec now c w else Inr w)
       else handleEventWithGuard exec now c w)"

section \<open>What an event runs\<close>

definition opt_list :: "bool \<Rightarrow> 'a option \<Rightarrow> 'a list" where
  "opt_list g x = (case x of None \<Rightarrow> [] | Some y \<Rightarrow> if g then [y] else [])"

text \<open>
  The specification of the dispatch, by the bits of the reported events as poll(2) numbers them
  (0 for input, 1 urgent input, 2 output, 3 error, 4 hang-up, 5 invalid descriptor), without the
  guards of the code: error or invalid runs the error callback, a hang-up that comes without input
  the close callback, any of input, urgent input and hang-up the read callback, output the write
  callback.
\<close>

definition callbacks_for :: "event_mask \<Rightarrow> channel \<Rightarrow> channel_callback list" where
  "callbacks_for r ch =
     opt_list (bit r 3 \<or> bit r 5) (errorCallback ch) @
     opt_list (bit r 4 \<and> \<not> bit r 0) (closeCallback ch) @
     opt_list (bit r 0 \<or> bit r 1 \<or> bit r 4) (readCallback ch) @
     opt_list (bit r 2) (writeCallback ch)"

text \<open>The masks of the guards are those bits.\<close>

lemma mask_bits:
  fixes r :: event_mask
  shows "r AND POLLIN = 0 \<longleftrightarrow> \<not> bit r 0" "r AND POLLPRI = 0 \<longleftrightarrow> \<not> bit r 1"
    "r AND POLLOUT = 0 \<longleftrightarrow> \<not> bit r 2" "r AND POLLERR = 0 \<longleftrightarrow> \<not> bit r 3"
    "r AND POLLHUP = 0 \<longleftrightarrow> \<not> bit r 4" "r AND POLLNVAL = 0 \<longleftrightarrow> \<not> bit r 5"
  using and_exp_eq_0_iff_not_bit [of r 0] and_exp_eq_0_iff_not_bit [of r 1]
    and_exp_eq_0_iff_not_bit [of r 2] and_exp_eq_0_iff_not_bit [of r 3]
    and_exp_eq_0_iff_not_bit [of r 4] and_exp_eq_0_iff_not_bit [of r 5]
  by (simp_all add: event_masks)

lemma mask_or:
  fixes r a b :: event_mask
  shows "r AND (a OR b) = 0 \<longleftrightarrow> r AND a = 0 \<and> r AND b = 0"
  by (simp add: bit.conj_disj_distrib or_eq_0_iff)

lemma guards_bits:
  "error_guard r \<longleftrightarrow> bit r 3 \<or> bit r 5" "close_guard r \<longleftrightarrow> bit r 4 \<and> \<not> bit r 0"
  "read_guard r \<longleftrightarrow> bit r 0 \<or> bit r 1 \<or> bit r 4" "write_guard r \<longleftrightarrow> bit r 2"
  by (simp_all add: error_guard_def close_guard_def read_guard_def write_guard_def mask_or mask_bits)

lemma callbacks_for_guards:
  "callbacks_for r ch =
     opt_list (error_guard r) (errorCallback ch) @ opt_list (close_guard r) (closeCallback ch) @
     opt_list (read_guard r) (readCallback ch) @ opt_list (write_guard r) (writeCallback ch)"
  by (simp add: callbacks_for_def guards_bits)

text \<open>Two states of a channel that dispatch alike.\<close>

definition same_dispatch :: "channel \<Rightarrow> channel \<Rightarrow> bool" where
  "same_dispatch a b \<longleftrightarrow> revents a = revents b \<and> errorCallback a = errorCallback b \<and>
     closeCallback a = closeCallback b \<and> readCallback a = readCallback b \<and>
     writeCallback a = writeCallback b"

lemma same_dispatch_refl [simp]: "same_dispatch a a"
  by (simp add: same_dispatch_def)

lemma same_dispatch_trans: "same_dispatch a b \<Longrightarrow> same_dispatch b c \<Longrightarrow> same_dispatch a c"
  by (simp add: same_dispatch_def)

lemma same_dispatch_handling [simp]: "same_dispatch a (a\<lparr>eventHandling := x\<rparr>)"
  by (simp add: same_dispatch_def)

text \<open>A callback that leaves the dispatching channel in place, with its events and callbacks.\<close>

definition keeps_dispatch ::
    "(channel_callback \<Rightarrow> timestamp \<Rightarrow> 'a chan_heap_scheme \<Rightarrow> 'a chan_heap_scheme result) \<Rightarrow>
     timestamp \<Rightarrow> channel_ptr \<Rightarrow> bool" where
  "keeps_dispatch exec now c \<longleftrightarrow>
     (\<forall>cb w w' ch. exec cb now w = Inr w' \<longrightarrow> channels w c = Some ch \<longrightarrow>
        (\<exists>ch'. channels w' c = Some ch' \<and> same_dispatch ch ch'))"

lemma dispatch_opt:
  assumes "channels w c = Some ch"
  shows "dispatch exec now g sel c w =
    rfold (\<lambda>cb. exec cb now) (opt_list (g (revents ch)) (sel ch)) w"
  using assms by (cases "exec (the (sel ch)) now w")
    (auto simp: dispatch_def opt_list_def split: option.splits)

lemma rfold_keeps_dispatch:
  assumes "keeps_dispatch exec now c" and "channels w c = Some ch"
    and "rfold (\<lambda>cb. exec cb now) cbs w = Inr w'"
  shows "\<exists>ch'. channels w' c = Some ch' \<and> same_dispatch ch ch'"
proof -
  have "\<exists>ch'. channels w' c = Some ch' \<and> same_dispatch ch ch'"
    by (rule rfold_invariant [OF _ _ assms(3), where
          I = "\<lambda>w. \<exists>ch'. channels w c = Some ch' \<and> same_dispatch ch ch'"])
      (use assms(1,2) same_dispatch_refl same_dispatch_trans in
        \<open>unfold keeps_dispatch_def, blast+\<close>)
  then show ?thesis .
qed

lemma dispatch_continue:
  assumes keep: "keeps_dispatch exec now c" and ch: "channels w c = Some ch"
    and sel: "\<And>a b. same_dispatch a b \<Longrightarrow> sel a = sel b"
    and rest: "\<And>w' ch'. channels w' c = Some ch' \<Longrightarrow> same_dispatch ch ch' \<Longrightarrow>
      k w' = rbind (rfold (\<lambda>cb. exec cb now) cbs w') h"
  shows "rbind (dispatch exec now g sel c w) k =
    rbind (rfold (\<lambda>cb. exec cb now) (opt_list (g (revents ch)) (sel ch) @ cbs) w) h"
proof (cases "rfold (\<lambda>cb. exec cb now) (opt_list (g (revents ch)) (sel ch)) w")
  case (Inl e)
  then show ?thesis by (simp add: dispatch_opt [where ch = ch, OF ch] rfold_append)
next
  case (Inr w')
  obtain ch' where "channels w' c = Some ch'" "same_dispatch ch ch'"
    using rfold_keeps_dispatch [OF keep ch Inr] by blast
  then show ?thesis using Inr rest by (simp add: dispatch_opt [where ch = ch, OF ch] rfold_append)
qed

lemma handleEventWithGuard_eq:
  assumes keep: "keeps_dispatch exec now c" and ch: "channels w c = Some ch"
  defines "w0 \<equiv> w\<lparr>channels := (channels w)(c \<mapsto> ch\<lparr>eventHandling := True\<rparr>)\<rparr>"
  shows "handleEventWithGuard exec now c w =
    rbind (rfold (\<lambda>cb. exec cb now) (callbacks_for (revents ch) ch) w0)
      (modify_channel c (\<lambda>ch. ch\<lparr>eventHandling := False\<rparr>))"
proof -
  let ?ch = "ch\<lparr>eventHandling := True\<rparr>"
  let ?h = "modify_channel c (\<lambda>ch. ch\<lparr>eventHandling := False\<rparr>)"
  have c0: "channels w0 c = Some ?ch" by (simp add: w0_def)
  have "handleEventWithGuard exec now c w =
     rbind (dispatch exec now error_guard errorCallback c w0) (\<lambda>w.
     rbind (dispatch exec now close_guard closeCallback c w) (\<lambda>w.
     rbind (dispatch exec now read_guard readCallback c w) (\<lambda>w.
     rbind (dispatch exec now write_guard writeCallback c w) (\<lambda>w. ?h w))))"
    using ch by (simp add: handleEventWithGuard_def modify_channel_def w0_def)
  also have "\<dots> = rbind (rfold (\<lambda>cb. exec cb now) (callbacks_for (revents ?ch) ?ch) w0) ?h"
    unfolding callbacks_for_guards
  proof (rule dispatch_continue [OF keep c0], goal_cases)
    case (1 a b) then show ?case by (simp add: same_dispatch_def)
  next
    case (2 w1 ch1)
    have e1: "revents ?ch = revents ch1" "closeCallback ?ch = closeCallback ch1"
      "readCallback ?ch = readCallback ch1" "writeCallback ?ch = writeCallback ch1"
      using 2(2) by (simp_all add: same_dispatch_def)
    show ?case
      unfolding e1
    proof (rule dispatch_continue [OF keep 2(1)], goal_cases)
      case (1 a b) then show ?case by (simp add: same_dispatch_def)
    next
      case (2 w2 ch2)
      have e2: "revents ch1 = revents ch2" "readCallback ch1 = readCallback ch2"
        "writeCallback ch1 = writeCallback ch2"
        using 2(2) by (simp_all add: same_dispatch_def)
      show ?case
        unfolding e2
      proof (rule dispatch_continue [OF keep 2(1)], goal_cases)
        case (1 a b) then show ?case by (simp add: same_dispatch_def)
      next
        case (2 w3 ch3)
        have e3: "revents ch2 = revents ch3" "writeCallback ch2 = writeCallback ch3"
          using 2(2) by (simp_all add: same_dispatch_def)
        show ?case unfolding e3 by (simp add: dispatch_opt [OF 2(1)])
      qed
    qed
  qed
  finally show ?thesis by (simp add: callbacks_for_guards)
qed

section \<open>Properties\<close>

text \<open>
  C28. \<open>Channel::handleEvent\<close> runs, of the callbacks that are set, the error callback exactly if
  bit 3 (\<open>POLLERR\<close>) or bit 5 (\<open>POLLNVAL\<close>) of the reported events is set, then the close callback
  exactly if bit 4 (\<open>POLLHUP\<close>) is set and bit 0 (\<open>POLLIN\<close>) is not, then the read callback exactly if
  bit 0, 1 (\<open>POLLPRI\<close>) or 4 is set, then the write callback exactly if bit 2 (\<open>POLLOUT\<close>) is set;
  each once, stopping at the first one that ends abnormally. Then it clears \<open>eventHandling_\<close>. A
  tied channel whose object is gone runs nothing. The callbacks are any that leave this channel's
  events and callbacks in place.
\<close>

theorem handleEvent_dispatches:
  assumes "keeps_dispatch exec now c" and "channels w c = Some ch"
  shows "handleEvent alive exec now c w =
    (if tied ch \<and> (case tie_obj ch of None \<Rightarrow> True | Some obj \<Rightarrow> \<not> alive w obj) then Inr w
     else rbind (rfold (\<lambda>cb. exec cb now) (callbacks_for (revents ch) ch)
         (w\<lparr>channels := (channels w)(c \<mapsto> ch\<lparr>eventHandling := True\<rparr>)\<rparr>))
       (modify_channel c (\<lambda>ch. ch\<lparr>eventHandling := False\<rparr>)))"
  using assms(2) handleEventWithGuard_eq [OF assms]
  by (auto simp: handleEvent_def split: option.splits)

text \<open>
  A channel with all four callbacks, on each single event, on a hang-up with and without input, and
  on everything at once.
\<close>

definition busy_channel :: "event_mask \<Rightarrow> channel" where
  "busy_channel r = (new_Channel 0 5)\<lparr>revents := r,
     readCallback := Some (Cb_TcpConnection_handleRead 1),
     writeCallback := Some (Cb_Connector_handleWrite),
     errorCallback := Some (Cb_Connector_handleError),
     closeCallback := Some (Cb_TcpConnection_handleClose 1)\<rparr>"

definition busy_run :: "event_mask \<Rightarrow> channel_callback list" where
  "busy_run r =
     (case handleEvent (\<lambda>_ _. True)
        (\<lambda>cb now w. Inr (w\<lparr>chan_heap.more := chan_heap.more w @ [cb]\<rparr>)) (Timestamp 0) 7
        \<lparr>channels = [7 \<mapsto> busy_channel r], \<dots> = []\<rparr> of
        Inl _ \<Rightarrow> [] | Inr w \<Rightarrow> chan_heap.more w)"

theorem handleEvent_dispatches_witness:
  "busy_run 0x1 = [Cb_TcpConnection_handleRead 1] \<and>
   busy_run 0x2 = [Cb_TcpConnection_handleRead 1] \<and>
   busy_run 0x4 = [Cb_Connector_handleWrite] \<and>
   busy_run 0x8 = [Cb_Connector_handleError] \<and>
   busy_run 0x10 = [Cb_TcpConnection_handleClose 1, Cb_TcpConnection_handleRead 1] \<and>
   busy_run 0x11 = [Cb_TcpConnection_handleRead 1] \<and>
   busy_run 0x20 = [Cb_Connector_handleError] \<and>
   busy_run 0x3E = [Cb_Connector_handleError, Cb_TcpConnection_handleClose 1,
     Cb_TcpConnection_handleRead 1, Cb_Connector_handleWrite]"
proof -
  let ?exec = "\<lambda>cb now w. Inr (w\<lparr>chan_heap.more := chan_heap.more w @ [cb]\<rparr>)"
  have k: "keeps_dispatch ?exec (Timestamp 0) 7" by (auto simp: keeps_dispatch_def)
  have log: "\<exists>w'. rfold (\<lambda>cb. ?exec cb (Timestamp 0)) cbs w = Inr w' \<and>
      chan_heap.more w' = chan_heap.more w @ cbs \<and> channels w' = channels w" for cbs w
    by (induction cbs arbitrary: w) force+
  have run: "busy_run r = callbacks_for r (busy_channel r)" for r
  proof -
    let ?w = "\<lparr>channels = [7 \<mapsto> busy_channel r], \<dots> = []\<rparr>"
    obtain w' where "rfold (\<lambda>cb. ?exec cb (Timestamp 0)) (callbacks_for r (busy_channel r))
        (?w\<lparr>channels := (channels ?w)(7 \<mapsto> (busy_channel r)\<lparr>eventHandling := True\<rparr>)\<rparr>) = Inr w'"
        "chan_heap.more w' = callbacks_for r (busy_channel r)"
        "channels w' 7 = Some ((busy_channel r)\<lparr>eventHandling := True\<rparr>)"
      using log [of "callbacks_for r (busy_channel r)"
          "?w\<lparr>channels := (channels ?w)(7 \<mapsto> (busy_channel r)\<lparr>eventHandling := True\<rparr>)\<rparr>"] by auto
    then show ?thesis
      using handleEvent_dispatches [OF k, of ?w "busy_channel r" "\<lambda>_ _. True"]
      by (simp add: busy_run_def busy_channel_def new_Channel_def modify_channel_def)
  qed
  show ?thesis
    unfolding run by (simp add: callbacks_for_def busy_channel_def opt_list_def)
qed

end
