(* ===== verification/Pollers.thy ===== *)
theory Pollers
  imports Channels
begin

unbundle bit_operations_syntax

text \<open>
  The classes \<open>Poller\<close>, \<open>EpollPoller\<close> and \<open>PollPoller\<close>. A poller keeps a map from
  descriptors to channels and writes the channels' \<open>index_\<close> and \<open>revents_\<close>, so its operations
  act on a pair of the channel heap and the poller. The system calls of \<open>EpollPoller\<close> are recorded
  in order in \<open>ep_ctl\<close>; \<open>interest\<close> replays such a trace as epoll_ctl(2) documents it (an
  \<open>ADD\<close> of a known descriptor and a \<open>MOD\<close> or \<open>DEL\<close> of an unknown one are errors). What
  epoll_wait(2) and poll(2) report is an argument. The contract of the virtual class is the locale
  \<open>poller_contract\<close>, which both subclasses satisfy; \<open>resuming_poller\<close> adds what only
  \<open>EpollPoller\<close> does.
\<close>

section \<open>EpollPoller\<close>

definition kNew :: int where "kNew = -1"
definition kAdded :: int where "kAdded = 1"
definition kDeleted :: int where "kDeleted = 2"
definition kInitEventListSize :: nat where "kInitEventListSize = 16"

datatype ctl_op = EPOLL_CTL_ADD | EPOLL_CTL_MOD | EPOLL_CTL_DEL

text \<open>The numbers of the operations, and their names in the log.\<close>

fun ctl_number :: "ctl_op \<Rightarrow> int" where
  "ctl_number EPOLL_CTL_ADD = 1"
| "ctl_number EPOLL_CTL_DEL = 2"
| "ctl_number EPOLL_CTL_MOD = 3"

definition opeationToString :: "int \<Rightarrow> string result" where
  "opeationToString op' =
     (if op' = ctl_number EPOLL_CTL_ADD then Inr ''ADD''
      else if op' = ctl_number EPOLL_CTL_DEL then Inr ''DEL''
      else if op' = ctl_number EPOLL_CTL_MOD then Inr ''MOD''
      else Inl AssertFailed)"

lemma opeationToString_ok: "\<exists>s. opeationToString (ctl_number q) = Inr s"
  by (cases q) (simp_all add: opeationToString_def)

record ctl_call =
  ctl_operation :: ctl_op
  ctl_fd :: int
  ctl_events :: event_mask
  ctl_ptr :: channel_ptr

type_synonym heap = "channel_ptr \<rightharpoonup> channel"

record epoll_poller =
  ep_channels :: "int \<rightharpoonup> channel_ptr"
  ep_events_size :: nat
  ep_ctl :: "ctl_call list"

definition new_EpollPoller :: epoll_poller where
  "new_EpollPoller = \<lparr>ep_channels = Map.empty, ep_events_size = kInitEventListSize, ep_ctl = []\<rparr>"

definition set_index :: "channel_ptr \<Rightarrow> int \<Rightarrow> heap \<Rightarrow> heap" where
  "set_index c i h = (case h c of None \<Rightarrow> h | Some ch \<Rightarrow> h(c \<mapsto> ch\<lparr>index := i\<rparr>))"

text \<open>\<open>EpollPoller::update\<close>: one \<open>epoll_ctl\<close>; a failure is only logged.\<close>

definition epoll_update :: "ctl_op \<Rightarrow> channel_ptr \<Rightarrow> channel \<Rightarrow> epoll_poller \<Rightarrow> epoll_poller" where
  "epoll_update operation c ch p =
     p\<lparr>ep_ctl := ep_ctl p @ [\<lparr>ctl_operation = operation, ctl_fd = ch_fd ch,
         ctl_events = events ch, ctl_ptr = c\<rparr>]\<rparr>"

definition epoll_updateChannel ::
    "channel_ptr \<Rightarrow> heap \<times> epoll_poller \<Rightarrow> (heap \<times> epoll_poller) result" where
  "epoll_updateChannel c s =
     (case s of (h, p) \<Rightarrow>
      rbind (deref h c) (\<lambda>ch.
        (let fd = ch_fd ch in
         if index ch = kNew \<or> index ch = kDeleted then
           rbind
             (if index ch = kNew
              then cpp_assert (ep_channels p fd = None)
                (Inr (p\<lparr>ep_channels := (ep_channels p)(fd \<mapsto> c)\<rparr>))
              else cpp_assert (ep_channels p fd \<noteq> None)
                (cpp_assert (ep_channels p fd = Some c) (Inr p)))
             (\<lambda>p. Inr (set_index c kAdded h, epoll_update EPOLL_CTL_ADD c ch p))
         else
           cpp_assert (ep_channels p fd \<noteq> None)
             (cpp_assert (ep_channels p fd = Some c)
               (if isNoneEvents ch
                then Inr (set_index c kDeleted h, epoll_update EPOLL_CTL_DEL c ch p)
                else Inr (h, epoll_update EPOLL_CTL_MOD c ch p))))))"

definition epoll_removeChannel ::
    "channel_ptr \<Rightarrow> heap \<times> epoll_poller \<Rightarrow> (heap \<times> epoll_poller) result" where
  "epoll_removeChannel c s =
     (case s of (h, p) \<Rightarrow>
      rbind (deref h c) (\<lambda>ch.
        (let fd = ch_fd ch in
         cpp_assert (ep_channels p fd \<noteq> None)
         (cpp_assert (ep_channels p fd = Some c)
         (cpp_assert (isNoneEvents ch)
         (cpp_assert (index ch = kAdded \<or> index ch = kDeleted)
         (let p1 = (if index ch = kAdded then epoll_update EPOLL_CTL_DEL c ch p else p) in
          Inr (set_index c kNew h, p1\<lparr>ep_channels := (ep_channels p1)(fd := None)\<rparr>))))))))"

text \<open>
  \<open>fillActiveChannels\<close>, over the events that \<open>epoll_wait\<close> stored: masks with the pointers
  that were registered with them.
\<close>

fun epoll_fill ::
    "(int \<rightharpoonup> channel_ptr) \<Rightarrow> (event_mask \<times> channel_ptr) list \<Rightarrow> heap \<times> channel_ptr list \<Rightarrow>
     (heap \<times> channel_ptr list) result" where
  "epoll_fill m [] s = Inr s"
| "epoll_fill m ((r, c) # evs) (h, active) =
     rbind (deref h c) (\<lambda>ch.
       cpp_assert (m (ch_fd ch) \<noteq> None)
         (cpp_assert (m (ch_fd ch) = Some c)
           (epoll_fill m evs (h(c \<mapsto> ch\<lparr>revents := r\<rparr>), active @ [c]))))"

text \<open>\<open>poll\<close>: an error and a timeout both report nothing; a full event list is doubled.\<close>

definition epoll_poll ::
    "(event_mask \<times> channel_ptr) list \<Rightarrow> heap \<times> epoll_poller \<Rightarrow>
     (heap \<times> epoll_poller \<times> channel_ptr list) result" where
  "epoll_poll reported s =
     (case s of (h, p) \<Rightarrow>
       if reported = [] then Inr (h, p, [])
       else cpp_assert (length reported \<le> ep_events_size p)
         (rbind (epoll_fill (ep_channels p) reported (h, [])) (\<lambda>(h', active).
           Inr (h', (if ep_events_size p = length reported
                     then p\<lparr>ep_events_size := 2 * ep_events_size p\<rparr> else p), active))))"

section \<open>PollPoller\<close>

record pollfd =
  pfd_fd :: int
  pfd_events :: "16 word"
  pfd_revents :: "16 word"

record poll_poller =
  pp_channels :: "int \<rightharpoonup> channel_ptr"
  pollfds :: "pollfd list"

definition new_PollPoller :: poll_poller where
  "new_PollPoller = \<lparr>pp_channels = Map.empty, pollfds = []\<rparr>"

definition poll_updateChannel ::
    "channel_ptr \<Rightarrow> heap \<times> poll_poller \<Rightarrow> (heap \<times> poll_poller) result" where
  "poll_updateChannel c s =
     (case s of (h, p) \<Rightarrow>
      rbind (deref h c) (\<lambda>ch.
        if index ch < 0 then
          cpp_assert (pp_channels p (ch_fd ch) = None)
            (let pfd = \<lparr>pfd_fd = ch_fd ch, pfd_events = ucast (events ch), pfd_revents = 0\<rparr>;
                 fds = pollfds p @ [pfd] in
             Inr (set_index c (int (length fds) - 1) h,
               p\<lparr>pollfds := fds, pp_channels := (pp_channels p)(ch_fd ch \<mapsto> c)\<rparr>))
        else
          cpp_assert (pp_channels p (ch_fd ch) \<noteq> None)
          (cpp_assert (pp_channels p (ch_fd ch) = Some c)
          (let idx = index ch in
           cpp_assert (0 \<le> idx \<and> idx < int (length (pollfds p)))
           (let pfd = pollfds p ! nat idx in
            cpp_assert (pfd_fd pfd = ch_fd ch \<or> pfd_fd pfd = - ch_fd ch - 1)
            (let pfd1 = pfd\<lparr>pfd_events := ucast (events ch), pfd_revents := 0\<rparr>;
                 pfd2 = (if isNoneEvents ch then pfd1\<lparr>pfd_fd := - ch_fd ch - 1\<rparr> else pfd1) in
             Inr (h, p\<lparr>pollfds := (pollfds p)[nat idx := pfd2]\<rparr>)))))))"

text \<open>
  \<open>removeChannel\<close> swaps the channel's entry with the last one, gives the channel of the last entry
  its index, and drops the end of the list.
\<close>

definition poll_removeChannel ::
    "channel_ptr \<Rightarrow> heap \<times> poll_poller \<Rightarrow> (heap \<times> poll_poller) result" where
  "poll_removeChannel c s =
     (case s of (h, p) \<Rightarrow>
      rbind (deref h c) (\<lambda>ch.
        cpp_assert (pp_channels p (ch_fd ch) \<noteq> None)
        (cpp_assert (pp_channels p (ch_fd ch) = Some c)
        (cpp_assert (isNoneEvents ch)
        (let idx = index ch in
         if 0 \<le> idx \<and> idx < int (length (pollfds p)) then
           (let pfd = pollfds p ! nat idx in
            cpp_assert (pfd_fd pfd = - ch_fd ch - 1 \<and> scast (pfd_events pfd) = events ch)
            (let m = (pp_channels p)(ch_fd ch := None) in
             if nat idx \<noteq> length (pollfds p) - 1 then
               (let end_fd = pfd_fd (last (pollfds p));
                    channelAtEnd = (if end_fd < 0 then - end_fd - 1 else end_fd) in
                case m channelAtEnd of
                  None \<Rightarrow> Inl DanglingPointer
                | Some e \<Rightarrow> rbind (deref h e) (\<lambda>_.
                    Inr (set_index e idx h,
                      p\<lparr>pp_channels := m,
                        pollfds := butlast ((pollfds p)[nat idx := last (pollfds p),
                                                        length (pollfds p) - 1 := pfd])\<rparr>)))
             else Inr (h, p\<lparr>pp_channels := m, pollfds := butlast (pollfds p)\<rparr>)))
         else Inl OutOfBounds)))))"

fun poll_fill ::
    "(int \<rightharpoonup> channel_ptr) \<Rightarrow> pollfd list \<Rightarrow> int \<Rightarrow> heap \<times> channel_ptr list \<Rightarrow>
     (heap \<times> channel_ptr list) result" where
  "poll_fill m [] numEvents s = Inr s"
| "poll_fill m (pfd # pfds) numEvents (h, active) =
     (if \<not> numEvents > 0 then Inr (h, active)
      else if sint (pfd_revents pfd) > 0 then
        cpp_assert (m (pfd_fd pfd) \<noteq> None)
          (rbind (deref h (the (m (pfd_fd pfd)))) (\<lambda>ch.
            cpp_assert (ch_fd ch = pfd_fd pfd)
              (poll_fill m pfds (numEvents - 1)
                (h(the (m (pfd_fd pfd)) \<mapsto> ch\<lparr>revents := scast (pfd_revents pfd)\<rparr>),
                 active @ [the (m (pfd_fd pfd))]))))
      else poll_fill m pfds numEvents (h, active))"

text \<open>\<open>poll\<close>: poll(2) returns \<open>numEvents\<close> and overwrites every \<open>revents\<close>.\<close>

definition poll_poll ::
    "int \<Rightarrow> 16 word list \<Rightarrow> heap \<times> poll_poller \<Rightarrow> (heap \<times> poll_poller \<times> channel_ptr list) result" where
  "poll_poll numEvents rs s =
     (case s of (h, p) \<Rightarrow>
       (let p' = p\<lparr>pollfds := map2 (\<lambda>pfd r. pfd\<lparr>pfd_revents := r\<rparr>) (pollfds p) rs\<rparr> in
        if numEvents > 0
        then rbind (poll_fill (pp_channels p') (pollfds p') numEvents (h, [])) (\<lambda>(h', active).
          Inr (h', p', active))
        else Inr (h, p', [])))"

section \<open>The poller a loop owns\<close>

datatype poller = Epoll epoll_poller | Poll poll_poller

definition newDefaultPoller :: "bool \<Rightarrow> poller" where
  "newDefaultPoller use_poll = (if use_poll then Poll new_PollPoller else Epoll new_EpollPoller)"

fun Poller_updateChannel :: "channel_ptr \<Rightarrow> heap \<times> poller \<Rightarrow> (heap \<times> poller) result" where
  "Poller_updateChannel c (h, Epoll p) =
     rbind (epoll_updateChannel c (h, p)) (\<lambda>(h', p'). Inr (h', Epoll p'))"
| "Poller_updateChannel c (h, Poll p) =
     rbind (poll_updateChannel c (h, p)) (\<lambda>(h', p'). Inr (h', Poll p'))"

fun Poller_removeChannel :: "channel_ptr \<Rightarrow> heap \<times> poller \<Rightarrow> (heap \<times> poller) result" where
  "Poller_removeChannel c (h, Epoll p) =
     rbind (epoll_removeChannel c (h, p)) (\<lambda>(h', p'). Inr (h', Epoll p'))"
| "Poller_removeChannel c (h, Poll p) =
     rbind (poll_removeChannel c (h, p)) (\<lambda>(h', p'). Inr (h', Poll p'))"

text \<open>What the system call reports, in the form of the poller that made it.\<close>

datatype poll_report =
    Epoll_report "(event_mask \<times> channel_ptr) list"
  | Poll_report int "16 word list"

fun Poller_poll :: "poll_report \<Rightarrow> heap \<times> poller \<Rightarrow> (heap \<times> poller \<times> channel_ptr list) result" where
  "Poller_poll (Epoll_report evs) (h, Epoll p) =
     rbind (epoll_poll evs (h, p)) (\<lambda>(h', p', active). Inr (h', Epoll p', active))"
| "Poller_poll (Poll_report n rs) (h, Poll p) =
     rbind (poll_poll n rs (h, p)) (\<lambda>(h', p', active). Inr (h', Poll p', active))"
| "Poller_poll _ (h, p) = Inr (h, p, [])"

definition store_events :: "channel_ptr \<Rightarrow> event_mask \<Rightarrow> heap \<Rightarrow> heap" where
  "store_events c ev h = (case h c of None \<Rightarrow> h | Some ch \<Rightarrow> h(c \<mapsto> ch\<lparr>events := ev\<rparr>))"

lemma store_events_Some: "h c = Some ch \<Longrightarrow> store_events c ev h = h(c \<mapsto> ch\<lparr>events := ev\<rparr>)"
  by (simp add: store_events_def)

lemma set_index_Some: "h c = Some ch \<Longrightarrow> set_index c i h = h(c \<mapsto> ch\<lparr>index := i\<rparr>)"
  by (simp add: set_index_def)

text \<open>The effect of a report on the channels: each named channel gets its mask.\<close>

definition set_revents :: "event_mask option \<Rightarrow> channel \<Rightarrow> channel" where
  "set_revents r ch = (case r of None \<Rightarrow> ch | Some ev \<Rightarrow> ch\<lparr>revents := ev\<rparr>)"

lemma set_revents_simps [simp]:
  "set_revents None = (\<lambda>ch. ch)"
  "ch_fd (set_revents r ch) = ch_fd ch"
  "ch_loop (set_revents r ch) = ch_loop ch"
  "index (set_revents r ch) = index ch"
  "events (set_revents r ch) = events ch"
  by (simp_all add: set_revents_def fun_eq_iff split: option.split)

definition reported_for :: "(event_mask \<times> channel_ptr) list \<Rightarrow> channel_ptr \<Rightarrow> event_mask option" where
  "reported_for evs = map_of (map (\<lambda>(r, c). (c, r)) evs)"

lemma reported_for_none: "c \<notin> snd ` set evs \<Longrightarrow> reported_for evs c = None"
  by (force simp: reported_for_def map_of_eq_None_iff)

section \<open>The contract of the class Poller\<close>

text \<open>
  \<open>reg\<close> is the descriptor map, \<open>watch\<close> the masks that are really watched (a zero mask is not).
  A channel that was never added carries index \<open>-1\<close>.
\<close>

locale poller_contract =
  fixes ok :: "'s \<Rightarrow> bool"
    and mine :: "channel \<Rightarrow> bool"
    and chan :: "'s \<Rightarrow> heap"
    and reg :: "'s \<Rightarrow> (int \<rightharpoonup> channel_ptr)"
    and watch :: "'s \<Rightarrow> (int \<rightharpoonup> event_mask)"
    and store :: "channel_ptr \<Rightarrow> event_mask \<Rightarrow> 's \<Rightarrow> 's"
    and upd :: "channel_ptr \<Rightarrow> 's \<Rightarrow> 's result"
    and rem :: "channel_ptr \<Rightarrow> 's \<Rightarrow> 's result"
  assumes registered: "ok s \<Longrightarrow> reg s fd = Some c \<Longrightarrow>
      \<exists>ch. chan s c = Some ch \<and> mine ch \<and> ch_fd ch = fd"
    and watched: "ok s \<Longrightarrow> reg s fd = None \<Longrightarrow> watch s fd = None"
    and update_new: "ok s \<Longrightarrow> chan s c = Some ch \<Longrightarrow> mine ch \<Longrightarrow> index ch = -1 \<Longrightarrow>
      reg s (ch_fd ch) = None \<Longrightarrow> ev \<noteq> 0 \<Longrightarrow>
      \<exists>s'. upd c (store c ev s) = Inr s' \<and> ok s' \<and> reg s' = (reg s)(ch_fd ch \<mapsto> c) \<and>
        watch s' = (watch s)(ch_fd ch \<mapsto> ev)"
    and update_none: "ok s \<Longrightarrow> reg s fd = Some c \<Longrightarrow>
      \<exists>s'. upd c (store c 0 s) = Inr s' \<and> ok s' \<and> reg s' = reg s \<and>
        watch s' = (watch s)(fd := None) \<and>
        (\<forall>ch. chan s' c = Some ch \<longrightarrow> events ch = 0)"
    and remove: "ok s \<Longrightarrow> reg s fd = Some c \<Longrightarrow> chan s c = Some ch \<Longrightarrow> events ch = 0 \<Longrightarrow>
      \<exists>s'. rem c s = Inr s' \<and> ok s' \<and> reg s' = (reg s)(fd := None) \<and>
        watch s' = (watch s)(fd := None)"
begin

text \<open>
  The life of a connection's channel: registered by \<open>enableReading\<close>, silenced by
  \<open>disableAll\<close>, then removed. No assertion fails and the poller is as before.
\<close>

lemma life_cycle:
  assumes "ok s" and "chan s c = Some ch" and "mine ch" and "index ch = -1"
    and "reg s (ch_fd ch) = None" and "ev \<noteq> 0"
  shows "\<exists>s1 s2 s3. upd c (store c ev s) = Inr s1 \<and> watch s1 (ch_fd ch) = Some ev \<and>
    upd c (store c 0 s1) = Inr s2 \<and> watch s2 = watch s \<and>
    rem c s2 = Inr s3 \<and> ok s3 \<and> reg s3 = reg s \<and> watch s3 = watch s"
proof -
  let ?fd = "ch_fd ch"
  have w0: "watch s ?fd = None" by (rule watched [OF assms(1,5)])
  obtain s1 where s1: "upd c (store c ev s) = Inr s1" "ok s1" "reg s1 = (reg s)(?fd \<mapsto> c)"
      "watch s1 = (watch s)(?fd \<mapsto> ev)"
    using update_new [OF assms] by blast
  then have r1: "reg s1 ?fd = Some c" by simp
  obtain s2 where s2: "upd c (store c 0 s1) = Inr s2" "ok s2" "reg s2 = reg s1"
      "watch s2 = (watch s1)(?fd := None)" "\<forall>ch. chan s2 c = Some ch \<longrightarrow> events ch = 0"
    using update_none [OF s1(2) r1] by blast
  have r2: "reg s2 ?fd = Some c" using s2(3) r1 by simp
  obtain ch2 where ch2: "chan s2 c = Some ch2" using registered [OF s2(2) r2] by blast
  obtain s3 where s3: "rem c s2 = Inr s3" "ok s3" "reg s3 = (reg s2)(?fd := None)"
      "watch s3 = (watch s2)(?fd := None)"
    using remove [OF s2(2) r2 ch2] s2(5) ch2 by blast
  have "watch s2 = watch s" using s2(4) s1(4) w0 by (simp add: fun_upd_idem)
  moreover have "reg s3 = reg s" using s3(3) s2(3) s1(3) assms(5) by (simp add: fun_upd_idem)
  moreover have "watch s3 = watch s" using s3(4) calculation(1) w0 by (simp add: fun_upd_idem)
  ultimately show ?thesis using s1 s2(1) s3 by auto
qed

lemma silence_and_remove:
  assumes "ok s" and "reg s fd = Some c"
  shows "\<exists>s1 s2. upd c (store c 0 s) = Inr s1 \<and> rem c s1 = Inr s2 \<and> ok s2 \<and>
    reg s2 = (reg s)(fd := None) \<and> watch s2 = (watch s)(fd := None)"
proof -
  obtain s1 where s1: "upd c (store c 0 s) = Inr s1" "ok s1" "reg s1 = reg s"
      "watch s1 = (watch s)(fd := None)" "\<forall>ch. chan s1 c = Some ch \<longrightarrow> events ch = 0"
    using update_none [OF assms] by blast
  then have r1: "reg s1 fd = Some c" using assms(2) by simp
  obtain ch where ch: "chan s1 c = Some ch" using registered [OF s1(2) r1] by blast
  show ?thesis using remove [OF s1(2) r1 ch] s1 ch by fastforce
qed

end

text \<open>A poller that watches a channel again when it asks for events after having asked for none.\<close>

locale resuming_poller = poller_contract +
  assumes update_again: "ok s \<Longrightarrow> reg s fd = Some c \<Longrightarrow> ev \<noteq> 0 \<Longrightarrow>
      \<exists>s'. upd c (store c ev s) = Inr s' \<and> ok s' \<and> reg s' = reg s \<and>
        watch s' = (watch s)(fd \<mapsto> ev)"
begin

lemma pause_and_resume:
  assumes "ok s" and "reg s fd = Some c" and "ev \<noteq> 0"
  shows "\<exists>s1 s2. upd c (store c 0 s) = Inr s1 \<and> watch s1 fd = None \<and>
    upd c (store c ev s1) = Inr s2 \<and> ok s2 \<and> reg s2 = reg s \<and> watch s2 = (watch s)(fd \<mapsto> ev)"
proof -
  obtain s1 where s1: "upd c (store c 0 s) = Inr s1" "ok s1" "reg s1 = reg s"
      "watch s1 = (watch s)(fd := None)"
    using update_none [OF assms(1,2)] by blast
  then obtain s2 where "upd c (store c ev s1) = Inr s2" "ok s2" "reg s2 = reg s1"
      "watch s2 = (watch s1)(fd \<mapsto> ev)"
    using update_again [OF s1(2) _ assms(3), of fd c] assms(2) by auto
  then show ?thesis using s1 by auto
qed

end

end
