(* ===== verification/Poll_Poller.thy ===== *)
theory Poll_Poller
  imports Pollers
begin

text \<open>
  Correctness of \<open>PollPoller\<close>: its array of \<open>pollfd\<close>s and the channels' indices agree under
  insertion, update and the swap of \<open>removeChannel\<close>, and it satisfies the contract of
  \<open>Poller\<close>. It does not resume: a channel that asked for no events stays ignored.
\<close>

section \<open>PollPoller's array\<close>

text \<open>
  Every registered channel owns the array entry at its index: the entry holds its descriptor, or
  the descriptor's complement when it is to be ignored, and its mask cut to a \<open>short\<close>.
\<close>

definition entry_ok :: "pollfd \<Rightarrow> channel \<Rightarrow> bool" where
  "entry_ok e ch \<longleftrightarrow> (pfd_fd e = ch_fd ch \<or> pfd_fd e = - ch_fd ch - 1) \<and>
     pfd_events e = ucast (events ch) \<and> (events ch = 0 \<longrightarrow> pfd_fd e = - ch_fd ch - 1)"

definition poll_ok :: "loop_ptr \<Rightarrow> heap \<times> poll_poller \<Rightarrow> bool" where
  "poll_ok l s \<longleftrightarrow> (case s of (h, p) \<Rightarrow>
     (\<forall>fd c. pp_channels p fd = Some c \<longrightarrow>
       (\<exists>ch. h c = Some ch \<and> ch_loop ch = l \<and> ch_fd ch = fd \<and> 0 \<le> fd \<and> 0 \<le> index ch \<and>
          nat (index ch) < length (pollfds p) \<and> entry_ok (pollfds p ! nat (index ch)) ch)) \<and>
     (\<forall>i < length (pollfds p). \<exists>c ch. h c = Some ch \<and> pp_channels p (ch_fd ch) = Some c \<and>
        index ch = int i))"

definition poll_watch :: "heap \<Rightarrow> poll_poller \<Rightarrow> (int \<rightharpoonup> event_mask)" where
  "poll_watch h p fd =
     (case pp_channels p fd of
        None \<Rightarrow> None
      | Some c \<Rightarrow> (case h c of
          None \<Rightarrow> None
        | Some ch \<Rightarrow>
            if pfd_fd (pollfds p ! nat (index ch)) = fd then Some (events ch) else None))"

lemma poll_okD:
  assumes "poll_ok l (h, p)" and "pp_channels p fd = Some c"
  obtains ch where "h c = Some ch" "ch_loop ch = l" "ch_fd ch = fd" "0 \<le> fd" "0 \<le> index ch"
    "nat (index ch) < length (pollfds p)" "entry_ok (pollfds p ! nat (index ch)) ch"
  using assms by (auto simp: poll_ok_def)

lemma poll_ok_owner:
  assumes "poll_ok l (h, p)" and "i < length (pollfds p)"
  obtains c ch where "h c = Some ch" "pp_channels p (ch_fd ch) = Some c" "index ch = int i"
  using assms unfolding poll_ok_def by (simp only: prod.case) blast

lemma poll_index_inj:
  assumes ok: "poll_ok l (h, p)" and "pp_channels p fd = Some c" "h c = Some ch"
    and "pp_channels p fd' = Some c'" "h c' = Some ch'" and "index ch = index ch'"
  shows "fd = fd'"
proof -
  have a: "ch_fd ch = fd" "0 \<le> fd" "entry_ok (pollfds p ! nat (index ch)) ch"
    using poll_okD [OF ok assms(2)] assms(3) by auto
  have b: "ch_fd ch' = fd'" "0 \<le> fd'" "entry_ok (pollfds p ! nat (index ch')) ch'"
    using poll_okD [OF ok assms(4)] assms(5) by auto
  show ?thesis using a b assms(6) by (auto simp: entry_ok_def)
qed

lemma poll_okI:
  assumes "\<And>fd c. pp_channels p fd = Some c \<Longrightarrow>
      \<exists>ch. h c = Some ch \<and> ch_loop ch = l \<and> ch_fd ch = fd \<and> 0 \<le> fd \<and> 0 \<le> index ch \<and>
        nat (index ch) < length (pollfds p) \<and> entry_ok (pollfds p ! nat (index ch)) ch"
    and "\<And>i. i < length (pollfds p) \<Longrightarrow>
      \<exists>c ch. h c = Some ch \<and> pp_channels p (ch_fd ch) = Some c \<and> index ch = int i"
  shows "poll_ok l (h, p)"
  using assms by (simp add: poll_ok_def)

text \<open>What is watched of a descriptor other than \<open>fd\<close> depends on its channel's mask and its entry only.\<close>

lemma poll_watch_frame:
  assumes ok: "poll_ok l (h, p)" and reg: "\<And>f. f \<noteq> fd \<Longrightarrow> pp_channels p' f = pp_channels p f"
    and same: "\<And>f c ch. f \<noteq> fd \<Longrightarrow> pp_channels p f = Some c \<Longrightarrow> h c = Some ch \<Longrightarrow> nat (index ch) < length (pollfds p) \<Longrightarrow>
      \<exists>ch1. h' c = Some ch1 \<and> events ch1 = events ch \<and> pollfds p' ! nat (index ch1) = pollfds p ! nat (index ch)"
    and own: "poll_watch h' p' fd = x"
  shows "poll_watch h' p' = (poll_watch h p)(fd := x)"
proof
  fix f
  show "poll_watch h' p' f = ((poll_watch h p)(fd := x)) f"
  proof (cases "f = fd \<or> pp_channels p f = None")
    case True
    then show ?thesis using own reg [of f] by (auto simp: poll_watch_def)
  next
    case False
    then obtain c where c: "f \<noteq> fd" "pp_channels p f = Some c" by auto
    obtain ch where ch: "h c = Some ch" "nat (index ch) < length (pollfds p)" using poll_okD [OF ok c(2)] by blast
    obtain ch1 where "h' c = Some ch1" "events ch1 = events ch" "pollfds p' ! nat (index ch1) = pollfds p ! nat (index ch)"
      using same [OF c ch] by blast
    then show ?thesis using c ch reg [OF c(1)] by (simp add: poll_watch_def)
  qed
qed

lemma poll_update_new_ok:
  assumes ok: "poll_ok l (h, p)" and ch: "h c = Some ch" "ch_loop ch = l" "0 \<le> ch_fd ch"
    and fresh: "index ch = -1" "pp_channels p (ch_fd ch) = None" and ev: "ev \<noteq> 0"
  defines "ch' \<equiv> ch\<lparr>events := ev, index := int (length (pollfds p))\<rparr>"
  defines "p' \<equiv> p\<lparr>pollfds := pollfds p @
      [\<lparr>pfd_fd = ch_fd ch, pfd_events = ucast ev, pfd_revents = 0\<rparr>],
      pp_channels := (pp_channels p)(ch_fd ch \<mapsto> c)\<rparr>"
  shows "poll_updateChannel c (store_events c ev h, p) = Inr (h(c \<mapsto> ch'), p')"
    and "poll_ok l (h(c \<mapsto> ch'), p')"
    and "poll_watch (h(c \<mapsto> ch')) p' = (poll_watch h p)(ch_fd ch \<mapsto> ev)"
proof -
  show "poll_updateChannel c (store_events c ev h, p) = Inr (h(c \<mapsto> ch'), p')"
    using ch fresh by (simp add: poll_updateChannel_def store_events_Some set_index_Some Let_def
        ch'_def p'_def)
  have other: "c' \<noteq> c \<and> fd \<noteq> ch_fd ch" if reg0: "pp_channels p fd = Some c'" for fd c'
  proof -
    obtain ch0 where "h c' = Some ch0" "ch_fd ch0 = fd" "0 \<le> index ch0"
      using poll_okD [OF ok reg0] by blast
    then show ?thesis using ch(1) fresh reg0 by auto
  qed
  show "poll_ok l (h(c \<mapsto> ch'), p')"
  proof (rule poll_okI)
    fix fd c'
    assume a: "pp_channels p' fd = Some c'"
    show "\<exists>ch. (h(c \<mapsto> ch')) c' = Some ch \<and> ch_loop ch = l \<and> ch_fd ch = fd \<and> 0 \<le> fd \<and>
        0 \<le> index ch \<and> nat (index ch) < length (pollfds p') \<and>
        entry_ok (pollfds p' ! nat (index ch)) ch"
    proof (cases "fd = ch_fd ch")
      case True
      then show ?thesis using a ch ev by (simp add: p'_def ch'_def entry_ok_def)
    next
      case False
      then have old: "pp_channels p fd = Some c'" using a by (simp add: p'_def)
      obtain ch0 where "h c' = Some ch0" "ch_loop ch0 = l" "ch_fd ch0 = fd" "0 \<le> fd"
          "0 \<le> index ch0" "nat (index ch0) < length (pollfds p)"
          "entry_ok (pollfds p ! nat (index ch0)) ch0"
        using poll_okD [OF ok old] by blast
      then show ?thesis using other [OF old] by (simp add: p'_def nth_append)
    qed
  next
    fix i
    assume i: "i < length (pollfds p')"
    show "\<exists>c' ch0. (h(c \<mapsto> ch')) c' = Some ch0 \<and> pp_channels p' (ch_fd ch0) = Some c' \<and>
        index ch0 = int i"
    proof (cases "i = length (pollfds p)")
      case True
      then show ?thesis by (intro exI [of _ c] exI [of _ ch']) (simp add: p'_def ch'_def)
    next
      case False
      then have "i < length (pollfds p)" using i by (simp add: p'_def)
      then obtain c0 ch0 where o: "h c0 = Some ch0" "pp_channels p (ch_fd ch0) = Some c0"
          "index ch0 = int i"
        using poll_ok_owner [OF ok] by blast
      then show ?thesis using other [OF o(2)]
        by (intro exI [of _ c0] exI [of _ ch0]) (simp add: p'_def)
    qed
  qed
  show "poll_watch (h(c \<mapsto> ch')) p' = (poll_watch h p)(ch_fd ch \<mapsto> ev)"
    by (rule poll_watch_frame [OF ok]) (use other in \<open>auto simp: poll_watch_def p'_def ch'_def nth_append\<close>)
qed

text \<open>Rewriting the entry of a registered channel.\<close>

lemma poll_update_old_ok:
  fixes ev :: event_mask
  assumes ok: "poll_ok l (h, p)" and reg: "pp_channels p fd = Some c" and ch: "h c = Some ch"
  defines "i \<equiv> nat (index ch)"
  defines "e \<equiv> pollfds p ! i"
  defines "fd' \<equiv> (if ev = 0 then - fd - 1 else pfd_fd e)"
  defines "ch' \<equiv> ch\<lparr>events := ev\<rparr>"
  defines "p' \<equiv> p\<lparr>pollfds := (pollfds p)[i := \<lparr>pfd_fd = fd', pfd_events = ucast ev,
      pfd_revents = 0\<rparr>]\<rparr>"
  shows "poll_updateChannel c (store_events c ev h, p) = Inr (h(c \<mapsto> ch'), p')"
    and "poll_ok l (h(c \<mapsto> ch'), p')"
    and "poll_watch (h(c \<mapsto> ch')) p' = (poll_watch h p)(fd :=
      (if ev \<noteq> 0 \<and> pfd_fd e = fd then Some ev else None))"
proof -
  have c: "ch_loop ch = l" "ch_fd ch = fd" "0 \<le> fd" "0 \<le> index ch" "i < length (pollfds p)"
    "entry_ok e ch"
    using poll_okD [OF ok reg] ch by (auto simp: i_def e_def)
  have e: "pfd_fd e = fd \<or> pfd_fd e = - fd - 1" using c by (auto simp: entry_ok_def)
  show "poll_updateChannel c (store_events c ev h, p) = Inr (h(c \<mapsto> ch'), p')"
  proof -
    obtain x y z where xyz: "pollfds p ! nat (index ch) = \<lparr>pfd_fd = x, pfd_events = y, pfd_revents = z\<rparr>"
      by (cases "pollfds p ! nat (index ch)") auto
    have "index ch < int (length (pollfds p))" using c(4,5) by (simp add: i_def)
    then show ?thesis
      using c(2,4) reg ch e xyz by (auto simp: poll_updateChannel_def store_events_Some Let_def
          isNoneEvents_def kNonEvent_def ch'_def p'_def fd'_def e_def i_def)
  qed
  have other: "c' \<noteq> c \<and> nat (index ch0) \<noteq> i"
    if "pp_channels p fd0 = Some c'" "fd0 \<noteq> fd" "h c' = Some ch0" for fd0 c' ch0
  proof -
    have "0 \<le> index ch0" "ch_fd ch0 = fd0" using poll_okD [OF ok that(1)] that(3) by auto
    then show ?thesis
      using poll_index_inj [OF ok that(1,3) reg ch] that(2) c ch that(3)
      by (auto simp: i_def eq_nat_nat_iff)
  qed
  show "poll_ok l (h(c \<mapsto> ch'), p')"
  proof (rule poll_okI)
    fix fd0 c'
    assume a: "pp_channels p' fd0 = Some c'"
    then have old: "pp_channels p fd0 = Some c'" by (simp add: p'_def)
    show "\<exists>ch. (h(c \<mapsto> ch')) c' = Some ch \<and> ch_loop ch = l \<and> ch_fd ch = fd0 \<and> 0 \<le> fd0 \<and>
        0 \<le> index ch \<and> nat (index ch) < length (pollfds p') \<and>
        entry_ok (pollfds p' ! nat (index ch)) ch"
    proof (cases "fd0 = fd")
      case True
      then show ?thesis using old reg c e
        by (auto simp: p'_def ch'_def i_def entry_ok_def fd'_def)
    next
      case False
      obtain ch0 where ch0: "h c' = Some ch0" "ch_loop ch0 = l" "ch_fd ch0 = fd0" "0 \<le> fd0"
          "0 \<le> index ch0" "nat (index ch0) < length (pollfds p)"
          "entry_ok (pollfds p ! nat (index ch0)) ch0"
        using poll_okD [OF ok old] by blast
      then show ?thesis using other [OF old False ch0(1)] by (simp add: p'_def)
    qed
  next
    fix j
    assume "j < length (pollfds p')"
    then have "j < length (pollfds p)" by (simp add: p'_def)
    then obtain c0 ch0 where o: "h c0 = Some ch0" "pp_channels p (ch_fd ch0) = Some c0"
        "index ch0 = int j"
      using poll_ok_owner [OF ok] by blast
    show "\<exists>c' ch0. (h(c \<mapsto> ch')) c' = Some ch0 \<and> pp_channels p' (ch_fd ch0) = Some c' \<and>
        index ch0 = int j"
    proof (cases "c0 = c")
      case True
      then show ?thesis using o ch
        by (intro exI [of _ c] exI [of _ ch']) (simp add: p'_def ch'_def)
    next
      case False
      then show ?thesis using o by (intro exI [of _ c0] exI [of _ ch0]) (simp add: p'_def)
    qed
  qed
  show "poll_watch (h(c \<mapsto> ch')) p' = (poll_watch h p)(fd :=
      (if ev \<noteq> 0 \<and> pfd_fd e = fd then Some ev else None))"
  proof (rule poll_watch_frame [OF ok])
    show "poll_watch (h(c \<mapsto> ch')) p' fd = (if ev \<noteq> 0 \<and> pfd_fd e = fd then Some ev else None)"
      using reg c by (auto simp: poll_watch_def p'_def ch'_def fd'_def i_def)
    show "\<exists>ch1. (h(c \<mapsto> ch')) c0 = Some ch1 \<and> events ch1 = events ch0 \<and>
        pollfds p' ! nat (index ch1) = pollfds p ! nat (index ch0)"
      if "f \<noteq> fd" "pp_channels p f = Some c0" "h c0 = Some ch0" for f c0 ch0
      using other [OF that(2,1,3)] that(3) by (simp add: p'_def)
  qed (simp add: p'_def)
qed

text \<open>Removal: the last entry, and its channel's index, move into the freed place.\<close>

definition drop_entry :: "nat \<Rightarrow> pollfd list \<Rightarrow> pollfd list" where
  "drop_entry i fds = (if i = length fds - 1 then butlast fds else butlast (fds[i := last fds]))"

lemma drop_entry_nth:
  assumes "i < length fds" and "j < length fds - 1"
  shows "drop_entry i fds ! j = (if j = i then last fds else fds ! j)"
    and "length (drop_entry i fds) = length fds - 1"
  using assms by (auto simp: drop_entry_def nth_butlast nth_list_update)

definition reindex :: "nat \<Rightarrow> nat \<Rightarrow> heap \<Rightarrow> channel_ptr \<Rightarrow> heap" where
  "reindex i n h e = (if i = n - 1 then h else set_index e (int i) h)"

lemma poll_remove_step:
  assumes ok: "poll_ok l (h, p)" and reg: "pp_channels p fd = Some c" and ch: "h c = Some ch"
    and none: "events ch = 0"
  defines "i \<equiv> nat (index ch)"
  defines "n \<equiv> length (pollfds p)"
  obtains e che where "pp_channels p (ch_fd che) = Some e" "h e = Some che"
    "index che = int (n - 1)" "i < n"
    "poll_removeChannel c (h, p) = Inr (reindex i n h e,
      p\<lparr>pp_channels := (pp_channels p)(fd := None), pollfds := drop_entry i (pollfds p)\<rparr>)"
proof -
  have c: "ch_fd ch = fd" "0 \<le> fd" "0 \<le> index ch" "i < n" "entry_ok (pollfds p ! i) ch"
    using poll_okD [OF ok reg] ch by (auto simp: i_def n_def)
  have idx: "index ch < int n" "int i = index ch" using c by (simp_all add: i_def)
  have entry: "pfd_fd (pollfds p ! i) = - fd - 1" "scast (pfd_events (pollfds p ! i)) = (0 :: event_mask)"
    using c none by (auto simp: entry_ok_def)
  have "n - 1 < length (pollfds p)" using c(4) by (simp add: n_def)
  then obtain e che where e: "h e = Some che" "pp_channels p (ch_fd che) = Some e"
      "index che = int (n - 1)"
    using poll_ok_owner [OF ok] by blast
  have last_e: "last (pollfds p) = pollfds p ! (n - 1)"
    using c(4) by (cases "pollfds p = []") (auto simp: n_def last_conv_nth)
  have ee: "ch_fd che \<ge> 0" "entry_ok (last (pollfds p)) che"
    using poll_okD [OF ok e(2)] e(1,3) last_e by (auto simp: nat_int)
  have ent: "(if pfd_fd (last (pollfds p)) < 0 then - pfd_fd (last (pollfds p)) - 1
      else pfd_fd (last (pollfds p))) = ch_fd che"
    using ee by (auto simp: entry_ok_def)
  have ne: "ch_fd che \<noteq> fd" if "i \<noteq> n - 1"
  proof
    assume "ch_fd che = fd"
    then have "che = ch" using e reg ch by simp
    then show False using that e(3) by (simp add: i_def)
  qed
  have swap: "butlast ((pollfds p)[i := last (pollfds p), length (pollfds p) - 1 := x]) =
      butlast ((pollfds p)[i := last (pollfds p)])" for x
    by (simp add: butlast_list_update)
  show thesis
  proof (rule that [OF e(2,1,3) c(4)])
    show "poll_removeChannel c (h, p) = Inr (reindex i n h e,
      p\<lparr>pp_channels := (pp_channels p)(fd := None), pollfds := drop_entry i (pollfds p)\<rparr>)"
      using ch reg none c entry idx ne e ent swap
      by (auto simp: poll_removeChannel_def isNoneEvents_def kNonEvent_def Let_def
          reindex_def drop_entry_def i_def [symmetric] n_def [symmetric])
  qed
qed

lemma entry_ok_reindexed [simp]: "entry_ok x (ch\<lparr>index := i\<rparr>) \<longleftrightarrow> entry_ok x ch"
  by (simp add: entry_ok_def)

lemma poll_remove_ok:
  assumes ok: "poll_ok l (h, p)" and reg: "pp_channels p fd = Some c" and ch: "h c = Some ch"
    and none: "events ch = 0"
  shows "\<exists>h' p'. poll_removeChannel c (h, p) = Inr (h', p') \<and> poll_ok l (h', p') \<and>
    pp_channels p' = (pp_channels p)(fd := None) \<and> poll_watch h' p' = (poll_watch h p)(fd := None)"
proof -
  define i where "i = nat (index ch)"
  define n where "n = length (pollfds p)"
  obtain e che where e: "pp_channels p (ch_fd che) = Some e" "h e = Some che"
      "index che = int (n - 1)" "i < n"
    and step: "poll_removeChannel c (h, p) = Inr (reindex i n h e,
      p\<lparr>pp_channels := (pp_channels p)(fd := None), pollfds := drop_entry i (pollfds p)\<rparr>)"
    using poll_remove_step [OF ok reg ch none, folded i_def n_def] by blast
  define h' where "h' = reindex i n h e"
  define p' where "p' = p\<lparr>pp_channels := (pp_channels p)(fd := None),
    pollfds := drop_entry i (pollfds p)\<rparr>"
  have h': "h' c0 = (if i \<noteq> n - 1 \<and> c0 = e then Some (che\<lparr>index := int i\<rparr>) else h c0)" for c0
    using e(2) by (simp add: h'_def reindex_def set_index_Some)
  have c: "ch_fd ch = fd" "0 \<le> index ch" using poll_okD [OF ok reg] ch by auto
  have ic: "nat (index che) = n - 1" using e(3) by (simp only: nat_int)
  have moved: "pollfds p ! (n - 1) = last (pollfds p)"
    using e(4) by (cases "pollfds p = []") (auto simp: n_def last_conv_nth)
  have len: "length (pollfds p') = n - 1"
    using drop_entry_nth(2) [of i "pollfds p" 0] e(4) by (cases "n = 1")
      (auto simp: p'_def n_def drop_entry_def)
  have nth: "pollfds p' ! j = (if j = i then last (pollfds p) else pollfds p ! j)"
    if "j < n - 1" for j
    using drop_entry_nth(1) [of i "pollfds p" j] e(4) that by (simp add: p'_def n_def)
  have away: "nat (index ch0) \<noteq> i \<and> (c' \<noteq> e \<longrightarrow> nat (index ch0) < n - 1)"
    if r: "pp_channels p fd0 = Some c'" "h c' = Some ch0" "fd0 \<noteq> fd" for fd0 c' ch0
  proof -
    have b: "0 \<le> index ch0" "nat (index ch0) < n" using poll_okD [OF ok r(1)] r(2) by (auto simp: n_def)
    have "index ch0 \<noteq> index ch" using poll_index_inj [OF ok r(1,2) reg ch] r(3) by auto
    moreover have "index ch0 \<noteq> index che" if "c' \<noteq> e"
      using poll_index_inj [OF ok r(1,2) e(1,2)] r(1) e(1) that by auto
    ultimately show ?thesis using b c e(3) by (auto simp: i_def)
  qed
  have place: "\<exists>ch1. h' c' = Some ch1 \<and> ch_loop ch1 = ch_loop ch0 \<and> ch_fd ch1 = ch_fd ch0 \<and>
      events ch1 = events ch0 \<and> 0 \<le> index ch1 \<and> nat (index ch1) < n - 1 \<and>
      pollfds p' ! nat (index ch1) = pollfds p ! nat (index ch0)"
    if r: "pp_channels p fd0 = Some c'" "h c' = Some ch0" "fd0 \<noteq> fd" for fd0 c' ch0
  proof -
    have b: "0 \<le> index ch0" "nat (index ch0) < n" using poll_okD [OF ok r(1)] r(2) by (auto simp: n_def)
    show ?thesis
    proof (cases "i \<noteq> n - 1 \<and> c' = e")
      case True
      then have "ch0 = che" "i < n - 1" using r(2) e(2,4) by auto
      then show ?thesis using True h' nth [of i] moved ic by simp
    next
      case False
      then have "nat (index ch0) < n - 1" using away [OF r] b e(2,3) r(2) by (auto simp: i_def)
      moreover have "h' c' = Some ch0" using False h' [of c'] r(2) by (simp only: if_False)
      moreover have "nat (index ch0) \<noteq> i" using away [OF r] by blast
      ultimately show ?thesis using nth b by simp
    qed
  qed
  have "poll_ok l (h', p')"
  proof (rule poll_okI)
    fix fd0 c'
    assume "pp_channels p' fd0 = Some c'"
    then have r: "pp_channels p fd0 = Some c'" "fd0 \<noteq> fd" by (auto simp: p'_def split: if_splits)
    obtain ch0 where ch0: "h c' = Some ch0" "ch_loop ch0 = l" "ch_fd ch0 = fd0" "0 \<le> fd0"
        "entry_ok (pollfds p ! nat (index ch0)) ch0"
      using poll_okD [OF ok r(1)] by blast
    then show "\<exists>ch. h' c' = Some ch \<and> ch_loop ch = l \<and> ch_fd ch = fd0 \<and> 0 \<le> fd0 \<and>
        0 \<le> index ch \<and> nat (index ch) < length (pollfds p') \<and>
        entry_ok (pollfds p' ! nat (index ch)) ch"
      using place [OF r(1) ch0(1) r(2)] len by (auto simp: entry_ok_def)
  next
    fix j
    assume j: "j < length (pollfds p')"
    show "\<exists>c' ch. h' c' = Some ch \<and> pp_channels p' (ch_fd ch) = Some c' \<and> index ch = int j"
    proof (cases "j = i")
      case True
      then have "i \<noteq> n - 1" using j len by simp
      moreover from this have "ch_fd che \<noteq> fd" using e(1-3) reg ch c(2) e(4) by (auto simp: i_def)
      ultimately show ?thesis
        using True h' [of e] e(1) by (intro exI [of _ e] exI [of _ "che\<lparr>index := int i\<rparr>"])
          (simp add: p'_def)
    next
      case False
      have "j < n" using j len by simp
      then obtain c0 ch0 where o: "h c0 = Some ch0" "pp_channels p (ch_fd ch0) = Some c0"
          "index ch0 = int j"
        using poll_ok_owner [OF ok] by (auto simp: n_def)
      have "ch_fd ch0 \<noteq> fd" using o reg ch False by (auto simp: i_def)
      moreover have "\<not> (i \<noteq> n - 1 \<and> c0 = e)" using o e(2,3) j len by auto
      then have "h' c0 = Some ch0" using o(1) h' [of c0] by (simp only: if_False)
      ultimately show ?thesis
        using o by (intro exI [of _ c0] exI [of _ ch0]) (simp add: p'_def)
    qed
  qed
  moreover have "poll_watch h' p' = (poll_watch h p)(fd := None)"
  proof (rule poll_watch_frame [OF ok])
    show "\<exists>ch1. h' c' = Some ch1 \<and> events ch1 = events ch0 \<and> pollfds p' ! nat (index ch1) = pollfds p ! nat (index ch0)"
      if "f \<noteq> fd" "pp_channels p f = Some c'" "h c' = Some ch0" for f c' ch0
      using place [OF that(2,3,1)] by blast
  qed (simp_all add: poll_watch_def p'_def)
  ultimately show ?thesis using step by (auto simp: h'_def p'_def)
qed

definition poll_store :: "channel_ptr \<Rightarrow> event_mask \<Rightarrow> heap \<times> poll_poller \<Rightarrow> heap \<times> poll_poller" where
  "poll_store c ev s = (store_events c ev (fst s), snd s)"

interpretation pp: poller_contract "poll_ok l" "\<lambda>ch. ch_loop ch = l \<and> 0 \<le> ch_fd ch" fst
    "\<lambda>s. pp_channels (snd s)" "\<lambda>s. poll_watch (fst s) (snd s)"
    poll_store poll_updateChannel poll_removeChannel
  for l
proof unfold_locales
  fix s :: "heap \<times> poll_poller" and fd c
  assume "poll_ok l s" "pp_channels (snd s) fd = Some c"
  then show "\<exists>ch. fst s c = Some ch \<and> (ch_loop ch = l \<and> 0 \<le> ch_fd ch) \<and> ch_fd ch = fd"
    using poll_okD [of l "fst s" "snd s" fd c] by fastforce
next
  fix s :: "heap \<times> poll_poller" and fd
  assume "pp_channels (snd s) fd = None"
  then show "poll_watch (fst s) (snd s) fd = None" by (simp add: poll_watch_def)
next
  fix s :: "heap \<times> poll_poller" and c ch and ev :: event_mask
  assume a: "poll_ok l s" "fst s c = Some ch" "ch_loop ch = l \<and> 0 \<le> ch_fd ch" "index ch = -1"
    "pp_channels (snd s) (ch_fd ch) = None" "ev \<noteq> 0"
  show "\<exists>s'. poll_updateChannel c (poll_store c ev s) = Inr s' \<and> poll_ok l s' \<and>
      pp_channels (snd s') = (pp_channels (snd s))(ch_fd ch \<mapsto> c) \<and>
      poll_watch (fst s') (snd s') = (poll_watch (fst s) (snd s))(ch_fd ch \<mapsto> ev)"
    using poll_update_new_ok [of l "fst s" "snd s" c ch ev] a by (simp add: poll_store_def)
next
  fix s :: "heap \<times> poll_poller" and c fd
  assume a: "poll_ok l s" "pp_channels (snd s) fd = Some c"
  then obtain ch where "fst s c = Some ch"
    using poll_okD [of l "fst s" "snd s" fd c] by auto
  then show "\<exists>s'. poll_updateChannel c (poll_store c 0 s) = Inr s' \<and> poll_ok l s' \<and>
      pp_channels (snd s') = pp_channels (snd s) \<and>
      poll_watch (fst s') (snd s') = (poll_watch (fst s) (snd s))(fd := None) \<and>
      (\<forall>ch. fst s' c = Some ch \<longrightarrow> events ch = 0)"
    using poll_update_old_ok [of l "fst s" "snd s" fd c ch 0] a by (simp add: poll_store_def)
next
  fix s :: "heap \<times> poll_poller" and c fd ch
  assume "poll_ok l s" "pp_channels (snd s) fd = Some c" "fst s c = Some ch" "events ch = 0"
  then show "\<exists>s'. poll_removeChannel c s = Inr s' \<and> poll_ok l s' \<and>
      pp_channels (snd s') = (pp_channels (snd s))(fd := None) \<and>
      poll_watch (fst s') (snd s') = (poll_watch (fst s) (snd s))(fd := None)"
    using poll_remove_ok [of l "fst s" "snd s" fd c ch] by auto
qed

section \<open>Properties\<close>

text \<open>Two channels of loop 0, with descriptors 7 and 8, both registered for reading.\<close>

definition two_channels :: "heap \<times> poll_poller" where
  "two_channels =
     ([1 \<mapsto> (new_Channel 0 7)\<lparr>events := 3, index := 0\<rparr>, 2 \<mapsto> (new_Channel 0 8)\<lparr>events := 3, index := 1\<rparr>],
      \<lparr>pp_channels = [7 \<mapsto> 1, 8 \<mapsto> 2],
       pollfds = [\<lparr>pfd_fd = 7, pfd_events = 3, pfd_revents = 0\<rparr>,
                  \<lparr>pfd_fd = 8, pfd_events = 3, pfd_revents = 0\<rparr>]\<rparr>)"

lemma two_channels_ok: "poll_ok 0 two_channels"
proof -
  have "\<exists>c ch. fst two_channels c = Some ch \<and> pp_channels (snd two_channels) (ch_fd ch) = Some c \<and>
      index ch = int i" if "i < 2" for i
    using that by (cases "i = 0")
      (auto simp: two_channels_def new_Channel_def intro!: exI [of _ "Suc i"])
  then show ?thesis
    by (auto simp: poll_ok_def two_channels_def entry_ok_def new_Channel_def split: if_splits)
qed

text \<open>
  C17. A channel of a consistent \<open>PollPoller\<close> can silence itself and be removed, whatever its
  place in the array: no assertion fails, the bookkeeping stays consistent after the swap with
  the last entry, and every other descriptor is watched as before.
\<close>

theorem poll_disable_and_remove:
  assumes "poll_ok l s" and "pp_channels (snd s) fd = Some c"
  shows "\<exists>s1 s2. poll_updateChannel c (poll_store c 0 s) = Inr s1 \<and> poll_removeChannel c s1 = Inr s2 \<and>
    poll_ok l s2 \<and> pp_channels (snd s2) = (pp_channels (snd s))(fd := None) \<and>
    poll_watch (fst s2) (snd s2) = (poll_watch (fst s) (snd s))(fd := None)"
  using pp.silence_and_remove [OF assms] by blast

theorem poll_disable_and_remove_witness:
  "\<exists>s1 s2. poll_updateChannel 1 (poll_store 1 0 two_channels) = Inr s1 \<and>
    poll_removeChannel 1 s1 = Inr s2 \<and> poll_ok 0 s2 \<and>
    pp_channels (snd s2) = (pp_channels (snd two_channels))(7 := None) \<and>
    poll_watch (fst s2) (snd s2) = (poll_watch (fst two_channels) (snd two_channels))(7 := None)"
  by (rule poll_disable_and_remove [OF two_channels_ok]) (simp add: two_channels_def)

text \<open>
  C39. \<open>PollPoller\<close> does not watch a channel again after it asked for no events: the entry keeps
  the complement of the descriptor, which poll(2) ignores, so a later \<open>enable\<close> succeeds, changes the
  channel's mask, and leaves the descriptor unwatched.
\<close>

theorem poll_reenable_ignored:
  assumes ok: "poll_ok l s" and reg: "pp_channels (snd s) fd = Some c" and "ev \<noteq> 0"
  shows "\<exists>s1 s2. poll_updateChannel c (poll_store c 0 s) = Inr s1 \<and>
    poll_updateChannel c (poll_store c ev s1) = Inr s2 \<and> poll_ok l s2 \<and>
    map_option events (fst s2 c) = Some ev \<and>
    poll_watch (fst s2) (snd s2) = (poll_watch (fst s) (snd s))(fd := None)"
proof -
  obtain h p where s: "s = (h, p)" by force
  have ok': "poll_ok l (h, p)" and reg': "pp_channels p fd = Some c" using ok reg s by simp_all
  obtain ch where ch: "h c = Some ch" using poll_okD [OF ok' reg'] by blast
  define ch1 where "ch1 = ch\<lparr>events := 0\<rparr>"
  obtain p1 where p1: "poll_updateChannel c (store_events c 0 h, p) = Inr (h(c \<mapsto> ch1), p1)"
      "poll_ok l (h(c \<mapsto> ch1), p1)" "pp_channels p1 = pp_channels p"
      "poll_watch (h(c \<mapsto> ch1)) p1 = (poll_watch h p)(fd := None)"
    using poll_update_old_ok [OF ok' reg' ch, of 0] unfolding ch1_def by force
  have off: "pfd_fd (pollfds p1 ! nat (index ch1)) \<noteq> fd"
    using fun_cong [OF p1(4), of fd] p1(3) reg' by (auto simp: poll_watch_def split: if_splits)
  have reg1: "pp_channels p1 fd = Some c" using p1(3) reg' by simp
  have ch1: "(h(c \<mapsto> ch1)) c = Some ch1" by simp
  obtain p2 where p2: "poll_updateChannel c (store_events c ev (h(c \<mapsto> ch1)), p1) =
        Inr ((h(c \<mapsto> ch1))(c \<mapsto> ch1\<lparr>events := ev\<rparr>), p2)"
      "poll_ok l ((h(c \<mapsto> ch1))(c \<mapsto> ch1\<lparr>events := ev\<rparr>), p2)"
      "poll_watch ((h(c \<mapsto> ch1))(c \<mapsto> ch1\<lparr>events := ev\<rparr>)) p2 = (poll_watch (h(c \<mapsto> ch1)) p1)(fd := None)"
    by (rule that [OF poll_update_old_ok(1,2) [OF p1(2) reg1 ch1, of ev]])
      (simp only: poll_update_old_ok(3) [OF p1(2) reg1 ch1, of ev] off simp_thms if_False)
  show ?thesis using p1 p2 s by (auto simp: poll_store_def)
qed

theorem poll_reenable_ignored_witness:
  "\<exists>s1 s2. poll_updateChannel 2 (poll_store 2 0 two_channels) = Inr s1 \<and>
    poll_updateChannel 2 (poll_store 2 5 s1) = Inr s2 \<and> poll_ok 0 s2 \<and>
    map_option events (fst s2 2) = Some 5 \<and>
    poll_watch (fst s2) (snd s2) = (poll_watch (fst two_channels) (snd two_channels))(8 := None)"
  by (rule poll_reenable_ignored [OF two_channels_ok]) (simp_all add: two_channels_def)

section \<open>Reported events\<close>

definition poll_reports :: "(int \<rightharpoonup> channel_ptr) \<Rightarrow> pollfd list \<Rightarrow> (event_mask \<times> channel_ptr) list" where
  "poll_reports m es = map (\<lambda>e. (scast (pfd_revents e), the (m (pfd_fd e))))
     (filter (\<lambda>e. 0 < sint (pfd_revents e)) es)"

lemma poll_fill_exact:
  assumes "\<forall>e\<in>set es. 0 < sint (pfd_revents e) \<longrightarrow>
      (\<exists>c ch. m (pfd_fd e) = Some c \<and> h c = Some ch \<and> ch_fd ch = pfd_fd e)"
    and "distinct (map snd (poll_reports m es))"
  shows "poll_fill m es (int (length (poll_reports m es))) (h, active) =
    Inr (\<lambda>c. map_option (set_revents (reported_for (poll_reports m es) c)) (h c),
      active @ map snd (poll_reports m es))"
  using assms
proof (induction es arbitrary: h active)
  case Nil
  then show ?case by (simp add: poll_reports_def reported_for_def option.map_ident)
next
  case (Cons e es)
  show ?case
  proof (cases "0 < sint (pfd_revents e)")
    case False
    then have same: "poll_reports m (e # es) = poll_reports m es" by (simp add: poll_reports_def)
    have "poll_fill m (e # es) (int (length (poll_reports m es))) (h, active) =
        poll_fill m es (int (length (poll_reports m es))) (h, active)"
      using False by (cases es) (simp_all add: poll_reports_def)
    then show ?thesis using same Cons.IH Cons.prems by simp
  next
    case True
    then obtain c ch where c: "m (pfd_fd e) = Some c" "h c = Some ch" "ch_fd ch = pfd_fd e"
      using Cons.prems(1) by auto
    define r :: event_mask where "r = scast (pfd_revents e)"
    have reports: "poll_reports m (e # es) = (r, c) # poll_reports m es"
      using True c by (simp add: poll_reports_def r_def)
    define h1 where "h1 = h(c \<mapsto> ch\<lparr>revents := r\<rparr>)"
    have next_ok: "\<forall>e\<in>set es. 0 < sint (pfd_revents e) \<longrightarrow>
        (\<exists>c ch. m (pfd_fd e) = Some c \<and> h1 c = Some ch \<and> ch_fd ch = pfd_fd e)"
      using Cons.prems(1) c by (fastforce simp: h1_def)
    have "c \<notin> snd ` set (poll_reports m es)" using Cons.prems(2) reports by simp
    then have heap: "map_option (set_revents (reported_for (poll_reports m es) c0)) (h1 c0) =
        map_option (set_revents (reported_for (poll_reports m (e # es)) c0)) (h c0)" for c0
      using c(2) reported_for_none [of c "poll_reports m es"] unfolding reports
      by (simp add: h1_def reported_for_def set_revents_def)
    have dist: "distinct (map snd (poll_reports m es))" using Cons.prems(2) reports by simp
    have "poll_fill m (e # es) (int (length (poll_reports m (e # es)))) (h, active) =
        poll_fill m es (int (length (poll_reports m es))) (h1, active @ [c])"
      using True c by (simp add: reports h1_def r_def)
    also have "\<dots> = Inr (\<lambda>c. map_option (set_revents (reported_for (poll_reports m (e # es)) c)) (h c),
        active @ map snd (poll_reports m (e # es)))"
      using Cons.IH [OF next_ok dist] heap by (simp add: reports)
    finally show ?thesis .
  qed
qed

lemma poll_entry_owner:
  assumes ok: "poll_ok l (h, p)" and i: "i < length (pollfds p)" and fd: "0 \<le> pfd_fd (pollfds p ! i)"
  obtains c ch where "pp_channels p (pfd_fd (pollfds p ! i)) = Some c" "h c = Some ch"
    "ch_fd ch = pfd_fd (pollfds p ! i)" "index ch = int i"
proof -
  obtain c ch where c: "h c = Some ch" "pp_channels p (ch_fd ch) = Some c" "index ch = int i"
    using poll_ok_owner [OF ok i] by blast
  have "0 \<le> ch_fd ch" "entry_ok (pollfds p ! i) ch" using poll_okD [OF ok c(2)] c by auto
  then have "ch_fd ch = pfd_fd (pollfds p ! i)" using fd by (auto simp: entry_ok_def)
  then show thesis using that [of c ch] c by simp
qed

lemma distinct_map_filter_nth:
  "(\<And>i j. i < j \<Longrightarrow> j < length xs \<Longrightarrow> P (xs ! i) \<Longrightarrow> P (xs ! j) \<Longrightarrow> f (xs ! i) \<noteq> f (xs ! j)) \<Longrightarrow>
    distinct (map f (filter P xs))"
proof (induction xs)
  case Nil
  show ?case by simp
next
  case (Cons x xs)
  have "distinct (map f (filter P xs))"
  proof (rule Cons.IH)
    fix i j
    assume "i < j" "j < length xs" "P (xs ! i)" "P (xs ! j)"
    then show "f (xs ! i) \<noteq> f (xs ! j)" using Cons.prems [of "Suc i" "Suc j"] by simp
  qed
  moreover have "f x \<noteq> f y" if y: "P x" "y \<in> set xs" "P y" for y
  proof -
    obtain j where "j < length xs" "xs ! j = y" using y(2) by (auto simp: in_set_conv_nth)
    then show ?thesis using Cons.prems [of 0 "Suc j"] y by simp
  qed
  ultimately show ?case by auto
qed

text \<open>
  When poll(2) fills the array (nothing for the entries it ignores, no negative mask) and
  returns the number of entries with events, \<open>poll\<close> stores each mask in the entry's channel and
  returns these channels in array order. Stopping the scan as soon as \<open>numEvents\<close> entries were
  found misses none, and no assertion fails.
\<close>

lemma poll_poll_exact:
  assumes ok: "poll_ok l (h, p)" and len: "length rs = length (pollfds p)"
    and ignored: "\<forall>i < length rs. pfd_fd (pollfds p ! i) < 0 \<longrightarrow> rs ! i = 0"
  defines "es \<equiv> map2 (\<lambda>e r. e\<lparr>pfd_revents := r\<rparr>) (pollfds p) rs"
  defines "reports \<equiv> poll_reports (pp_channels p) es"
  shows "poll_poll (int (length reports)) rs (h, p) =
    Inr (\<lambda>c. map_option (set_revents (reported_for reports c)) (h c), p\<lparr>pollfds := es\<rparr>, map snd reports)"
proof -
  have nth: "es ! i = (pollfds p ! i)\<lparr>pfd_revents := rs ! i\<rparr>" if "i < length es" for i
    using that len by (simp add: es_def)
  have owner: "\<exists>c ch. pp_channels p (pfd_fd (es ! i)) = Some c \<and> h c = Some ch \<and>
      ch_fd ch = pfd_fd (es ! i) \<and> index ch = int i"
    if i: "i < length es" "0 < sint (pfd_revents (es ! i))" for i
  proof -
    have b: "i < length (pollfds p)" "i < length rs" using i(1) len by (simp_all add: es_def)
    have "rs ! i \<noteq> 0" using i(2) nth [OF i(1)] by auto
    then have "0 \<le> pfd_fd (pollfds p ! i)" using ignored b(2) by fastforce
    then show ?thesis using poll_entry_owner [OF ok b(1)] nth [OF i(1)] by fastforce
  qed
  have "distinct (map (\<lambda>e. the (pp_channels p (pfd_fd e))) (filter (\<lambda>e. 0 < sint (pfd_revents e)) es))"
  proof (rule distinct_map_filter_nth)
    fix i j
    assume a: "i < j" "j < length es" "0 < sint (pfd_revents (es ! i))" "0 < sint (pfd_revents (es ! j))"
    then have "i < length es" by simp
    from owner [OF this a(3)] owner [OF a(2,4)] a(1)
    show "the (pp_channels p (pfd_fd (es ! i))) \<noteq> the (pp_channels p (pfd_fd (es ! j)))" by force
  qed
  then have dist: "distinct (map snd reports)"
    by (simp add: reports_def poll_reports_def comp_def)
  have "\<forall>e\<in>set es. 0 < sint (pfd_revents e) \<longrightarrow>
      (\<exists>c ch. pp_channels p (pfd_fd e) = Some c \<and> h c = Some ch \<and> ch_fd ch = pfd_fd e)"
    using owner by (metis in_set_conv_nth)
  from poll_fill_exact [OF this dist [unfolded reports_def], folded reports_def]
  have fill: "poll_fill (pp_channels p) es (int (length reports)) (h, []) =
      Inr (\<lambda>c. map_option (set_revents (reported_for reports c)) (h c), map snd reports)"
    by simp
  show ?thesis
  proof (cases "reports = []")
    case True
    then show ?thesis
      by (simp add: poll_poll_def es_def [symmetric] reported_for_def option.map_ident)
  next
    case False
    then show ?thesis using fill by (simp add: poll_poll_def es_def [symmetric])
  qed
qed

lemma poll_poll_exact_witness:
  "poll_poll (int (length (poll_reports (pp_channels (snd two_channels))
      (map2 (\<lambda>e r. e\<lparr>pfd_revents := r\<rparr>) (pollfds (snd two_channels)) [0, 1])))) [0, 1] two_channels =
    Inr (\<lambda>c. map_option (set_revents (reported_for [(1, 2)] c)) (fst two_channels c),
      (snd two_channels)\<lparr>pollfds := map2 (\<lambda>e r. e\<lparr>pfd_revents := r\<rparr>) (pollfds (snd two_channels)) [0, 1]\<rparr>,
      [2])"
proof -
  have ok: "poll_ok 0 (fst two_channels, snd two_channels)" using two_channels_ok by simp
  have r: "poll_reports (pp_channels (snd two_channels))
      (map2 (\<lambda>e r. e\<lparr>pfd_revents := r\<rparr>) (pollfds (snd two_channels)) [0, 1]) = [(1, 2)]"
    by (simp add: poll_reports_def two_channels_def)
  have "length [0, 1 :: 16 word] = length (pollfds (snd two_channels))"
    "\<forall>i < length [0, 1 :: 16 word]. pfd_fd (pollfds (snd two_channels) ! i) < 0 \<longrightarrow> [0, 1 :: 16 word] ! i = 0"
    by (auto simp: two_channels_def less_Suc_eq)
  from poll_poll_exact [OF ok this] show ?thesis unfolding r by (simp add: prod.collapse)
qed

end
