(* ===== verification/Epoll_Poller.thy ===== *)
theory Epoll_Poller
  imports Pollers
begin

text \<open>
  Correctness of \<open>EpollPoller\<close>: its descriptor map, the channels' indices and the kernel's
  interest list (the replay of the \<open>epoll_ctl\<close> calls it made) always agree, no call it makes is
  an error for the kernel, and it satisfies the contract of \<open>Poller\<close>, resuming included.
\<close>

section \<open>The kernel's interest list\<close>

definition ctl_step ::
    "ctl_call \<Rightarrow> (int \<rightharpoonup> event_mask \<times> channel_ptr) \<Rightarrow> (int \<rightharpoonup> event_mask \<times> channel_ptr) option" where
  "ctl_step call m =
     (let fd = ctl_fd call; entry = (ctl_events call, ctl_ptr call) in
      case ctl_operation call of
        EPOLL_CTL_ADD \<Rightarrow> if m fd = None then Some (m(fd \<mapsto> entry)) else None
      | EPOLL_CTL_MOD \<Rightarrow> if m fd = None then None else Some (m(fd \<mapsto> entry))
      | EPOLL_CTL_DEL \<Rightarrow> if m fd = None then None else Some (m(fd := None)))"

definition interest :: "ctl_call list \<Rightarrow> (int \<rightharpoonup> event_mask \<times> channel_ptr) option" where
  "interest calls = foldl (\<lambda>m call. Option.bind m (ctl_step call)) (Some Map.empty) calls"

lemma interest_simps [simp]:
  "interest [] = Some Map.empty"
  "interest (calls @ [call]) = Option.bind (interest calls) (ctl_step call)"
  by (simp_all add: interest_def)

text \<open>What the poller's bookkeeping says the kernel watches.\<close>

definition epoll_watch :: "heap \<Rightarrow> epoll_poller \<Rightarrow> (int \<rightharpoonup> event_mask \<times> channel_ptr)" where
  "epoll_watch h p fd =
     (case ep_channels p fd of
        None \<Rightarrow> None
      | Some c \<Rightarrow> (case h c of
          None \<Rightarrow> None
        | Some ch \<Rightarrow> if index ch = kAdded then Some (events ch, c) else None))"

definition epoll_ok :: "loop_ptr \<Rightarrow> heap \<times> epoll_poller \<Rightarrow> bool" where
  "epoll_ok l s \<longleftrightarrow> (case s of (h, p) \<Rightarrow>
     (\<forall>fd c. ep_channels p fd = Some c \<longrightarrow>
       (\<exists>ch. h c = Some ch \<and> ch_loop ch = l \<and> ch_fd ch = fd \<and>
          (index ch = kAdded \<or> index ch = kDeleted))) \<and>
     (\<forall>c ch. h c = Some ch \<longrightarrow> ch_loop ch = l \<longrightarrow>
       index ch = kNew \<or> ep_channels p (ch_fd ch) = Some c) \<and>
     interest (ep_ctl p) = Some (epoll_watch h p))"

lemmas index_values = kNew_def kAdded_def kDeleted_def

lemma epoll_okD:
  assumes "epoll_ok l (h, p)"
  shows "ep_channels p fd = Some c \<Longrightarrow> \<exists>ch. h c = Some ch \<and> ch_loop ch = l \<and> ch_fd ch = fd \<and>
      (index ch = kAdded \<or> index ch = kDeleted)"
    and "h c = Some ch \<Longrightarrow> ch_loop ch = l \<Longrightarrow> index ch = kNew \<or> ep_channels p (ch_fd ch) = Some c"
    and "interest (ep_ctl p) = Some (epoll_watch h p)"
  using assms by (auto simp: epoll_ok_def)

text \<open>
  Writing one registered channel and its descriptor's entry: the invariant needs the kernel's
  list to change at that descriptor only, and consistently.
\<close>

lemma epoll_ok_write:
  assumes ok: "epoll_ok l (h, p)" and ch: "h c = Some ch" "ch_loop ch = l"
    and own: "\<forall>c'. ep_channels p (ch_fd ch) = Some c' \<longrightarrow> c' = c"
    and new: "ch_loop ch' = l" "ch_fd ch' = ch_fd ch"
    and m': "ep_channels p' = (ep_channels p)(ch_fd ch := (if index ch' = kNew then None else Some c))"
    and idx: "index ch' = kNew \<or> index ch' = kAdded \<or> index ch' = kDeleted"
    and kernel: "interest (ep_ctl p') = Some ((epoll_watch h p)(ch_fd ch :=
      (if index ch' = kAdded then Some (events ch', c) else None)))"
  shows "epoll_ok l (h(c \<mapsto> ch'), p')"
    and "epoll_watch (h(c \<mapsto> ch')) p' = (epoll_watch h p)(ch_fd ch :=
      (if index ch' = kAdded then Some (events ch', c) else None))"
proof -
  have other: "c' \<noteq> c" if "ep_channels p fd = Some c'" "fd \<noteq> ch_fd ch" for fd c'
    using epoll_okD(1) [OF ok that(1)] that(2) ch(1) by auto
  show watch: "epoll_watch (h(c \<mapsto> ch')) p' = (epoll_watch h p)(ch_fd ch :=
      (if index ch' = kAdded then Some (events ch', c) else None))"
    using other by (auto simp: epoll_watch_def m' fun_eq_iff index_values split: option.splits)
  have reg: "\<exists>ch0. (h(c \<mapsto> ch')) c' = Some ch0 \<and> ch_loop ch0 = l \<and> ch_fd ch0 = fd \<and>
      (index ch0 = kAdded \<or> index ch0 = kDeleted)" if "ep_channels p' fd = Some c'" for fd c'
  proof (cases "fd = ch_fd ch")
    case True
    then show ?thesis using that m' new idx by (auto split: if_splits)
  next
    case False
    then have "ep_channels p fd = Some c'" using that m' by simp
    then show ?thesis using epoll_okD(1) [OF ok] other [OF _ False] by simp
  qed
  have conv: "index ch0 = kNew \<or> ep_channels p' (ch_fd ch0) = Some c'"
    if "(h(c \<mapsto> ch')) c' = Some ch0" "ch_loop ch0 = l" for c' ch0
  proof (cases "c' = c")
    case True
    then show ?thesis using that m' new by simp
  next
    case False
    then have "index ch0 = kNew \<or> ep_channels p (ch_fd ch0) = Some c'"
      using epoll_okD(2) [OF ok] that by simp
    then show ?thesis using m' own False by auto
  qed
  show "epoll_ok l (h(c \<mapsto> ch'), p')"
    unfolding epoll_ok_def using reg conv kernel watch by simp
qed

text \<open>
  A member such as \<open>enableReading\<close> stores the new mask \<open>ev\<close> in the channel and then calls
  \<open>updateChannel\<close>.
\<close>

lemma epoll_update_ok:
  fixes ev :: event_mask
  assumes ok: "epoll_ok l (h, p)" and ch: "h c = Some ch" "ch_loop ch = l"
    and fresh: "index ch = kNew \<Longrightarrow> ep_channels p (ch_fd ch) = None"
  defines "i \<equiv> (if index ch = kAdded \<and> ev = 0 then kDeleted else kAdded)"
  defines "ch' \<equiv> ch\<lparr>events := ev, index := i\<rparr>"
  shows "\<exists>p'. epoll_updateChannel c (store_events c ev h, p) = Inr (h(c \<mapsto> ch'), p') \<and>
    epoll_ok l (h(c \<mapsto> ch'), p') \<and> ep_channels p' = (ep_channels p)(ch_fd ch \<mapsto> c) \<and>
    epoll_watch (h(c \<mapsto> ch')) p' = (epoll_watch h p)(ch_fd ch :=
      (if i = kAdded then Some (ev, c) else None))"
proof -
  have reg: "ep_channels p (ch_fd ch) = Some c" if "index ch \<noteq> kNew"
    using epoll_okD(2) [OF ok ch] that by simp
  have idx: "index ch = kNew \<or> index ch = kAdded \<or> index ch = kDeleted"
    using epoll_okD(1) [OF ok reg] ch by auto
  have watched: "epoll_watch h p (ch_fd ch) = (if index ch = kAdded then Some (events ch, c) else None)"
    using reg fresh ch(1) by (cases "index ch = kNew") (auto simp: epoll_watch_def index_values)
  define op where "op = (if index ch = kAdded then
    if ev = 0 then EPOLL_CTL_DEL else EPOLL_CTL_MOD else EPOLL_CTL_ADD)"
  define p' where "p' = epoll_update op c (ch\<lparr>events := ev\<rparr>)
    (p\<lparr>ep_channels := (ep_channels p)(ch_fd ch \<mapsto> c)\<rparr>)"
  have same: "p\<lparr>ep_channels := (ep_channels p)(ch_fd ch \<mapsto> c)\<rparr> = p" if "index ch \<noteq> kNew"
    using reg [OF that] by (simp add: map_upd_triv)
  have step: "epoll_updateChannel c (store_events c ev h, p) = Inr (h(c \<mapsto> ch'), p')"
    using idx
  proof (elim disjE)
    assume "index ch = kNew"
    then show ?thesis
      using fresh ch(1) by (simp add: epoll_updateChannel_def store_events_Some set_index_def
          p'_def op_def ch'_def i_def index_values)
  next
    assume "index ch = kDeleted"
    then show ?thesis
      using reg same ch(1) by (simp add: epoll_updateChannel_def store_events_Some set_index_def
          p'_def op_def ch'_def i_def index_values)
  next
    assume a: "index ch = kAdded"
    then have e: "ch\<lparr>events := ev, index := 1\<rparr> = ch\<lparr>events := ev\<rparr>"
      by (cases ch) (simp add: kAdded_def)
    show ?thesis
      using a reg same ch(1) by (simp add: epoll_updateChannel_def store_events_Some set_index_def
          p'_def op_def ch'_def i_def index_values isNoneEvents_def kNonEvent_def e)
  qed
  have kernel: "interest (ep_ctl p') = Some ((epoll_watch h p)(ch_fd ch :=
      (if index ch' = kAdded then Some (events ch', c) else None)))"
    using epoll_okD(3) [OF ok] watched idx
    by (auto simp: p'_def epoll_update_def ctl_step_def op_def ch'_def i_def index_values)
  have m': "ep_channels p' =
      (ep_channels p)(ch_fd ch := (if index ch' = kNew then None else Some c))"
    by (simp add: p'_def epoll_update_def ch'_def i_def index_values)
  have own: "\<forall>c'. ep_channels p (ch_fd ch) = Some c' \<longrightarrow> c' = c"
    using reg fresh by (cases "index ch = kNew") auto
  note w = epoll_ok_write [OF ok ch own _ _ m' _ kernel]
  have "epoll_ok l (h(c \<mapsto> ch'), p')" by (rule w) (simp_all add: ch'_def i_def ch index_values)
  moreover have "epoll_watch (h(c \<mapsto> ch')) p' = (epoll_watch h p)(ch_fd ch :=
      (if index ch' = kAdded then Some (events ch', c) else None))"
    by (rule w) (simp_all add: ch'_def i_def ch index_values)
  moreover have "ep_channels p' = (ep_channels p)(ch_fd ch \<mapsto> c)"
    by (simp add: p'_def epoll_update_def)
  ultimately show ?thesis using step by (simp add: ch'_def)
qed

lemma epoll_remove_ok:
  assumes ok: "epoll_ok l (h, p)" and ch: "h c = Some ch" "ch_loop ch = l"
    and reg: "ep_channels p (ch_fd ch) = Some c" and none: "events ch = 0"
  defines "ch' \<equiv> ch\<lparr>index := kNew\<rparr>"
  shows "\<exists>p'. epoll_removeChannel c (h, p) = Inr (h(c \<mapsto> ch'), p') \<and>
    epoll_ok l (h(c \<mapsto> ch'), p') \<and> ep_channels p' = (ep_channels p)(ch_fd ch := None) \<and>
    epoll_watch (h(c \<mapsto> ch')) p' = (epoll_watch h p)(ch_fd ch := None)"
proof -
  have idx: "index ch = kAdded \<or> index ch = kDeleted"
    using epoll_okD(1) [OF ok reg] ch by auto
  have watched: "epoll_watch h p (ch_fd ch) = (if index ch = kAdded then Some (events ch, c) else None)"
    using reg ch(1) by (simp add: epoll_watch_def)
  define p1 where "p1 = (if index ch = kAdded then epoll_update EPOLL_CTL_DEL c ch p else p)"
  define p' where "p' = p1\<lparr>ep_channels := (ep_channels p)(ch_fd ch := None)\<rparr>"
  have "ep_channels p1 = ep_channels p" by (simp add: p1_def epoll_update_def)
  then have step: "epoll_removeChannel c (h, p) = Inr (h(c \<mapsto> ch'), p')"
    using ch(1) reg none idx
    by (simp add: epoll_removeChannel_def isNoneEvents_def kNonEvent_def Let_def p'_def
        p1_def [symmetric] set_index_Some ch'_def)
  have kernel: "interest (ep_ctl p') = Some ((epoll_watch h p)(ch_fd ch :=
      (if index ch' = kAdded then Some (events ch', c) else None)))"
    using epoll_okD(3) [OF ok] watched idx
    by (auto simp: p'_def p1_def epoll_update_def ctl_step_def ch'_def index_values)
  have m': "ep_channels p' =
      (ep_channels p)(ch_fd ch := (if index ch' = kNew then None else Some c))"
    by (simp add: p'_def ch'_def)
  have own: "\<forall>c'. ep_channels p (ch_fd ch) = Some c' \<longrightarrow> c' = c" using reg by auto
  note w = epoll_ok_write [OF ok ch own _ _ m' _ kernel]
  have "epoll_ok l (h(c \<mapsto> ch'), p')" by (rule w) (simp_all add: ch'_def ch)
  moreover have "epoll_watch (h(c \<mapsto> ch')) p' = (epoll_watch h p)(ch_fd ch := None)"
    using w(2) by (simp add: ch'_def ch index_values)
  ultimately show ?thesis using step by (simp add: p'_def)
qed

definition nonzero_watch :: "(int \<rightharpoonup> event_mask \<times> channel_ptr) \<Rightarrow> (int \<rightharpoonup> event_mask)" where
  "nonzero_watch m fd =
     (case m fd of None \<Rightarrow> None | Some (ev, c) \<Rightarrow> if ev = 0 then None else Some ev)"

lemma nonzero_watch_upd [simp]:
  "nonzero_watch (m(fd := None)) = (nonzero_watch m)(fd := None)"
  "nonzero_watch (m(fd \<mapsto> (ev, c))) = (nonzero_watch m)(fd := (if ev = 0 then None else Some ev))"
  by (auto simp: nonzero_watch_def)

definition epoll_store :: "channel_ptr \<Rightarrow> event_mask \<Rightarrow> heap \<times> epoll_poller \<Rightarrow> heap \<times> epoll_poller" where
  "epoll_store c ev s = (store_events c ev (fst s), snd s)"

interpretation ep: resuming_poller "epoll_ok l" "\<lambda>ch. ch_loop ch = l" fst
    "\<lambda>s. ep_channels (snd s)" "\<lambda>s. nonzero_watch (epoll_watch (fst s) (snd s))"
    epoll_store epoll_updateChannel epoll_removeChannel
  for l
proof unfold_locales
  fix s :: "heap \<times> epoll_poller" and fd c
  assume "epoll_ok l s" "ep_channels (snd s) fd = Some c"
  then show "\<exists>ch. fst s c = Some ch \<and> ch_loop ch = l \<and> ch_fd ch = fd"
    using epoll_okD(1) [of l "fst s" "snd s"] by fastforce
next
  fix s :: "heap \<times> epoll_poller" and fd
  assume "ep_channels (snd s) fd = None"
  then show "nonzero_watch (epoll_watch (fst s) (snd s)) fd = None"
    by (simp add: nonzero_watch_def epoll_watch_def)
next
  fix s :: "heap \<times> epoll_poller" and c ch and ev :: event_mask
  assume a: "epoll_ok l s" "fst s c = Some ch" "ch_loop ch = l" "index ch = -1"
    "ep_channels (snd s) (ch_fd ch) = None" "ev \<noteq> 0"
  show "\<exists>s'. epoll_updateChannel c (epoll_store c ev s) = Inr s' \<and> epoll_ok l s' \<and>
      ep_channels (snd s') = (ep_channels (snd s))(ch_fd ch \<mapsto> c) \<and>
      nonzero_watch (epoll_watch (fst s') (snd s')) =
        (nonzero_watch (epoll_watch (fst s) (snd s)))(ch_fd ch \<mapsto> ev)"
    using epoll_update_ok [of l "fst s" "snd s" c ch ev] a
    by (auto simp: epoll_store_def index_values)
next
  fix s :: "heap \<times> epoll_poller" and c fd
  assume a: "epoll_ok l s" "ep_channels (snd s) fd = Some c"
  then obtain ch where "fst s c = Some ch" "ch_loop ch = l" "ch_fd ch = fd" "index ch \<noteq> kNew"
    using epoll_okD(1) [of l "fst s" "snd s" fd c] by (auto simp: index_values)
  then show "\<exists>s'. epoll_updateChannel c (epoll_store c 0 s) = Inr s' \<and> epoll_ok l s' \<and>
      ep_channels (snd s') = ep_channels (snd s) \<and>
      nonzero_watch (epoll_watch (fst s') (snd s')) =
        (nonzero_watch (epoll_watch (fst s) (snd s)))(fd := None) \<and>
      (\<forall>ch. fst s' c = Some ch \<longrightarrow> events ch = 0)"
    using epoll_update_ok [of l "fst s" "snd s" c ch 0] a
    by (auto simp: epoll_store_def index_values map_upd_triv)
next
  fix s :: "heap \<times> epoll_poller" and c fd ch
  assume a: "epoll_ok l s" "ep_channels (snd s) fd = Some c" "fst s c = Some ch" "events ch = 0"
  then have "ch_loop ch = l" "ch_fd ch = fd"
    using epoll_okD(1) [of l "fst s" "snd s" fd c] by auto
  then show "\<exists>s'. epoll_removeChannel c s = Inr s' \<and> epoll_ok l s' \<and>
      ep_channels (snd s') = (ep_channels (snd s))(fd := None) \<and>
      nonzero_watch (epoll_watch (fst s') (snd s')) =
        (nonzero_watch (epoll_watch (fst s) (snd s)))(fd := None)"
    using epoll_remove_ok [of l "fst s" "snd s" c ch] a by auto
next
  fix s :: "heap \<times> epoll_poller" and c fd and ev :: event_mask
  assume a: "epoll_ok l s" "ep_channels (snd s) fd = Some c" "ev \<noteq> 0"
  then obtain ch where "fst s c = Some ch" "ch_loop ch = l" "ch_fd ch = fd" "index ch \<noteq> kNew"
    using epoll_okD(1) [of l "fst s" "snd s" fd c] by (auto simp: index_values)
  then show "\<exists>s'. epoll_updateChannel c (epoll_store c ev s) = Inr s' \<and> epoll_ok l s' \<and>
      ep_channels (snd s') = ep_channels (snd s) \<and>
      nonzero_watch (epoll_watch (fst s') (snd s')) =
        (nonzero_watch (epoll_watch (fst s) (snd s)))(fd \<mapsto> ev)"
    using epoll_update_ok [of l "fst s" "snd s" c ch ev] a
    by (auto simp: epoll_store_def index_values map_upd_triv)
qed


section \<open>Any sequence of requests\<close>

text \<open>
  What a channel's owner asks of the poller: to watch a mask (any of the \<open>enable\<close> and
  \<open>disable\<close> members, which store the mask and call \<open>updateChannel\<close>), or to forget the channel
  (\<open>disableAll\<close> and then \<open>remove\<close>).
\<close>

datatype request = Watch channel_ptr event_mask | Forget channel_ptr

fun request_channel :: "request \<Rightarrow> channel_ptr" where
  "request_channel (Watch c ev) = c"
| "request_channel (Forget c) = c"

fun epoll_request :: "request \<Rightarrow> heap \<times> epoll_poller \<Rightarrow> (heap \<times> epoll_poller) result" where
  "epoll_request (Watch c ev) s = epoll_updateChannel c (epoll_store c ev s)"
| "epoll_request (Forget c) s =
     rbind (epoll_updateChannel c (epoll_store c 0 s)) (epoll_removeChannel c)"

fun request_spec :: "(channel_ptr \<Rightarrow> int) \<Rightarrow> request \<Rightarrow> (int \<rightharpoonup> event_mask) \<Rightarrow> (int \<rightharpoonup> event_mask)" where
  "request_spec fd_of (Watch c ev) m = m(fd_of c := (if ev = 0 then None else Some ev))"
| "request_spec fd_of (Forget c) m = m(fd_of c := None)"

definition own_fds :: "loop_ptr \<Rightarrow> (channel_ptr \<Rightarrow> int) \<Rightarrow> heap \<Rightarrow> bool" where
  "own_fds l fd_of h \<longleftrightarrow>
     (\<forall>c ch. h c = Some ch \<longrightarrow> ch_loop ch = l \<longrightarrow> ch_fd ch = fd_of c) \<and>
     (\<forall>c c' ch ch'. h c = Some ch \<longrightarrow> h c' = Some ch' \<longrightarrow> ch_loop ch = l \<longrightarrow> ch_loop ch' = l \<longrightarrow>
       fd_of c = fd_of c' \<longrightarrow> c = c')"

lemma own_fds_write:
  "own_fds l fd_of h \<Longrightarrow> h c = Some ch \<Longrightarrow> ch_loop ch = l \<Longrightarrow> ch_loop ch' = l \<Longrightarrow>
    ch_fd ch' = ch_fd ch \<Longrightarrow> own_fds l fd_of (h(c \<mapsto> ch'))"
  unfolding own_fds_def by (metis fun_upd_apply option.inject)

lemma epoll_fresh:
  assumes "epoll_ok l (h, p)" and "own_fds l fd_of h" and "h c = Some ch" and "ch_loop ch = l"
    and "index ch = kNew"
  shows "ep_channels p (ch_fd ch) = None"
proof (rule ccontr)
  assume "ep_channels p (ch_fd ch) \<noteq> None"
  then obtain c' where "ep_channels p (ch_fd ch) = Some c'" by auto
  then obtain ch' where ch': "h c' = Some ch'" "ch_loop ch' = l" "ch_fd ch' = ch_fd ch"
      "index ch' \<noteq> kNew"
    using epoll_okD(1) [OF assms(1)] by (fastforce simp: index_values)
  then have "c' = c" using assms(2-4) unfolding own_fds_def by metis
  then show False using ch' assms(3,5) by simp
qed

lemma epoll_request_step:
  assumes ok: "epoll_ok l (h, p)" and own: "own_fds l fd_of h"
    and ch: "h (request_channel r) = Some ch" "ch_loop ch = l"
  shows "\<exists>ch' p'. epoll_request r (h, p) = Inr (h(request_channel r \<mapsto> ch'), p') \<and>
    ch_loop ch' = l \<and> ch_fd ch' = ch_fd ch \<and> epoll_ok l (h(request_channel r \<mapsto> ch'), p') \<and>
    nonzero_watch (epoll_watch (h(request_channel r \<mapsto> ch')) p') =
      request_spec fd_of r (nonzero_watch (epoll_watch h p))"
proof -
  have fd: "fd_of (request_channel r) = ch_fd ch" using own ch unfolding own_fds_def by metis
  note fresh = epoll_fresh [OF ok own ch]
  show ?thesis
  proof (cases r)
    case (Watch c ev)
    define i where "i = (if index ch = kAdded \<and> ev = 0 then kDeleted else kAdded)"
    obtain p' where "epoll_updateChannel c (store_events c ev h, p) =
        Inr (h(c \<mapsto> ch\<lparr>events := ev, index := i\<rparr>), p')"
      "epoll_ok l (h(c \<mapsto> ch\<lparr>events := ev, index := i\<rparr>), p')"
      "epoll_watch (h(c \<mapsto> ch\<lparr>events := ev, index := i\<rparr>)) p' = (epoll_watch h p)(ch_fd ch :=
        (if i = kAdded then Some (ev, c) else None))"
      using epoll_update_ok [OF ok, of c ch ev, folded i_def] ch fresh Watch by auto
    then show ?thesis using Watch fd ch
      by (intro exI [of _ "ch\<lparr>events := ev, index := i\<rparr>"] exI [of _ p'])
        (auto simp: epoll_store_def i_def index_values)
  next
    case (Forget c)
    define i where "i = (if index ch = kAdded then kDeleted else kAdded)"
    define ch1 where "ch1 = ch\<lparr>events := 0, index := i\<rparr>"
    obtain p1 where p1: "epoll_updateChannel c (store_events c 0 h, p) = Inr (h(c \<mapsto> ch1), p1)"
      "epoll_ok l (h(c \<mapsto> ch1), p1)" "ep_channels p1 = (ep_channels p)(ch_fd ch \<mapsto> c)"
      "epoll_watch (h(c \<mapsto> ch1)) p1 = (epoll_watch h p)(ch_fd ch :=
        (if i = kAdded then Some (0, c) else None))"
      using epoll_update_ok [OF ok, of c ch 0] ch fresh Forget by (auto simp: i_def ch1_def)
    define ch2 where "ch2 = ch1\<lparr>index := kNew\<rparr>"
    have h2: "(h(c \<mapsto> ch1))(c \<mapsto> ch2) = h(c \<mapsto> ch2)" by simp
    obtain p2 where p2: "epoll_removeChannel c (h(c \<mapsto> ch1), p1) = Inr (h(c \<mapsto> ch2), p2)"
      "epoll_ok l (h(c \<mapsto> ch2), p2)"
      "epoll_watch (h(c \<mapsto> ch2)) p2 = (epoll_watch (h(c \<mapsto> ch1)) p1)(ch_fd ch := None)"
      using epoll_remove_ok [OF p1(2), of c ch1] p1(3) ch(2)
      unfolding ch2_def [symmetric] h2 by (auto simp: ch1_def)
    show ?thesis using p1 p2 Forget fd ch
      by (intro exI [of _ ch2] exI [of _ p2])
        (auto simp: epoll_store_def ch1_def ch2_def split: if_splits)
  qed
qed

lemma epoll_requests_run:
  assumes "epoll_ok l (h, p)" and "own_fds l fd_of h"
    and "\<forall>r\<in>set reqs. \<exists>ch. h (request_channel r) = Some ch \<and> ch_loop ch = l"
  shows "\<exists>h' p'. rfold epoll_request reqs (h, p) = Inr (h', p') \<and> epoll_ok l (h', p') \<and>
    nonzero_watch (epoll_watch h' p') =
      fold (request_spec fd_of) reqs (nonzero_watch (epoll_watch h p))"
  using assms
proof (induction reqs arbitrary: h p)
  case Nil
  then show ?case by simp
next
  case (Cons r reqs)
  obtain ch where ch: "h (request_channel r) = Some ch" "ch_loop ch = l" using Cons.prems(3) by auto
  obtain ch' p' where s: "epoll_request r (h, p) = Inr (h(request_channel r \<mapsto> ch'), p')"
      "ch_loop ch' = l" "ch_fd ch' = ch_fd ch" "epoll_ok l (h(request_channel r \<mapsto> ch'), p')"
      "nonzero_watch (epoll_watch (h(request_channel r \<mapsto> ch')) p') =
        request_spec fd_of r (nonzero_watch (epoll_watch h p))"
    using epoll_request_step [OF Cons.prems(1,2) ch] by blast
  have "\<forall>q\<in>set reqs. \<exists>ch0. (h(request_channel r \<mapsto> ch')) (request_channel q) = Some ch0 \<and> ch_loop ch0 = l"
    using Cons.prems(3) s(2) by simp
  from Cons.IH [OF s(4) own_fds_write [OF Cons.prems(2) ch s(2,3)] this]
  show ?case by (simp only: rfold.simps s(1,5) rbind_simps set_simps fold_simps)
qed

text \<open>The kernel's list, as masks by descriptor: the replay of the \<open>epoll_ctl\<close> calls.\<close>

definition kernel_watch :: "epoll_poller \<Rightarrow> (int \<rightharpoonup> event_mask) option" where
  "kernel_watch p = map_option nonzero_watch (interest (ep_ctl p))"

text \<open>
  C13. Any sequence of requests on channels with descriptors of their own, starting from a fresh
  poller and channels never added, fails no assertion and makes no \<open>epoll_ctl\<close> call that the
  kernel rejects (an \<open>ADD\<close> of a descriptor it has, a \<open>MOD\<close> or \<open>DEL\<close> of one it has not). At the
  end the kernel watches, for each descriptor, exactly the mask that was last asked for it.
\<close>

theorem epoll_requests_served:
  assumes "\<forall>c ch. h c = Some ch \<longrightarrow> ch_loop ch = l \<longrightarrow> index ch = -1"
    and "own_fds l fd_of h"
    and "\<forall>r\<in>set reqs. \<exists>ch. h (request_channel r) = Some ch \<and> ch_loop ch = l"
  shows "\<exists>h' p'. rfold epoll_request reqs (h, new_EpollPoller) = Inr (h', p') \<and>
    kernel_watch p' = Some (fold (request_spec fd_of) reqs Map.empty)"
proof -
  have ok: "epoll_ok l (h, new_EpollPoller)"
    using assms(1) by (auto simp: epoll_ok_def new_EpollPoller_def epoll_watch_def index_values)
  have "nonzero_watch (epoll_watch h new_EpollPoller) = Map.empty"
    by (auto simp: nonzero_watch_def epoll_watch_def new_EpollPoller_def)
  then show ?thesis
    using epoll_requests_run [OF ok assms(2,3)] epoll_okD(3) [of l] by (fastforce simp: kernel_watch_def)
qed

theorem epoll_requests_served_witness:
  "\<exists>h' p'. rfold epoll_request [Watch 1 0x3, Watch 2 0x4, Forget 1, Watch 2 0]
      ([1 \<mapsto> new_Channel 0 7, 2 \<mapsto> new_Channel 0 8], new_EpollPoller) = Inr (h', p') \<and>
    kernel_watch p' =
      Some (fold (request_spec (\<lambda>c. int c + 6)) [Watch 1 0x3, Watch 2 0x4, Forget 1, Watch 2 0] Map.empty)"
  by (rule epoll_requests_served [where l = 0])
    (auto simp: own_fds_def new_Channel_def split: if_splits)

text \<open>A channel with events, registered.\<close>

definition one_channel :: "heap \<times> epoll_poller" where
  "one_channel = ([1 \<mapsto> (new_Channel 0 7)\<lparr>events := 3, index := 1\<rparr>],
     \<lparr>ep_channels = [7 \<mapsto> 1], ep_events_size = 16,
      ep_ctl = [\<lparr>ctl_operation = EPOLL_CTL_ADD, ctl_fd = 7, ctl_events = 3, ctl_ptr = 1\<rparr>]\<rparr>)"

lemma one_channel_ok:
  "interest (ep_ctl (snd one_channel)) = Some (epoll_watch (fst one_channel) (snd one_channel))"
  "epoll_ok 0 one_channel"
proof -
  show kernel: "interest (ep_ctl (snd one_channel)) =
      Some (epoll_watch (fst one_channel) (snd one_channel))"
    by (auto simp: one_channel_def interest_def ctl_step_def epoll_watch_def new_Channel_def index_values
        fun_eq_iff)
  then show "epoll_ok 0 one_channel"
    by (auto simp: epoll_ok_def one_channel_def new_Channel_def index_values split: if_splits)
qed

section \<open>Reported events\<close>

lemma epoll_fill_exact:
  assumes "\<forall>(r, c)\<in>set evs. \<exists>ch. h c = Some ch \<and> m (ch_fd ch) = Some c"
    and "distinct (map snd evs)"
  shows "epoll_fill m evs (h, active) =
    Inr (\<lambda>c. map_option (set_revents (reported_for evs c)) (h c), active @ map snd evs)"
  using assms
proof (induction evs arbitrary: h active)
  case Nil
  then show ?case by (simp add: reported_for_def option.map_ident)
next
  case (Cons rc evs)
  obtain r c where rc: "rc = (r, c)" by force
  obtain ch where ch: "h c = Some ch" "m (ch_fd ch) = Some c" using Cons.prems(1) rc by auto
  define h1 where "h1 = h(c \<mapsto> ch\<lparr>revents := r\<rparr>)"
  have next_ok: "\<forall>(r, c)\<in>set evs. \<exists>ch. h1 c = Some ch \<and> m (ch_fd ch) = Some c"
    using Cons.prems rc by (auto simp: h1_def image_iff)
  have "c \<notin> snd ` set evs" using Cons.prems(2) rc by simp
  then have "map_option (set_revents (reported_for evs c0)) (h1 c0) =
      map_option (set_revents (reported_for (rc # evs) c0)) (h c0)" for c0
    using ch(1) reported_for_none [of c evs]
    by (simp add: h1_def rc reported_for_def set_revents_def)
  then show ?case
    using Cons.IH [OF next_ok] Cons.prems(2) ch rc by (simp add: h1_def [symmetric])
qed

text \<open>
  C32. When \<open>epoll_wait\<close> reports events of descriptors in the kernel's list, each once and at most
  as many as the buffer holds, \<open>poll\<close> stores each mask in its channel, returns the channels in the
  order of the report, leaves everything else as it is, and doubles the buffer exactly when it was
  full.
\<close>

theorem epoll_poll_exact:
  assumes ok: "epoll_ok l (h, p)" and some: "reported \<noteq> []" "length reported \<le> ep_events_size p"
    and kernel: "interest (ep_ctl p) = Some m"
      "\<forall>(r, c)\<in>set reported. \<exists>fd ev. m fd = Some (ev, c)" "distinct (map snd reported)"
  shows "\<exists>h' p'. epoll_poll reported (h, p) = Inr (h', p', map snd reported) \<and> epoll_ok l (h', p') \<and>
    h' = (\<lambda>c. map_option (set_revents (reported_for reported c)) (h c)) \<and>
    ep_channels p' = ep_channels p \<and> ep_ctl p' = ep_ctl p \<and>
    ep_events_size p' =
      (if length reported = ep_events_size p then 2 * ep_events_size p else ep_events_size p)"
proof -
  have m: "m = epoll_watch h p" using epoll_okD(3) [OF ok] kernel(1) by simp
  have "\<exists>ch. h c = Some ch \<and> ep_channels p (ch_fd ch) = Some c" if rc: "(r, c) \<in> set reported" for r c
  proof -
    obtain fd ev where "m fd = Some (ev, c)" using bspec [OF kernel(2) rc] by auto
    then have "ep_channels p fd = Some c" using m
      by (auto simp: epoll_watch_def split: option.splits if_splits)
    then show ?thesis using epoll_okD(1) [OF ok] by force
  qed
  then have fill: "epoll_fill (ep_channels p) reported (h, []) =
      Inr (\<lambda>c. map_option (set_revents (reported_for reported c)) (h c), map snd reported)"
    using epoll_fill_exact [OF _ kernel(3), of h "ep_channels p" "[]"] by auto
  define h' where "h' = (\<lambda>c. map_option (set_revents (reported_for reported c)) (h c))"
  define p' where "p' = (if ep_events_size p = length reported
    then p\<lparr>ep_events_size := 2 * ep_events_size p\<rparr> else p)"
  have same: "ep_channels p' = ep_channels p" "ep_ctl p' = ep_ctl p" by (simp_all add: p'_def)
  have "epoll_watch h' p' = epoll_watch h p"
    by (auto simp: fun_eq_iff epoll_watch_def same h'_def split: option.splits)
  then have "epoll_ok l (h', p')"
    using ok by (force simp: epoll_ok_def same h'_def)
  moreover have "epoll_poll reported (h, p) = Inr (h', p', map snd reported)"
    using some fill by (simp add: epoll_poll_def h'_def p'_def)
  ultimately show ?thesis using same by (auto simp: h'_def p'_def)
qed

theorem epoll_poll_exact_witness:
  "\<exists>h' p'. epoll_poll [(0x11, 1)] one_channel = Inr (h', p', map snd [(0x11, 1)]) \<and>
    epoll_ok 0 (h', p') \<and>
    h' = (\<lambda>c. map_option (set_revents (reported_for [(0x11, 1)] c)) (fst one_channel c)) \<and>
    ep_channels p' = ep_channels (snd one_channel) \<and> ep_ctl p' = ep_ctl (snd one_channel) \<and>
    ep_events_size p' =
      (if length [(0x11 :: event_mask, 1 :: channel_ptr)] = ep_events_size (snd one_channel)
       then 2 * ep_events_size (snd one_channel) else ep_events_size (snd one_channel))"
proof -
  have "\<forall>(r, c)\<in>set [(0x11 :: event_mask, 1 :: channel_ptr)]. \<exists>fd ev.
      epoll_watch (fst one_channel) (snd one_channel) fd = Some (ev, c)"
    by (auto simp: epoll_watch_def one_channel_def new_Channel_def index_values intro!: exI [of _ 7])
  then show ?thesis
    using epoll_poll_exact [of 0 "fst one_channel" "snd one_channel" "[(0x11, 1)]"] one_channel_ok
    by (simp add: one_channel_def)
qed

end
