(* ===== verification/Ordered_Sets.thy ===== *)
theory Ordered_Sets
  imports Muduo_Prelude "HOL-Library.Product_Lexorder"
begin

text \<open>
  \<open>std::set\<close> as the code uses it: a strictly ascending list, with the operations that
  \<open>TimerQueue\<close> calls, and what they promise. Pairs are ordered as \<open>std::pair\<close> is,
  lexicographically.
\<close>

definition set_insert :: "'e :: linorder \<Rightarrow> 'e list \<Rightarrow> 'e list" where
  "set_insert x xs = insort_insert x xs"

definition set_erase :: "'e :: linorder \<Rightarrow> 'e list \<Rightarrow> 'e list" where
  "set_erase x xs = remove1 x xs"

text \<open>The ranges \<open>[begin, lower_bound x)\<close> and \<open>[lower_bound x, end)\<close>.\<close>

definition set_below :: "'e :: linorder \<Rightarrow> 'e list \<Rightarrow> 'e list" where
  "set_below x xs = takeWhile (\<lambda>y. y < x) xs"

definition set_from :: "'e :: linorder \<Rightarrow> 'e list \<Rightarrow> 'e list" where
  "set_from x xs = dropWhile (\<lambda>y. y < x) xs"

section \<open>The contract\<close>

locale ordered_set =
  fixes ok :: "'s \<Rightarrow> bool"
    and elems :: "'s \<Rightarrow> 'e :: linorder set"
    and ins :: "'e \<Rightarrow> 's \<Rightarrow> 's"
    and del :: "'e \<Rightarrow> 's \<Rightarrow> 's"
    and below :: "'e \<Rightarrow> 's \<Rightarrow> 's"
    and above :: "'e \<Rightarrow> 's \<Rightarrow> 's"
    and least :: "'s \<Rightarrow> 'e"
  assumes ins: "ok s \<Longrightarrow> ok (ins x s) \<and> elems (ins x s) = insert x (elems s)"
    and del: "ok s \<Longrightarrow> ok (del x s) \<and> elems (del x s) = elems s - {x}"
    and below: "ok s \<Longrightarrow> ok (below x s) \<and> elems (below x s) = {y \<in> elems s. y < x}"
    and above: "ok s \<Longrightarrow> ok (above x s) \<and> elems (above x s) = {y \<in> elems s. x \<le> y}"
    and least: "ok s \<Longrightarrow> elems s \<noteq> {} \<Longrightarrow> least s \<in> elems s \<and> (\<forall>y\<in>elems s. least s \<le> y)"
begin

lemma split_at:
  assumes "ok s"
  shows "elems s = elems (below x s) \<union> elems (above x s)"
    and "elems (below x s) \<inter> elems (above x s) = {}"
  using below [OF assms, of x] above [OF assms, of x] by auto

lemma least_ins:
  assumes "ok s"
  shows "least (ins x s) = (if elems s = {} \<or> x < least s then x else least s)"
proof -
  have i: "ok (ins x s)" "elems (ins x s) = insert x (elems s)" using ins [OF assms] by auto
  have l: "least (ins x s) \<in> insert x (elems s)" "\<forall>y\<in>insert x (elems s). least (ins x s) \<le> y"
    using least [OF i(1)] i(2) by auto
  show ?thesis
  proof (cases "elems s = {}")
    case True
    then show ?thesis using l by simp
  next
    case False
    then have "least s \<in> elems s" "\<forall>y\<in>elems s. least s \<le> y" using least [OF assms] by auto
    then show ?thesis using l False by (auto intro: antisym)
  qed
qed

end

section \<open>The lists provide it\<close>

abbreviation ascending :: "'e :: linorder list \<Rightarrow> bool" where
  "ascending xs \<equiv> sorted xs \<and> distinct xs"

lemma set_below_elems: "sorted xs \<Longrightarrow> set (set_below x xs) = {y \<in> set xs. y < x}"
proof (induction xs)
  case (Cons z xs)
  then show ?case by (cases "z < x") (auto simp: set_below_def)
qed (simp add: set_below_def)

lemma set_from_elems: "sorted xs \<Longrightarrow> set (set_from x xs) = {y \<in> set xs. x \<le> y}"
proof (induction xs)
  case (Cons z xs)
  then show ?case by (cases "z < x") (auto simp: set_from_def not_less)
qed (simp add: set_from_def)

lemma set_below_from: "set_below x xs @ set_from x xs = xs"
  by (simp add: set_below_def set_from_def)

interpretation os: ordered_set ascending set set_insert set_erase set_below set_from hd
proof unfold_locales
  fix s :: "'a list" and x
  assume s: "ascending s"
  show "ascending (set_insert x s) \<and> set (set_insert x s) = insert x (set s)"
    using s by (simp add: set_insert_def sorted_insort_insert distinct_insort_insert set_insort_insert)
  show "ascending (set_erase x s) \<and> set (set_erase x s) = set s - {x}"
    using s by (simp add: set_erase_def sorted_remove1)
  show "ascending (set_below x s) \<and> set (set_below x s) = {y \<in> set s. y < x}"
    using s set_below_elems [of s x] by (simp add: set_below_def sorted_takeWhile)
  show "ascending (set_from x s) \<and> set (set_from x s) = {y \<in> set s. x \<le> y}"
    using s set_from_elems [of s x] by (simp add: set_from_def sorted_dropWhile)
  show "set s \<noteq> {} \<Longrightarrow> hd s \<in> set s \<and> (\<forall>y\<in>set s. hd s \<le> y)"
    using s by (cases s) auto
qed

end
