(* ===== verification/Timer_Queue.thy ===== *)
theory Timer_Queue
  imports Channels Ordered_Sets
begin

text \<open>
  \<open>Timer\<close>, \<open>TimerId\<close> and \<open>TimerQueue\<close> (Timer.h, Timer.cpp, TimerId.h, TimerQueue.h,
  TimerQueue.cpp). The queue holds its timers twice: in \<open>timers\<close>, ordered by expiration and
  address, and in \<open>activeTimers\<close>, by address and sequence number. Timers are heap objects that
  the queue owns; the kernel's timer is the absolute time, in microseconds, at which the last
  \<open>timerfd_settime\<close> makes it fire. Each reading of the clock is an argument.
\<close>

section \<open>Timers\<close>

record timer =
  callback :: loop_functor
  expiration :: timestamp
  interval :: double
  repeats :: bool
  sequence :: int64

definition new_Timer :: "timestamp \<Rightarrow> loop_functor \<Rightarrow> double \<Rightarrow> int64 \<Rightarrow> timer" where
  "new_Timer when cb iv seq =
     \<lparr>callback = cb, expiration = when, interval = iv, repeats = (iv > 0), sequence = seq\<rparr>"

definition restart :: "timestamp \<Rightarrow> timer \<Rightarrow> timer" where
  "restart now t =
     (if repeats t then t\<lparr>expiration := addTime now (interval t)\<rparr>
      else t\<lparr>expiration := invalid_Timestamp\<rparr>)"

section \<open>The timer descriptor\<close>

record timespec =
  tv_sec :: int64
  tv_nsec :: int64

text \<open>
  The difference is at least 100 when it is divided, so the truncating division of C++ is the
  division of the integers it denotes.
\<close>

definition howMuchTimeFromNow :: "timestamp \<Rightarrow> timestamp \<Rightarrow> timespec" where
  "howMuchTimeFromNow now when =
     (let diff = microSecondsSinceEpoch when - microSecondsSinceEpoch now;
          micro = (if sint diff < 100 then 100 else sint diff) in
      \<lparr>tv_sec = word_of_int (micro div kMicroSecondsPerSecond),
       tv_nsec = word_of_int (micro mod kMicroSecondsPerSecond) * 1000\<rparr>)"

section \<open>The queue\<close>

type_synonym entry = "timestamp \<times> timer_ptr"

record timer_queue =
  objs :: "timer_ptr \<rightharpoonup> timer"
  timers :: "entry list"
  activeTimers :: "(timer_ptr \<times> int64) set"
  cancelingTimers :: "(timer_ptr option \<times> int64) set"
  callingExpiredTimers :: bool
  timerfd :: "int option"

definition new_TimerQueue :: timer_queue where
  "new_TimerQueue = \<lparr>objs = Map.empty, timers = [], activeTimers = {}, cancelingTimers = {},
     callingExpiredTimers = False, timerfd = None\<rparr>"

definition UINTPTR_MAX :: timer_ptr where "UINTPTR_MAX = 2 ^ 64 - 1"

definition deadline :: "timestamp \<Rightarrow> timespec \<Rightarrow> int" where
  "deadline now ts = sint (microSecondsSinceEpoch now) +
     sint (tv_sec ts) * kMicroSecondsPerSecond + sint (tv_nsec ts) div 1000"

definition resetTimerfd :: "timestamp \<Rightarrow> timestamp \<Rightarrow> timer_queue \<Rightarrow> timer_queue" where
  "resetTimerfd now when q = q\<lparr>timerfd := Some (deadline now (howMuchTimeFromNow now when))\<rparr>"

text \<open>The descriptor is readable, and a read clears it, when the one-shot timer has fired.\<close>

definition readTimerfd :: "timestamp \<Rightarrow> timer_queue \<Rightarrow> timer_queue" where
  "readTimerfd now q =
     (case timerfd q of
        None \<Rightarrow> q
      | Some d \<Rightarrow> if d \<le> sint (microSecondsSinceEpoch now) then q\<lparr>timerfd := None\<rparr> else q)"

text \<open>\<open>insert\<close> also answers whether the new timer expires before all others.\<close>

definition insert_timer :: "timer_ptr \<Rightarrow> timer_queue \<Rightarrow> (bool \<times> timer_queue) result" where
  "insert_timer p q =
     rbind (deref (objs q) p) (\<lambda>t.
       (let when = expiration t;
            earliestChanged = (timers q = [] \<or> when < fst (hd (timers q))) in
        cpp_assert ((when, p) \<notin> set (timers q))
        (cpp_assert ((p, sequence t) \<notin> activeTimers q)
        (Inr (earliestChanged,
          q\<lparr>timers := set_insert (when, p) (timers q),
            activeTimers := insert (p, sequence t) (activeTimers q)\<rparr>)))))"

definition addTimerInLoop :: "timestamp \<Rightarrow> timer_ptr \<Rightarrow> timer_queue \<Rightarrow> timer_queue result" where
  "addTimerInLoop now p q =
     rbind (insert_timer p q) (\<lambda>(earliestChanged, q).
       if earliestChanged
       then rbind (deref (objs q) p) (\<lambda>t. Inr (resetTimerfd now (expiration t) q))
       else Inr q)"

definition cancelInLoop :: "timer_id \<Rightarrow> timer_queue \<Rightarrow> timer_queue result" where
  "cancelInLoop timerId q =
     (case timerId of TimerId po seq \<Rightarrow>
      rbind
        (case po of
           Some p \<Rightarrow>
             if (p, seq) \<in> activeTimers q then
               rbind (deref (objs q) p) (\<lambda>t.
                 cpp_assert ((expiration t, p) \<in> set (timers q))
                 (Inr (q\<lparr>timers := set_erase (expiration t, p) (timers q),
                         objs := (objs q)(p := None),
                         activeTimers := activeTimers q - {(p, seq)}\<rparr>)))
             else if callingExpiredTimers q
             then Inr (q\<lparr>cancelingTimers := insert (po, seq) (cancelingTimers q)\<rparr>)
             else Inr q
         | None \<Rightarrow>
             if callingExpiredTimers q
             then Inr (q\<lparr>cancelingTimers := insert (po, seq) (cancelingTimers q)\<rparr>)
             else Inr q)
        (\<lambda>q. cpp_assert (length (timers q) = card (activeTimers q)) (Inr q)))"

text \<open>
  \<open>getExpired\<close>: the entries below the sentry \<open>(now, UINTPTR_MAX)\<close> move to a vector and leave
  both sets.
\<close>

definition erase_active :: "entry \<Rightarrow> timer_queue \<Rightarrow> timer_queue result" where
  "erase_active e q =
     rbind (deref (objs q) (snd e)) (\<lambda>t.
       cpp_assert ((snd e, sequence t) \<in> activeTimers q)
         (Inr (q\<lparr>activeTimers := activeTimers q - {(snd e, sequence t)}\<rparr>)))"

definition getExpired :: "timestamp \<Rightarrow> timer_queue \<Rightarrow> (entry list \<times> timer_queue) result" where
  "getExpired now q =
     (let sentry = (now, UINTPTR_MAX);
          expired = set_below sentry (timers q);
          rest = set_from sentry (timers q) in
      cpp_assert (rest = [] \<or> now < fst (hd rest))
        (rbind (rfold erase_active expired (q\<lparr>timers := rest\<rparr>)) (\<lambda>q.
          cpp_assert (length (timers q) = card (activeTimers q)) (Inr (expired, q)))))"

text \<open>
  \<open>reset\<close>: repeating timers that were not cancelled meanwhile start again, the others are deleted;
  then the descriptor is set for the earliest timer. \<open>now2\<close> is the clock's next reading.
\<close>

definition reset_entry :: "timestamp \<Rightarrow> entry \<Rightarrow> timer_queue \<Rightarrow> timer_queue result" where
  "reset_entry now e q =
     (let p = snd e in
      rbind (deref (objs q) p) (\<lambda>t.
        if repeats t \<and> (Some p, sequence t) \<notin> cancelingTimers q
        then rbind (insert_timer p (q\<lparr>objs := (objs q)(p \<mapsto> restart now t)\<rparr>)) (\<lambda>(_, q). Inr q)
        else Inr (q\<lparr>objs := (objs q)(p := None)\<rparr>)))"

definition reset :: "entry list \<Rightarrow> timestamp \<Rightarrow> timestamp \<Rightarrow> timer_queue \<Rightarrow> timer_queue result" where
  "reset expired now now2 q =
     rbind (rfold (reset_entry now) expired q) (\<lambda>q.
     rbind (case timers q of
              [] \<Rightarrow> Inr invalid_Timestamp
            | (_, p) # _ \<Rightarrow> rbind (deref (objs q) p) (\<lambda>t. Inr (expiration t))) (\<lambda>nextExpired.
       Inr (if isValid nextExpired then resetTimerfd now2 nextExpired q else q)))"

section \<open>The invariant and the schedule\<close>

text \<open>
  \<open>held\<close> are the expired entries whose callbacks are running: their timers are in neither set.
  Every entry names a live timer that expires at the entry's time.
\<close>

definition tq_ok :: "entry list \<Rightarrow> timer_queue \<Rightarrow> bool" where
  "tq_ok held q \<longleftrightarrow> ascending (timers q) \<and>
     (\<forall>e\<in>set (timers q) \<union> set held. snd e < UINTPTR_MAX \<and>
        (\<exists>t. objs q (snd e) = Some t \<and> expiration t = fst e)) \<and>
     distinct (map snd held) \<and> snd ` set held \<inter> snd ` set (timers q) = {} \<and>
     activeTimers q = (\<lambda>e. (snd e, sequence (the (objs q (snd e))))) ` set (timers q)"

text \<open>What the queue is for: the timers that are due to run, by address.\<close>

definition schedule :: "timer_queue \<Rightarrow> timer_ptr \<rightharpoonup> timer" where
  "schedule q p = (if p \<in> snd ` set (timers q) then objs q p else None)"

lemma tq_okD:
  assumes "tq_ok held q"
  shows "ascending (timers q)" "distinct (map snd held)"
    and "snd ` set held \<inter> snd ` set (timers q) = {}"
    and "activeTimers q = (\<lambda>e. (snd e, sequence (the (objs q (snd e))))) ` set (timers q)"
    and "e \<in> set (timers q) \<Longrightarrow> snd e < UINTPTR_MAX \<and> (\<exists>t. objs q (snd e) = Some t \<and> expiration t = fst e)"
    and "e \<in> set held \<Longrightarrow> snd e < UINTPTR_MAX \<and> (\<exists>t. objs q (snd e) = Some t \<and> expiration t = fst e)"
  using assms unfolding tq_ok_def by blast+

lemma tq_entry:
  assumes "tq_ok held q"
  shows "(x, p) \<in> set (timers q) \<longleftrightarrow> (\<exists>t. schedule q p = Some t \<and> expiration t = x)"
proof
  assume "(x, p) \<in> set (timers q)"
  moreover from this have "p \<in> snd ` set (timers q)" by force
  ultimately show "\<exists>t. schedule q p = Some t \<and> expiration t = x"
    using tq_okD(5) [OF assms, of "(x, p)"] by (auto simp: schedule_def)
next
  assume "\<exists>t. schedule q p = Some t \<and> expiration t = x"
  then obtain t y where "objs q p = Some t" "expiration t = x" "(y, p) \<in> set (timers q)"
    by (auto simp: schedule_def split: if_splits)
  then show "(x, p) \<in> set (timers q)" using tq_okD(5) [OF assms, of "(y, p)"] by auto
qed

lemma tq_active:
  assumes "tq_ok held q"
  shows "(p, s) \<in> activeTimers q \<longleftrightarrow> (\<exists>t. schedule q p = Some t \<and> sequence t = s)"
proof -
  have "(p, s) \<in> activeTimers q \<longleftrightarrow> p \<in> snd ` set (timers q) \<and> s = sequence (the (objs q p))"
    unfolding tq_okD(4) [OF assms] by force
  also have "\<dots> \<longleftrightarrow> (\<exists>t. schedule q p = Some t \<and> sequence t = s)"
    using tq_okD(5) [OF assms] by (force simp: schedule_def)
  finally show ?thesis .
qed

lemma tq_ptr_inj:
  assumes "tq_ok held q"
  shows "inj_on snd (set (timers q))"
proof (rule inj_onI)
  fix e e'
  assume "e \<in> set (timers q)" "e' \<in> set (timers q)" "snd e = snd e'"
  then show "e = e'" using tq_okD(5) [OF assms, of e] tq_okD(5) [OF assms, of e']
    by (metis option.inject prod_eq_iff)
qed

text \<open>\<open>assert(timers_.size() == activeTimers_.size())\<close>\<close>

lemma tq_sizes:
  assumes "tq_ok held q"
  shows "card (activeTimers q) = length (timers q)"
proof -
  have "inj_on (\<lambda>e. (snd e, sequence (the (objs q (snd e))))) (set (timers q))"
    using tq_ptr_inj [OF assms] by (auto simp: inj_on_def)
  then have "card (activeTimers q) = card (set (timers q))"
    unfolding tq_okD(4) [OF assms] by (rule card_image)
  then show ?thesis using tq_okD(1) [OF assms] by (simp add: distinct_card)
qed

lemma schedule_dom: "tq_ok held q \<Longrightarrow> (\<exists>t. schedule q p = Some t) \<longleftrightarrow> p \<in> snd ` set (timers q)"
  using tq_okD(5) [of held q] by (force simp: schedule_def)

section \<open>Operations on a consistent queue\<close>

lemma insert_timer_ok:
  assumes ok: "tq_ok held q" and t: "objs q p = Some t" and p: "p < UINTPTR_MAX"
    and free: "p \<notin> snd ` set (timers q)" "p \<notin> snd ` set held"
  defines "q' \<equiv> q\<lparr>timers := set_insert (expiration t, p) (timers q),
      activeTimers := insert (p, sequence t) (activeTimers q)\<rparr>"
  shows "insert_timer p q = Inr (timers q = [] \<or> expiration t < fst (hd (timers q)), q')"
    and "tq_ok held q'" and "schedule q' = (schedule q)(p \<mapsto> t)"
proof -
  have new: "(x, p) \<notin> set (timers q)" for x using free by force
  have s: "schedule q p = None" using free by (simp add: schedule_def)
  show "insert_timer p q = Inr (timers q = [] \<or> expiration t < fst (hd (timers q)), q')"
    using t new s tq_active [OF ok, of p "sequence t"] by (simp add: insert_timer_def Let_def q'_def)
  have ins: "ascending (set_insert (expiration t, p) (timers q))"
      "set (set_insert (expiration t, p) (timers q)) = insert (expiration t, p) (set (timers q))"
    using os.ins [OF tq_okD(1) [OF ok]] by auto
  show "tq_ok held q'"
    using ok ins t p free unfolding tq_ok_def q'_def by auto
  show "schedule q' = (schedule q)(p \<mapsto> t)"
    using ins t by (auto simp: schedule_def q'_def fun_eq_iff)
qed

lemma remove_scheduled_ok:
  assumes ok: "tq_ok held q" and t: "schedule q p = Some t"
  defines "q' \<equiv> q\<lparr>timers := set_erase (expiration t, p) (timers q), objs := (objs q)(p := None),
      activeTimers := activeTimers q - {(p, sequence t)}\<rparr>"
  shows "tq_ok held q'" and "schedule q' = (schedule q)(p := None)"
proof -
  have e: "(expiration t, p) \<in> set (timers q)" using tq_entry [OF ok] t by blast
  have o: "objs q p = Some t" using t by (simp add: schedule_def split: if_splits)
  have del: "ascending (set_erase (expiration t, p) (timers q))"
      "set (set_erase (expiration t, p) (timers q)) = set (timers q) - {(expiration t, p)}"
    using os.del [OF tq_okD(1) [OF ok]] by auto
  have away: "snd e0 \<noteq> p" if "e0 \<in> set (timers q)" "e0 \<noteq> (expiration t, p)" for e0
    using tq_okD(5) [OF ok that(1)] o that(2) by (metis option.inject prod.collapse)
  have held: "snd e0 \<noteq> p" if "e0 \<in> set held" for e0
  proof -
    have "snd e0 \<in> snd ` set held" "p \<in> snd ` set (timers q)" using that e by (auto intro: rev_image_eqI)
    then show ?thesis using tq_okD(3) [OF ok] by auto
  qed
  have act: "activeTimers q - {(p, sequence t)} =
      (\<lambda>e. (snd e, sequence (the (objs q (snd e))))) ` (set (timers q) - {(expiration t, p)})"
    unfolding tq_okD(4) [OF ok] using away o by force
  have act': "(\<lambda>e. (snd e, sequence (the (objs q (snd e))))) ` (set (timers q) - {(expiration t, p)}) =
      (\<lambda>e. (snd e, sequence (the (((objs q)(p := None)) (snd e))))) ` (set (timers q) - {(expiration t, p)})"
    by (rule image_cong) (use away in auto)
  have img: "snd ` (set (timers q) - {(expiration t, p)}) = snd ` set (timers q) - {p}"
    using away by force
  have live: "snd e0 < UINTPTR_MAX \<and> (\<exists>t. ((objs q)(p := None)) (snd e0) = Some t \<and> expiration t = fst e0)"
    if "e0 \<in> (set (timers q) - {(expiration t, p)}) \<union> set held" for e0
    using that away [of e0] held [of e0] tq_okD(5,6) [OF ok, of e0] by auto
  show "tq_ok held q'"
    unfolding tq_ok_def q'_def using del act act' img live tq_okD(2,3) [OF ok] by auto
  show "schedule q' = (schedule q)(p := None)"
    unfolding schedule_def q'_def using del img by auto
qed

definition is_scheduled :: "timer_queue \<Rightarrow> timer_id \<Rightarrow> bool" where
  "is_scheduled q timerId = (case timerId of
     TimerId (Some p) seq \<Rightarrow> (case schedule q p of Some t \<Rightarrow> sequence t = seq | None \<Rightarrow> False)
   | TimerId None seq \<Rightarrow> False)"

fun cancelled_id :: "timer_id \<Rightarrow> timer_ptr option \<times> int64" where
  "cancelled_id (TimerId po seq) = (po, seq)"

fun id_timer :: "timer_id \<Rightarrow> timer_ptr option" where
  "id_timer (TimerId po seq) = po"

lemma cancelInLoop_ok:
  assumes ok: "tq_ok held q"
  shows "\<exists>q'. cancelInLoop timerId q = Inr q' \<and> tq_ok held q' \<and>
    schedule q' = (if is_scheduled q timerId then (schedule q)(the (id_timer timerId) := None)
                   else schedule q) \<and>
    cancelingTimers q' =
      (if \<not> is_scheduled q timerId \<and> callingExpiredTimers q
       then insert (cancelled_id timerId) (cancelingTimers q) else cancelingTimers q) \<and>
    callingExpiredTimers q' = callingExpiredTimers q \<and> timerfd q' = timerfd q \<and>
    (\<forall>p. p \<notin> snd ` set (timers q) \<longrightarrow> objs q' p = objs q p)"
proof -
  obtain po seq where timer_id: "timerId = TimerId po seq" by (cases timerId)
  show ?thesis
  proof (cases "is_scheduled q timerId")
    case True
    then obtain p t where p: "po = Some p" "schedule q p = Some t" "sequence t = seq"
      using timer_id by (auto simp: is_scheduled_def split: option.splits)
    have o: "objs q p = Some t" "p \<in> snd ` set (timers q)"
      using p(2) by (auto simp: schedule_def split: if_splits)
    have a: "(p, seq) \<in> activeTimers q" using tq_active [OF ok] p(2,3) by blast
    have e: "(expiration t, p) \<in> set (timers q)" using tq_entry [OF ok] p(2) by blast
    note rem = remove_scheduled_ok [OF ok p(2)]
    show ?thesis
      using rem tq_sizes [OF rem(1)] o a e p timer_id True by (auto simp: cancelInLoop_def)
  next
    case False
    then have na: "(p, seq) \<notin> activeTimers q" if "po = Some p" for p
      using tq_active [OF ok, of p seq] timer_id that by (auto simp: is_scheduled_def)
    define q' where "q' = (if callingExpiredTimers q
      then q\<lparr>cancelingTimers := insert (po, seq) (cancelingTimers q)\<rparr> else q)"
    have "tq_ok held q'" using ok by (simp add: tq_ok_def q'_def)
    moreover have "cancelInLoop timerId q = Inr q'"
      using na timer_id tq_sizes [OF ok] by (cases po) (simp_all add: cancelInLoop_def q'_def)
    ultimately show ?thesis using False timer_id
      by (intro exI [of _ q']) (simp add: q'_def schedule_def fun_eq_iff)
  qed
qed

lemma erase_active_run:
  assumes "\<forall>e\<in>set es. \<exists>t. objs q (snd e) = Some t \<and> (snd e, sequence t) \<in> activeTimers q"
    and "distinct (map snd es)"
  shows "rfold erase_active es q = Inr (q\<lparr>activeTimers := activeTimers q -
    (\<lambda>e. (snd e, sequence (the (objs q (snd e))))) ` set es\<rparr>)"
  using assms
proof (induction es arbitrary: q)
  case Nil
  show ?case by simp
next
  case (Cons e es)
  obtain t where t: "objs q (snd e) = Some t" "(snd e, sequence t) \<in> activeTimers q"
    using Cons.prems(1) by auto
  define q1 where "q1 = q\<lparr>activeTimers := activeTimers q - {(snd e, sequence t)}\<rparr>"
  have "\<forall>e0\<in>set es. \<exists>t. objs q1 (snd e0) = Some t \<and> (snd e0, sequence t) \<in> activeTimers q1"
  proof
    fix e0
    assume e0: "e0 \<in> set es"
    then obtain t0 where "objs q (snd e0) = Some t0" "(snd e0, sequence t0) \<in> activeTimers q"
      using Cons.prems(1) by auto
    moreover have "snd e0 \<noteq> snd e" using Cons.prems(2) e0 by (auto simp: image_iff)
    ultimately show "\<exists>t. objs q1 (snd e0) = Some t \<and> (snd e0, sequence t) \<in> activeTimers q1"
      by (simp add: q1_def)
  qed
  then have "rfold erase_active es q1 = Inr (q1\<lparr>activeTimers := activeTimers q1 -
      (\<lambda>e. (snd e, sequence (the (objs q1 (snd e))))) ` set es\<rparr>)"
    using Cons.IH Cons.prems(2) by simp
  moreover have "erase_active e q = Inr q1" using t by (simp add: erase_active_def q1_def)
  ultimately show ?case using t by (simp add: q1_def Diff_insert2 [symmetric])
qed

lemma below_sentry: "p < UINTPTR_MAX \<Longrightarrow> (x, p) < (now, UINTPTR_MAX) \<longleftrightarrow> x \<le> (now :: timestamp)"
  by (auto simp: less_prod_def)

lemma getExpired_ok:
  assumes ok: "tq_ok [] q"
  shows "\<exists>expired q'. getExpired now q = Inr (expired, q') \<and> tq_ok expired q' \<and> ascending expired \<and>
    set expired = {(expiration t, p) | p t. schedule q p = Some t \<and> expiration t \<le> now} \<and>
    (\<forall>p. schedule q' p = (case schedule q p of
       Some t \<Rightarrow> if expiration t \<le> now then None else Some t | None \<Rightarrow> None)) \<and>
    objs q' = objs q \<and> timerfd q' = timerfd q \<and>
    callingExpiredTimers q' = callingExpiredTimers q"
proof -
  let ?sentry = "(now, UINTPTR_MAX)"
  let ?key = "\<lambda>e. (snd e, sequence (the (objs q (snd e))))"
  define expired where "expired = set_below ?sentry (timers q)"
  define rest where "rest = set_from ?sentry (timers q)"
  note asc = tq_okD(1) [OF ok]
  have ex: "ascending expired" "set expired = {e \<in> set (timers q). fst e \<le> now}"
    using os.below [OF asc, of ?sentry] tq_okD(5) [OF ok] below_sentry
    unfolding expired_def by fastforce+
  have re: "ascending rest" "set rest = {e \<in> set (timers q). \<not> fst e \<le> now}"
    using os.above [OF asc, of ?sentry] tq_okD(5) [OF ok] below_sentry
    unfolding rest_def by (fastforce simp: not_less [symmetric])+
  have inj: "e = e'" if "e \<in> set (timers q)" "e' \<in> set (timers q)" "snd e = snd e'" for e e'
    using tq_ptr_inj [OF ok] that by (auto dest: inj_onD)
  have key_inj: "inj_on ?key (set (timers q))" using inj by (auto simp: inj_on_def)
  have all: "set expired \<subseteq> set (timers q)" "set rest = set (timers q) - set expired"
    using ex re by auto
  have sn: "inj_on snd (set expired)" by (rule inj_on_subset [OF tq_ptr_inj [OF ok] all(1)])
  have dist: "distinct (map snd expired)" using ex(1) sn by (simp add: distinct_map)
  define q1 where "q1 = q\<lparr>timers := rest\<rparr>"
  define q' where "q' = q1\<lparr>activeTimers := activeTimers q1 - ?key ` set expired\<rparr>"
  have "\<forall>e\<in>set expired. \<exists>t. objs q1 (snd e) = Some t \<and> (snd e, sequence t) \<in> activeTimers q1"
    using all tq_okD(5) [OF ok] unfolding q1_def by (force simp: tq_okD(4) [OF ok])
  from erase_active_run [OF this dist]
  have run: "rfold erase_active expired q1 = Inr q'" by (simp add: q'_def q1_def)
  have act: "activeTimers q' = ?key ` set rest"
    using inj_on_image_set_diff [OF key_inj, of "set (timers q)" "set expired"] all
    by (simp add: q'_def q1_def tq_okD(4) [OF ok])
  have disj: "snd ` set expired \<inter> snd ` set rest = {}" using inj all by blast
  have ok': "tq_ok expired q'"
    unfolding tq_ok_def using re(1) dist disj act all tq_okD(5) [OF ok]
    by (auto simp: q'_def q1_def)
  have first: "rest = [] \<or> now < fst (hd rest)"
  proof (cases rest)
    case (Cons e es)
    then have "e \<in> set rest" by simp
    then show ?thesis unfolding re(2) using Cons by auto
  qed simp
  have sched: "schedule q' p = (case schedule q p of
       Some t \<Rightarrow> if expiration t \<le> now then None else Some t | None \<Rightarrow> None)" for p
  proof (cases "schedule q p")
    case None
    then show ?thesis using all tq_okD(5) [OF ok]
      by (auto simp: schedule_def q'_def q1_def split: if_splits)
  next
    case (Some t)
    then have e: "(expiration t, p) \<in> set (timers q)" using tq_entry [OF ok] by blast
    have "e0 = (expiration t, p)" if "e0 \<in> set (timers q)" "snd e0 = p" for e0
      by (rule inj [OF that(1) e]) (simp add: that(2))
    then have "p \<in> snd ` set rest \<Longrightarrow> (expiration t, p) \<in> set rest"
      using all(2) by (metis DiffD1 imageE)
    moreover have "(expiration t, p) \<in> set rest \<Longrightarrow> p \<in> snd ` set rest"
      by (metis image_eqI snd_conv)
    ultimately have "p \<in> snd ` set rest \<longleftrightarrow> \<not> expiration t \<le> now"
      using e re(2) by (metis (mono_tags, lifting) fst_conv mem_Collect_eq)
    then show ?thesis using Some by (auto simp: schedule_def q'_def q1_def split: if_splits)
  qed
  have "set expired = {(expiration t, p) | p t. schedule q p = Some t \<and> expiration t \<le> now}"
    unfolding ex(2) using tq_entry [OF ok] by fastforce
  moreover have "getExpired now q = Inr (expired, q')"
    using first run tq_sizes [OF ok'] unfolding getExpired_def Let_def
    by (simp add: expired_def [symmetric] rest_def [symmetric] q1_def [symmetric])
  ultimately show ?thesis using ok' ex(1) sched
    by (intro exI [of _ expired] exI [of _ q']) (simp add: q'_def q1_def)
qed

lemma earliest_entry:
  assumes ok: "tq_ok held q" and "timers q \<noteq> []"
  obtains p t where "schedule q p = Some t" "expiration t = fst (hd (timers q))"
    and "\<And>p0 t0. schedule q p0 = Some t0 \<Longrightarrow> fst (hd (timers q)) \<le> expiration t0"
proof -
  have l: "hd (timers q) \<in> set (timers q)" "\<forall>e\<in>set (timers q). hd (timers q) \<le> e"
    using os.least [OF tq_okD(1) [OF ok]] assms(2) by auto
  obtain x p where xp: "hd (timers q) = (x, p)" by force
  obtain t where t: "schedule q p = Some t" "expiration t = x"
    using l(1) xp tq_entry [OF ok] by auto
  have "x \<le> expiration t0" if "schedule q p0 = Some t0" for p0 t0
  proof -
    have "(expiration t0, p0) \<in> set (timers q)" using tq_entry [OF ok] that by blast
    then show ?thesis using l(2) xp by (auto simp: less_eq_prod_def)
  qed
  then show thesis using that [OF t(1)] t(2) xp by simp
qed

lemma earliest_iff:
  assumes ok: "tq_ok held q"
  shows "(timers q = [] \<or> x < fst (hd (timers q))) \<longleftrightarrow>
    (\<forall>p0 t0. schedule q p0 = Some t0 \<longrightarrow> x < expiration t0)"
proof (cases "timers q = []")
  case True
  then show ?thesis by (simp add: schedule_def)
next
  case False
  obtain p t where "schedule q p = Some t" "expiration t = fst (hd (timers q))"
      "\<And>p0 t0. schedule q p0 = Some t0 \<Longrightarrow> fst (hd (timers q)) \<le> expiration t0"
    using earliest_entry [OF ok False] by blast
  then show ?thesis using False by (metis less_le_trans)
qed

definition is_earliest :: "timer_queue \<Rightarrow> timestamp \<Rightarrow> bool" where
  "is_earliest q x \<longleftrightarrow> timers q = [] \<or> x < fst (hd (timers q))"

lemma resetTimerfd_keeps [simp]:
  "tq_ok held (resetTimerfd now x q) \<longleftrightarrow> tq_ok held q"
  "schedule (resetTimerfd now x q) = schedule q"
  by (simp_all add: resetTimerfd_def tq_ok_def schedule_def fun_eq_iff)

lemma addTimerInLoop_ok:
  assumes ok: "tq_ok held q" and t: "objs q p = Some t" and p: "p < UINTPTR_MAX"
    and free: "p \<notin> snd ` set (timers q)" "p \<notin> snd ` set held"
  shows "\<exists>q'. addTimerInLoop now p q = Inr q' \<and> tq_ok held q' \<and> schedule q' = (schedule q)(p \<mapsto> t) \<and>
    objs q' = objs q \<and> cancelingTimers q' = cancelingTimers q \<and>
    callingExpiredTimers q' = callingExpiredTimers q \<and>
    timerfd q' = (if is_earliest q (expiration t)
      then Some (deadline now (howMuchTimeFromNow now (expiration t))) else timerfd q)"
proof -
  note ins = insert_timer_ok [OF ok t p free]
  define q1 where "q1 = q\<lparr>timers := set_insert (expiration t, p) (timers q),
      activeTimers := insert (p, sequence t) (activeTimers q)\<rparr>"
  define q' where "q' = (if is_earliest q (expiration t) then resetTimerfd now (expiration t) q1 else q1)"
  have "addTimerInLoop now p q = Inr q'"
    using ins(1) t by (simp add: addTimerInLoop_def q'_def q1_def is_earliest_def)
  moreover have "tq_ok held q'" "schedule q' = (schedule q)(p \<mapsto> t)"
    using ins(2,3) [folded q1_def] by (simp_all add: q'_def)
  ultimately show ?thesis by (intro exI [of _ q']) (simp add: q'_def q1_def resetTimerfd_def)
qed

text \<open>
  What \<open>reset\<close> makes of an expired timer: a repeating one that was not cancelled while the
  callbacks ran starts again from \<open>now\<close>, any other is gone.
\<close>

definition rearmed ::
    "timestamp \<Rightarrow> (timer_ptr option \<times> int64) set \<Rightarrow> (timer_ptr \<rightharpoonup> timer) \<Rightarrow> timer_ptr \<rightharpoonup> timer" where
  "rearmed now canceled ts p =
     (case ts p of
        Some t \<Rightarrow> if repeats t \<and> (Some p, sequence t) \<notin> canceled then Some (restart now t) else None
      | None \<Rightarrow> None)"

lemma release_held:
  fixes x :: "timer option"
  assumes "tq_ok (e # held) q"
  defines "q' \<equiv> q\<lparr>objs := (objs q)(snd e := x)\<rparr>"
  shows "tq_ok held q'" and "schedule q' = schedule q"
    and "snd e \<notin> snd ` set (timers q)" and "snd e \<notin> snd ` set held"
proof -
  show f: "snd e \<notin> snd ` set (timers q)" "snd e \<notin> snd ` set held"
    using tq_okD(2,3) [OF assms(1)] by auto
  then have n: "snd e0 \<noteq> snd e" if "e0 \<in> set (timers q) \<union> set held" for e0 using that by (metis Un_iff image_eqI)
  have "(\<lambda>e. (snd e, sequence (the (objs q (snd e))))) ` set (timers q) =
      (\<lambda>e. (snd e, sequence (the (objs q' (snd e))))) ` set (timers q)"
    by (rule image_cong) (use n in \<open>auto simp: q'_def\<close>)
  then show "tq_ok held q'"
    using assms(1) n unfolding tq_ok_def by (auto simp: q'_def)
  show "schedule q' = schedule q" using f by (auto simp: schedule_def q'_def fun_eq_iff)
qed

lemma reset_entry_ok:
  assumes ok: "tq_ok (e # held) q"
  shows "\<exists>q'. reset_entry now e q = Inr q' \<and> tq_ok held q' \<and>
    schedule q' = (schedule q)(snd e := rearmed now (cancelingTimers q) (objs q) (snd e)) \<and>
    (\<forall>p. p \<noteq> snd e \<longrightarrow> objs q' p = objs q p) \<and> cancelingTimers q' = cancelingTimers q \<and>
    callingExpiredTimers q' = callingExpiredTimers q \<and> timerfd q' = timerfd q"
proof -
  obtain t where t: "objs q (snd e) = Some t" "snd e < UINTPTR_MAX"
    using tq_okD(6) [OF ok, of e] by auto
  note rel = release_held [OF ok]
  have none: "schedule q (snd e) = None" using rel(3) by (simp add: schedule_def)
  show ?thesis
  proof (cases "repeats t \<and> (Some (snd e), sequence t) \<notin> cancelingTimers q")
    case False
    then have "reset_entry now e q = Inr (q\<lparr>objs := (objs q)(snd e := None)\<rparr>)"
      using t unfolding reset_entry_def Let_def by (simp only: deref_simps rbind_simps if_False)
    then show ?thesis using False t none rel(1,2) [of None]
      by (intro exI [of _ "q\<lparr>objs := (objs q)(snd e := None)\<rparr>"])
        (auto simp: rearmed_def fun_eq_iff)
  next
    case True
    define q1 where "q1 = q\<lparr>objs := (objs q)(snd e \<mapsto> restart now t)\<rparr>"
    have q1: "tq_ok held q1" "schedule q1 = schedule q" "objs q1 (snd e) = Some (restart now t)"
      "timers q1 = timers q"
      using rel(1,2) by (simp_all add: q1_def)
    have "snd e \<notin> snd ` set (timers q1)" using rel(3) q1(4) by simp
    note ins = insert_timer_ok [OF q1(1,3) t(2) this rel(4)]
    have "reset_entry now e q = rbind (insert_timer (snd e) q1) (\<lambda>(_, q). Inr q)"
      using t True by (simp add: reset_entry_def Let_def q1_def)
    then show ?thesis using ins q1(2) True t
      by (auto simp: rearmed_def q1_def)
  qed
qed

lemma reset_run:
  assumes "tq_ok held q"
  shows "\<exists>q'. rfold (reset_entry now) held q = Inr q' \<and> tq_ok [] q' \<and>
    (\<forall>p. schedule q' p = (if p \<in> snd ` set held
      then rearmed now (cancelingTimers q) (objs q) p else schedule q p)) \<and>
    callingExpiredTimers q' = callingExpiredTimers q \<and> timerfd q' = timerfd q"
  using assms
proof (induction held arbitrary: q)
  case Nil
  then show ?case by simp
next
  case (Cons e held)
  obtain q1 where q1: "reset_entry now e q = Inr q1" "tq_ok held q1"
      "schedule q1 = (schedule q)(snd e := rearmed now (cancelingTimers q) (objs q) (snd e))"
      "\<forall>p. p \<noteq> snd e \<longrightarrow> objs q1 p = objs q p" "cancelingTimers q1 = cancelingTimers q"
      "callingExpiredTimers q1 = callingExpiredTimers q" "timerfd q1 = timerfd q"
    using reset_entry_ok [OF Cons.prems] by blast
  obtain q' where q': "rfold (reset_entry now) held q1 = Inr q'" "tq_ok [] q'"
      "\<forall>p. schedule q' p = (if p \<in> snd ` set held
        then rearmed now (cancelingTimers q1) (objs q1) p else schedule q1 p)"
      "callingExpiredTimers q' = callingExpiredTimers q1" "timerfd q' = timerfd q1"
    using Cons.IH [OF q1(2)] by blast
  have "rearmed now c (objs q1) p = rearmed now c (objs q) p" if "p \<noteq> snd e" for c p
    using q1(4) that by (simp add: rearmed_def)
  then have "schedule q' p = (if p \<in> snd ` set (e # held)
      then rearmed now (cancelingTimers q) (objs q) p else schedule q p)" for p
    using q'(3) q1(3,5) release_held(4) [OF Cons.prems] by (cases "p = snd e") auto
  then show ?case using q1 q' by simp
qed

lemma reset_ok:
  assumes "tq_ok held q"
  shows "\<exists>q'. reset held now now2 q = Inr q' \<and> tq_ok [] q' \<and>
    (\<forall>p. schedule q' p = (if p \<in> snd ` set held
      then rearmed now (cancelingTimers q) (objs q) p else schedule q p)) \<and>
    callingExpiredTimers q' = callingExpiredTimers q \<and>
    timerfd q' = (if timers q' \<noteq> [] \<and> isValid (fst (hd (timers q')))
      then Some (deadline now2 (howMuchTimeFromNow now2 (fst (hd (timers q'))))) else timerfd q)"
proof -
  obtain q1 where q1: "rfold (reset_entry now) held q = Inr q1" "tq_ok [] q1"
    "\<forall>p. schedule q1 p = (if p \<in> snd ` set held
      then rearmed now (cancelingTimers q) (objs q) p else schedule q p)"
    "callingExpiredTimers q1 = callingExpiredTimers q" "timerfd q1 = timerfd q"
    using reset_run [OF assms] by blast
  define x where "x = (if timers q1 = [] then invalid_Timestamp else fst (hd (timers q1)))"
  define q' where "q' = (if isValid x then resetTimerfd now2 x q1 else q1)"
  have "(case timers q1 of [] \<Rightarrow> Inr invalid_Timestamp
      | (_, p) # _ \<Rightarrow> rbind (deref (objs q1) p) (\<lambda>t. Inr (expiration t))) = (Inr x :: timestamp result)"
    using tq_okD(5) [OF q1(2), of "hd (timers q1)"] by (cases "timers q1") (auto simp: x_def)
  then have "reset held now now2 q = Inr q'" using q1(1) by (simp add: reset_def q'_def)
  moreover have "tq_ok [] q'" "schedule q' = schedule q1" "timers q' = timers q1"
    using q1(2) by (auto simp: q'_def resetTimerfd_def tq_ok_def schedule_def fun_eq_iff)
  moreover have "timerfd q' = (if timers q1 \<noteq> [] \<and> isValid (fst (hd (timers q1)))
      then Some (deadline now2 (howMuchTimeFromNow now2 (fst (hd (timers q1))))) else timerfd q)"
    using q1(5) by (simp add: q'_def x_def resetTimerfd_def isValid_def invalid_Timestamp_def)
  ultimately show ?thesis using q1(3,4)
    by (intro exI [of _ q']) (simp add: q'_def resetTimerfd_def)
qed

section \<open>The time the descriptor fires\<close>

lemma sint_small_64: "- (2 ^ 63) \<le> k \<Longrightarrow> k < 2 ^ 63 \<Longrightarrow> sint (word_of_int k :: int64) = k"
  by (simp add: sint_sbintrunc' signed_take_bit_int_eq_self)

lemma howMuchTimeFromNow_bounds:
  fixes now "when" :: timestamp
  defines "d \<equiv> sint (microSecondsSinceEpoch when) - sint (microSecondsSinceEpoch now)"
  assumes "- (2 ^ 63) \<le> d" and "d < 2 ^ 63"
  shows "sint (tv_sec (howMuchTimeFromNow now when)) = max d 100 div 1000000"
    and "sint (tv_nsec (howMuchTimeFromNow now when)) = max d 100 mod 1000000 * 1000"
proof -
  have diff: "sint (microSecondsSinceEpoch when - microSecondsSinceEpoch now) = d"
    using assms by (simp add: sint_word_ariths signed_take_bit_int_eq_self)
  define m where "m = max d 100"
  have m: "(if d < 100 then 100 else d) = m" by (simp add: m_def max_def)
  have b: "100 \<le> m" "m < 2 ^ 63" using assms by (auto simp: m_def)
  have r: "0 \<le> m mod 1000000" "m mod 1000000 < 1000000" by simp_all
  have q: "0 \<le> m div 1000000" "m div 1000000 < 2 ^ 63" using b by (simp_all add: div_less_iff_less_mult)
  have one_thousand: "1000 * 1000 = (1000000 :: int)" by simp
  have n: "word_of_int (m mod 1000000) * 1000 = (word_of_int (m mod 1000000 * 1000) :: int64)" by simp
  show "sint (tv_sec (howMuchTimeFromNow now when)) = max d 100 div 1000000"
    unfolding howMuchTimeFromNow_def Let_def diff m kMicroSecondsPerSecond_def
    using sint_small_64 [of "m div 1000000"] q by (simp add: m_def [symmetric])
  have "sint (word_of_int (m mod 1000000 * 1000) :: int64) = m mod 1000000 * 1000"
    by (rule sint_small_64) (use r in simp_all)
  then show "sint (tv_nsec (howMuchTimeFromNow now when)) = max d 100 mod 1000000 * 1000"
    unfolding howMuchTimeFromNow_def Let_def diff m kMicroSecondsPerSecond_def
    by (simp only: timespec.simps n m_def [symmetric] one_thousand)
qed

lemma timestamp_lt: "sint (microSecondsSinceEpoch t) < 2 ^ 63"
  using sint_lt [of "microSecondsSinceEpoch t"] by simp

lemma deadline_exact:
  fixes now "when" :: timestamp
  defines "d \<equiv> sint (microSecondsSinceEpoch when) - sint (microSecondsSinceEpoch now)"
  assumes "- (2 ^ 63) \<le> d" and "d < 2 ^ 63"
  shows "deadline now (howMuchTimeFromNow now when) =
    max (sint (microSecondsSinceEpoch when)) (sint (microSecondsSinceEpoch now) + 100)"
proof -
  have "max d 100 mod 1000000 * 1000 div 1000 = max d 100 mod 1000000" by simp
  moreover have "max d 100 div 1000000 * 1000000 + max d 100 mod 1000000 = max d 100" by simp
  ultimately show ?thesis
    using howMuchTimeFromNow_bounds [of "when" now] assms
    by (simp add: deadline_def kMicroSecondsPerSecond_def d_def)
qed

section \<open>The read handler\<close>

text \<open>
  The queues of the loops in one world, with the readings that the clock will give. The model takes
  a reading for the second \<open>Timestamp::now\<close> of \<open>handleRead\<close> even when no timer is left and
  the code does not call it.
\<close>

record tq_world = chan_heap +
  queues :: "loop_ptr \<rightharpoonup> timer_queue"
  clock :: "nat \<Rightarrow> timestamp"
  timer_seq :: int64

definition read_clock :: "'a tq_world_scheme \<Rightarrow> timestamp \<times> 'a tq_world_scheme" where
  "read_clock w = (clock w 0, w\<lparr>clock := \<lambda>i. clock w (Suc i)\<rparr>)"

definition on_queue ::
    "loop_ptr \<Rightarrow> (timer_queue \<Rightarrow> timer_queue result) \<Rightarrow> 'a tq_world_scheme \<Rightarrow> 'a tq_world_scheme result" where
  "on_queue l f w =
     rbind (deref (queues w) l) (\<lambda>q. rbind (f q) (\<lambda>q'. Inr (w\<lparr>queues := (queues w)(l \<mapsto> q')\<rparr>)))"

text \<open>\<open>delete it.second\<close>\<close>

definition delete_timer :: "timer_ptr \<Rightarrow> timer_queue \<Rightarrow> timer_queue result" where
  "delete_timer p q = rbind (deref (objs q) p) (\<lambda>_. Inr (q\<lparr>objs := (objs q)(p := None)\<rparr>))"

lemma delete_timers:
  "distinct ps \<Longrightarrow> set ps \<subseteq> dom (objs q) \<Longrightarrow>
    rfold delete_timer ps q = Inr (q\<lparr>objs := objs q |` (- set ps)\<rparr>)"
proof (induction ps arbitrary: q)
  case (Cons p ps)
  then obtain t where "objs q p = Some t" by auto
  then have "delete_timer p q = Inr (q\<lparr>objs := (objs q)(p := None)\<rparr>)" by (simp add: delete_timer_def)
  moreover define q1 where "q1 = q\<lparr>objs := (objs q)(p := None)\<rparr>"
  moreover have "rfold delete_timer ps q1 = Inr (q1\<lparr>objs := objs q1 |` (- set ps)\<rparr>)"
    by (rule Cons.IH) (use Cons.prems in \<open>auto simp: q1_def\<close>)
  moreover have "q1\<lparr>objs := objs q1 |` (- set ps)\<rparr> = q\<lparr>objs := objs q |` (- set (p # ps))\<rparr>"
    by (auto simp: q1_def restrict_map_def fun_eq_iff intro!: timer_queue.fold_congs)
  ultimately show ?case by simp
qed (simp add: restrict_map_def)

text \<open>\<open>it.second->run()\<close>\<close>

definition run_timer ::
    "(loop_functor \<Rightarrow> 'a tq_world_scheme \<Rightarrow> 'a tq_world_scheme result) \<Rightarrow> loop_ptr \<Rightarrow> entry \<Rightarrow>
     'a tq_world_scheme \<Rightarrow> 'a tq_world_scheme result" where
  "run_timer exec l e w =
     rbind (deref (queues w) l) (\<lambda>q. rbind (deref (objs q) (snd e)) (\<lambda>t. exec (callback t) w))"

definition TimerQueue_handleRead ::
    "(loop_functor \<Rightarrow> 'a tq_world_scheme \<Rightarrow> 'a tq_world_scheme result) \<Rightarrow> loop_ptr \<Rightarrow>
     'a tq_world_scheme \<Rightarrow> 'a tq_world_scheme result" where
  "TimerQueue_handleRead exec l w =
     (case read_clock w of (now, w) \<Rightarrow>
      rbind (on_queue l (\<lambda>q. Inr (readTimerfd now q)) w) (\<lambda>w.
      rbind (deref (queues w) l) (\<lambda>q.
      rbind (getExpired now q) (\<lambda>(expired, q).
      rbind (rfold (run_timer exec l) expired (w\<lparr>queues := (queues w)(l \<mapsto>
               q\<lparr>cancelingTimers := {}, callingExpiredTimers := True\<rparr>)\<rparr>)) (\<lambda>w.
      rbind (on_queue l (\<lambda>q. Inr (q\<lparr>callingExpiredTimers := False\<rparr>)) w) (\<lambda>w.
      case read_clock w of (now2, w) \<Rightarrow> on_queue l (reset expired now now2) w))))))"

text \<open>\<open>TimerQueue::addTimer\<close>, up to \<open>runInLoop\<close>: \<open>p\<close> is the address that \<open>new\<close> returns.\<close>

definition allocate_timer ::
    "loop_ptr \<Rightarrow> timer_ptr \<Rightarrow> timestamp \<Rightarrow> loop_functor \<Rightarrow> double \<Rightarrow> 'a tq_world_scheme \<Rightarrow>
     'a tq_world_scheme result" where
  "allocate_timer l p when cb iv w =
     rbind (on_queue l (\<lambda>q. Inr (q\<lparr>objs := (objs q)(p \<mapsto> new_Timer when cb iv (timer_seq w))\<rparr>)) w)
       (\<lambda>w'. Inr (w'\<lparr>timer_seq := timer_seq w + 1\<rparr>))"

definition addTimerInLoop_at ::
    "loop_ptr \<Rightarrow> timer_ptr \<Rightarrow> 'a tq_world_scheme \<Rightarrow> 'a tq_world_scheme result" where
  "addTimerInLoop_at l p w = (case read_clock w of (now, w) \<Rightarrow> on_queue l (addTimerInLoop now p) w)"

definition cancelInLoop_at ::
    "loop_ptr \<Rightarrow> timer_id \<Rightarrow> 'a tq_world_scheme \<Rightarrow> 'a tq_world_scheme result" where
  "cancelInLoop_at l timerId w = on_queue l (cancelInLoop timerId) w"

text \<open>
  The loop's queue during the callbacks of the entries \<open>held\<close>, whose timers and callbacks \<open>cbs\<close>
  are those of the moment the handler took them out.
\<close>

definition queue_at ::
    "loop_ptr \<Rightarrow> entry list \<Rightarrow> (timer_ptr \<rightharpoonup> timer) \<Rightarrow> 'a tq_world_scheme \<Rightarrow> bool" where
  "queue_at l held ts w \<longleftrightarrow> (\<exists>q. queues w l = Some q \<and> tq_ok held q \<and>
     (\<forall>e\<in>set held. objs q (snd e) = ts (snd e)))"

lemma run_timers_ok:
  assumes exec: "\<And>f w. f \<in> F \<Longrightarrow> queue_at l held ts w \<Longrightarrow> \<exists>w'. exec f w = Inr w' \<and> queue_at l held ts w'"
    and sub: "set es \<subseteq> set held" and F: "\<And>e t. e \<in> set held \<Longrightarrow> ts (snd e) = Some t \<Longrightarrow> callback t \<in> F"
    and inv: "queue_at l held ts w"
  shows "\<exists>w'. rfold (run_timer exec l) es w = Inr w' \<and> queue_at l held ts w' \<and>
    rfold exec (map (\<lambda>e. callback (the (ts (snd e)))) es) w = Inr w'"
  using sub inv
proof (induction es arbitrary: w)
  case Nil
  then show ?case by simp
next
  case (Cons e es)
  obtain q where q: "queues w l = Some q" "tq_ok held q" "objs q (snd e) = ts (snd e)"
    using Cons.prems by (auto simp: queue_at_def)
  obtain t where t: "objs q (snd e) = Some t" using tq_okD(6) [OF q(2), of e] Cons.prems(1) by auto
  then have "callback t \<in> F" using F [of e t] q(3) Cons.prems(1) by simp
  then obtain w1 where w1: "exec (callback t) w = Inr w1" "queue_at l held ts w1"
    using exec Cons.prems(2) by blast
  obtain w' where "rfold (run_timer exec l) es w1 = Inr w'" "queue_at l held ts w'"
      "rfold exec (map (\<lambda>e. callback (the (ts (snd e)))) es) w1 = Inr w'"
    using Cons.IH [OF _ w1(2)] Cons.prems(1) by auto
  moreover have "run_timer exec l e w = Inr w1" using q(1) t w1(1) by (simp add: run_timer_def)
  moreover have "callback (the (ts (snd e))) = callback t" using q(3) t by (metis option.sel)
  ultimately show ?case using w1(1) by simp
qed

text \<open>The handler, from what \<open>getExpired\<close>, the callbacks and \<open>reset\<close> do.\<close>

lemma handleRead_steps:
  assumes q: "queues w l = Some q" and ex: "getExpired (clock w 0) (readTimerfd (clock w 0) q) = Inr (es, q2)"
    and run: "rfold (run_timer exec l) es (w\<lparr>clock := \<lambda>i. clock w (Suc i), queues := (queues w)(l \<mapsto>
        q2\<lparr>cancelingTimers := {}, callingExpiredTimers := True\<rparr>)\<rparr>) = Inr w4"
    and q4: "queues w4 l = Some q4" "reset es (clock w 0) (clock w4 0) (q4\<lparr>callingExpiredTimers := False\<rparr>) = Inr q7"
  shows "TimerQueue_handleRead exec l w =
    Inr (w4\<lparr>clock := \<lambda>i. clock w4 (Suc i), queues := (queues w4)(l \<mapsto> q7)\<rparr>)"
  using assms by (simp add: TimerQueue_handleRead_def read_clock_def on_queue_def)

lemma readTimerfd_keeps [simp]:
  "tq_ok held (readTimerfd now q) \<longleftrightarrow> tq_ok held q" "schedule (readTimerfd now q) = schedule q"
  "objs (readTimerfd now q) = objs q"
  by (simp_all add: readTimerfd_def tq_ok_def schedule_def fun_eq_iff split: option.split)

lemma handleRead_ok:
  assumes q: "queues w l = Some q" and ok: "tq_ok [] q"
    and exec: "\<And>held ts f w. queue_at l held ts w \<Longrightarrow> \<exists>w'. exec f w = Inr w' \<and> queue_at l held ts w'"
  shows "\<exists>w' q'. TimerQueue_handleRead exec l w = Inr w' \<and> queues w' l = Some q' \<and> tq_ok [] q' \<and>
    \<not> callingExpiredTimers q'"
proof -
  obtain expired q2 where q2: "getExpired (clock w 0) (readTimerfd (clock w 0) q) = Inr (expired, q2)" "tq_ok expired q2"
    using getExpired_ok [of "readTimerfd (clock w 0) q" "clock w 0"] ok by auto
  define w3 where "w3 = w\<lparr>clock := \<lambda>i. clock w (Suc i), queues := (queues w)(l \<mapsto>
      q2\<lparr>cancelingTimers := {}, callingExpiredTimers := True\<rparr>)\<rparr>"
  have "queue_at l expired (objs q2) w3" using q2(2) by (simp add: queue_at_def w3_def tq_ok_def)
  from run_timers_ok [of UNIV l expired "objs q2" exec expired, OF exec _ _ this]
  obtain w4 where w4: "rfold (run_timer exec l) expired w3 = Inr w4" "queue_at l expired (objs q2) w4"
    by auto
  then obtain q4 where q4: "queues w4 l = Some q4" "tq_ok expired q4" by (auto simp: queue_at_def)
  have "tq_ok expired (q4\<lparr>callingExpiredTimers := False\<rparr>)" using q4(2) by (simp add: tq_ok_def)
  then obtain q7 where "reset expired (clock w 0) (clock w4 0) (q4\<lparr>callingExpiredTimers := False\<rparr>) = Inr q7" "tq_ok [] q7"
      "\<not> callingExpiredTimers q7"
    using reset_ok [of expired "q4\<lparr>callingExpiredTimers := False\<rparr>" "clock w 0" "clock w4 0"] by auto
  then show ?thesis using handleRead_steps [OF q q2(1) w4(1) [unfolded w3_def] q4(1)] by auto
qed

section \<open>Histories of a queue\<close>

text \<open>
  What the program can do to a loop's queue in the loop's thread: add a timer at an address that
  \<open>new\<close> can return (another one is no event), cancel any identifier, or let the descriptor's
  handler run. \<open>prog\<close> says what each callback does to the queue.
\<close>

datatype tq_op =
    Op_add timer_ptr timestamp loop_functor double
  | Op_cancel timer_id

fun timer_op :: "loop_ptr \<Rightarrow> tq_op \<Rightarrow> 'a tq_world_scheme \<Rightarrow> 'a tq_world_scheme result" where
  "timer_op l (Op_add p when cb iv) w =
     rbind (deref (queues w) l) (\<lambda>q.
       if objs q p = None \<and> p < UINTPTR_MAX
       then rbind (allocate_timer l p when cb iv w) (addTimerInLoop_at l p)
       else Inr w)"
| "timer_op l (Op_cancel timerId) w = cancelInLoop_at l timerId w"

datatype tq_event = Do tq_op | Fire

fun timer_event ::
    "(loop_functor \<Rightarrow> tq_op list) \<Rightarrow> loop_ptr \<Rightarrow> tq_event \<Rightarrow> 'a tq_world_scheme \<Rightarrow>
     'a tq_world_scheme result" where
  "timer_event prog l (Do x) w = timer_op l x w"
| "timer_event prog l Fire w = TimerQueue_handleRead (\<lambda>f. rfold (timer_op l) (prog f)) l w"

lemma allocate_ok:
  fixes t :: timer
  assumes ok: "tq_ok held q" and "objs q p = None"
  defines "q1 \<equiv> q\<lparr>objs := (objs q)(p \<mapsto> t)\<rparr>"
  shows "tq_ok held q1" and "p \<notin> snd ` set (timers q)" and "p \<notin> snd ` set held"
proof -
  have n: "snd e \<noteq> p" if "e \<in> set (timers q) \<union> set held" for e
    using tq_okD(5,6) [OF ok, of e] that assms(2) by auto
  then show "p \<notin> snd ` set (timers q)" "p \<notin> snd ` set held" by auto
  have "(\<lambda>e. (snd e, sequence (the (objs q (snd e))))) ` set (timers q) =
      (\<lambda>e. (snd e, sequence (the (objs q1 (snd e))))) ` set (timers q)"
    by (rule image_cong) (use n in \<open>auto simp: q1_def\<close>)
  then show "tq_ok held q1"
    using ok n unfolding tq_ok_def by (auto simp: q1_def)
qed

lemma timer_op_ok:
  assumes inv: "queue_at l held ts w"
  shows "\<exists>w'. timer_op l x w = Inr w' \<and> queue_at l held ts w'"
proof -
  obtain q where q: "queues w l = Some q" "tq_ok held q" "\<forall>e\<in>set held. objs q (snd e) = ts (snd e)"
    using inv by (auto simp: queue_at_def)
  show ?thesis
  proof (cases x)
    case (Op_add p x cb iv)
    show ?thesis
    proof (cases "objs q p = None \<and> p < UINTPTR_MAX")
      case False
      then show ?thesis using Op_add q(1) inv by auto
    next
      case True
      define t where "t = new_Timer x cb iv (timer_seq w)"
      define q1 where "q1 = q\<lparr>objs := (objs q)(p \<mapsto> t)\<rparr>"
      note al = allocate_ok(1) [OF q(2) conjunct1 [OF True], of t, folded q1_def]
        allocate_ok(2,3) [OF q(2) conjunct1 [OF True]]
      have "objs q1 p = Some t" "timers q1 = timers q" by (simp_all add: q1_def)
      then obtain q2 where q2: "addTimerInLoop (clock w 0) p q1 = Inr q2" "tq_ok held q2"
          "objs q2 = objs q1"
        using addTimerInLoop_ok [OF al(1), of p t "clock w 0"] al(2,3) True by auto
      have "\<forall>e\<in>set held. objs q2 (snd e) = ts (snd e)"
        using q(3) q2(3) al(3) by (auto simp: q1_def)
      then show ?thesis
        using Op_add True q(1) q2 by (auto simp: allocate_timer_def on_queue_def addTimerInLoop_at_def
            read_clock_def queue_at_def q1_def t_def)
    qed
  next
    case (Op_cancel timerId)
    obtain q' where "cancelInLoop timerId q = Inr q'" "tq_ok held q'"
        "\<forall>p. p \<notin> snd ` set (timers q) \<longrightarrow> objs q' p = objs q p"
      using cancelInLoop_ok [OF q(2)] by blast
    moreover have "snd e \<notin> snd ` set (timers q)" if "e \<in> set held" for e
      using tq_okD(3) [OF q(2)] that by (metis IntI empty_iff image_eqI)
    ultimately show ?thesis
      using Op_cancel q by (auto simp: cancelInLoop_at_def on_queue_def queue_at_def)
  qed
qed

lemma timer_ops_ok:
  "queue_at l held ts w \<Longrightarrow> \<exists>w'. rfold (timer_op l) xs w = Inr w' \<and> queue_at l held ts w'"
  by (rule rfold_total) (auto intro: timer_op_ok)

section \<open>Properties\<close>


definition timer_world :: "timer_queue \<Rightarrow> tq_world" where
  "timer_world q = \<lparr>channels = Map.empty, queues = [0 \<mapsto> q],
     clock = (\<lambda>i. Timestamp (word_of_int (1000000 * int i + 1000000))), timer_seq = 0\<rparr>"


text \<open>
  \<open>getExpired\<close> takes out exactly the timers that expire at or before \<open>now\<close>, ordered by
  expiration; the others stay scheduled, and both sets stay in step.
\<close>

lemma getExpired_exact:
  assumes "tq_ok [] q"
  shows "\<exists>expired q'. getExpired now q = Inr (expired, q') \<and> tq_ok expired q' \<and> sorted expired \<and>
    distinct expired \<and>
    set expired = {(expiration t, p) | p t. schedule q p = Some t \<and> expiration t \<le> now} \<and>
    schedule q' = (\<lambda>p. case schedule q p of
      Some t \<Rightarrow> if expiration t \<le> now then None else Some t | None \<Rightarrow> None)"
  using getExpired_ok [OF assms, of now] unfolding fun_eq_iff by blast

text \<open>A queue with two timers: one repeats every second.\<close>

definition two_timers :: timer_queue where
  "two_timers =
     (let a = new_Timer (Timestamp 2000000) (Fn_user 1) 1 7;
          b = new_Timer (Timestamp 3000000) (Fn_user 2) 0 8 in
      \<lparr>objs = [16 \<mapsto> a, 32 \<mapsto> b], timers = [(Timestamp 2000000, 16), (Timestamp 3000000, 32)],
       activeTimers = {(16, 7), (32, 8)}, cancelingTimers = {}, callingExpiredTimers = False,
       timerfd = Some 2000000\<rparr>)"

lemma two_timers_ok: "tq_ok [] two_timers"
  by (auto simp: tq_ok_def two_timers_def new_Timer_def UINTPTR_MAX_def Let_def less_eq_timestamp_def
      less_timestamp_def less_eq_prod_def)

lemma getExpired_exact_witness:
  "\<exists>expired q'. getExpired (Timestamp 2500000) two_timers = Inr (expired, q') \<and> tq_ok expired q' \<and>
    sorted expired \<and> distinct expired \<and>
    set expired = {(expiration t, p) | p t.
      schedule two_timers p = Some t \<and> expiration t \<le> Timestamp 2500000} \<and>
    schedule q' = (\<lambda>p. case schedule two_timers p of
      Some t \<Rightarrow> if expiration t \<le> Timestamp 2500000 then None else Some t | None \<Rightarrow> None)"
  by (rule getExpired_exact [OF two_timers_ok])

text \<open>Callbacks that leave the queue alone.\<close>

lemma run_timers_keep:
  assumes "queues v l = Some q"
    and "\<forall>e\<in>set es. objs q (snd e) = ts (snd e) \<and> (\<exists>t. ts (snd e) = Some t \<and>
      (\<forall>v. \<exists>v'. exec (callback t) v = Inr v' \<and> queues v' l = queues v l))"
  shows "\<exists>v'. rfold (run_timer exec l) es v = Inr v' \<and> queues v' l = Some q \<and>
    rfold exec (map (\<lambda>e. callback (the (ts (snd e)))) es) v = Inr v'"
  using assms
proof (induction es arbitrary: v)
  case (Cons e es)
  obtain t where t: "ts (snd e) = Some t" "objs q (snd e) = Some t"
      "\<forall>v. \<exists>v'. exec (callback t) v = Inr v' \<and> queues v' l = queues v l"
    using Cons.prems(2) by auto
  obtain v1 where v1: "exec (callback t) v = Inr v1" "queues v1 l = queues v l" using t(3) by blast
  have "run_timer exec l e v = Inr v1" using Cons.prems(1) t(2) v1(1) by (simp add: run_timer_def)
  moreover obtain v' where "rfold (run_timer exec l) es v1 = Inr v'" "queues v' l = Some q"
      "rfold exec (map (\<lambda>e. callback (the (ts (snd e)))) es) v1 = Inr v'"
    using Cons.IH [of v1] Cons.prems v1(2) by auto
  ultimately show ?case using t(1) v1(1) by simp
qed simp

text \<open>
  C22. Timers run when they are due. When the timer descriptor is readable, the handler runs the
  callbacks of exactly the timers that expire at or before the reading of the clock that it takes,
  each once and in the order of their expirations. Afterwards those that repeat are scheduled again
  at that reading plus their interval, those that do not are gone, and the others wait as before. The
  callbacks are any that leave the queue alone; outside the queue and the clock, the handler does what
  they do and nothing else.
\<close>

theorem timers_run_when_due:
  fixes w :: "'a tq_world_scheme"
  assumes q: "queues w l = Some q" "tq_ok [] q"
    and cb: "\<forall>p t v. schedule q p = Some t \<and> expiration t \<le> clock w 0 \<longrightarrow>
      (\<exists>v'. exec (callback t) v = Inr v' \<and> queues v' l = queues v l)"
  shows "\<exists>es q1 w1 q'. sorted es \<and> distinct es \<and>
    set es = {(expiration t, p) | p t. schedule q p = Some t \<and> expiration t \<le> clock w 0} \<and>
    rfold exec (map (\<lambda>e. callback (the (schedule q (snd e)))) es)
      (w\<lparr>clock := \<lambda>i. clock w (Suc i), queues := (queues w)(l \<mapsto> q1)\<rparr>) = Inr w1 \<and>
    TimerQueue_handleRead exec l w = Inr (w1\<lparr>clock := \<lambda>i. clock w1 (Suc i), queues := (queues w1)(l \<mapsto> q')\<rparr>) \<and>
    tq_ok [] q' \<and> (\<forall>p. schedule q' p = (case schedule q p of
       Some t \<Rightarrow> if expiration t \<le> clock w 0
                 then (if repeats t then Some (t\<lparr>expiration := addTime (clock w 0) (interval t)\<rparr>) else None) else Some t
     | None \<Rightarrow> None))"
proof -
  let ?now = "clock w 0"
  obtain es q2 where es: "getExpired ?now (readTimerfd ?now q) = Inr (es, q2)" "tq_ok es q2" "ascending es"
      "set es = {(expiration t, p) | p t. schedule q p = Some t \<and> expiration t \<le> ?now}"
      "\<forall>p. schedule q2 p = (case schedule q p of Some t \<Rightarrow> if expiration t \<le> ?now then None else Some t | None \<Rightarrow> None)"
      "objs q2 = objs q"
    using getExpired_ok [of "readTimerfd ?now q" ?now] q(2) by auto
  define q1 where "q1 = q2\<lparr>cancelingTimers := {}, callingExpiredTimers := True\<rparr>"
  define v where "v = w\<lparr>clock := \<lambda>i. clock w (Suc i), queues := (queues w)(l \<mapsto> q1)\<rparr>"
  have due: "objs q (snd e) = schedule q (snd e) \<and> (\<exists>t. schedule q (snd e) = Some t \<and> expiration t \<le> ?now)"
    if "e \<in> set es" for e
    using that by (auto simp: es(4)) (auto simp: schedule_def split: if_splits)
  have "\<exists>w1. rfold (run_timer exec l) es v = Inr w1 \<and> queues w1 l = Some q1 \<and>
      rfold exec (map (\<lambda>e. callback (the (schedule q (snd e)))) es) v = Inr w1"
  proof (rule run_timers_keep)
    show "\<forall>e\<in>set es. objs q1 (snd e) = schedule q (snd e) \<and> (\<exists>t. schedule q (snd e) = Some t \<and>
        (\<forall>u. \<exists>v'. exec (callback t) u = Inr v' \<and> queues v' l = queues u l))"
      using due cb by (auto simp: q1_def es(6)) blast
  qed (simp add: v_def)
  then obtain w1 where w1: "rfold (run_timer exec l) es v = Inr w1" "queues w1 l = Some q1"
      "rfold exec (map (\<lambda>e. callback (the (schedule q (snd e)))) es) v = Inr w1"
    by blast
  have "tq_ok es (q1\<lparr>callingExpiredTimers := False\<rparr>)" using es(2) by (simp add: q1_def tq_ok_def)
  from reset_ok [OF this, of ?now "clock w1 0"] obtain q' where
      q': "reset es ?now (clock w1 0) (q1\<lparr>callingExpiredTimers := False\<rparr>) = Inr q'" "tq_ok [] q'"
      "\<forall>p. schedule q' p = (if p \<in> snd ` set es then rearmed ?now {} (objs q) p else schedule q2 p)"
    by (auto simp: q1_def es(6) schedule_def)
  have "schedule q' p = (case schedule q p of
       Some t \<Rightarrow> if expiration t \<le> ?now then (if repeats t then Some (t\<lparr>expiration := addTime ?now (interval t)\<rparr>) else None)
                 else Some t
     | None \<Rightarrow> None)" for p
  proof (cases "p \<in> snd ` set es")
    case True
    then obtain e where "e \<in> set es" "snd e = p" by auto
    then show ?thesis using due [of e] True q'(3) by (auto simp: rearmed_def restart_def)
  next
    case False
    then have "\<not> (\<exists>t. schedule q p = Some t \<and> expiration t \<le> ?now)" by (force simp: es(4) image_iff)
    then show ?thesis using False q'(3) es(5) by (auto split: option.splits)
  qed
  moreover have "sorted es" "distinct es" using es(3) by simp_all
  ultimately show ?thesis
    using es(4) w1(3) [unfolded v_def] handleRead_steps [OF q(1) es(1) w1(1) [unfolded v_def q1_def] w1(2) q'(1)] q'(2) by blast
qed

theorem timers_run_when_due_witness:
  "\<exists>w' q'. TimerQueue_handleRead (\<lambda>f w. Inr w) 0 ((timer_world two_timers)\<lparr>clock := \<lambda>_. Timestamp 2500000\<rparr>) = Inr w' \<and>
    queues w' 0 = Some q' \<and> map_option expiration (schedule q' 16) = Some (Timestamp 3500000) \<and>
    map_option expiration (schedule q' 32) = Some (Timestamp 3000000)"
proof -
  let ?w = "(timer_world two_timers)\<lparr>clock := \<lambda>_. Timestamp 2500000\<rparr>"
  have q: "queues ?w 0 = Some two_timers" "clock ?w 0 = Timestamp 2500000" by (simp_all add: timer_world_def)
  have now: "addTime (Timestamp 2500000) 1 = Timestamp 3500000"
    using addTime_half_seconds [of 2 "Timestamp 2500000"] by simp
  obtain w1 q' where w': "TimerQueue_handleRead (\<lambda>f w. Inr w) 0 ?w =
        Inr (w1\<lparr>clock := \<lambda>i. clock w1 (Suc i), queues := (queues w1)(0 \<mapsto> q')\<rparr>)"
      "\<forall>p. schedule q' p = (case schedule two_timers p of
       Some t \<Rightarrow> if expiration t \<le> Timestamp 2500000
         then (if repeats t then Some (t\<lparr>expiration := addTime (Timestamp 2500000) (interval t)\<rparr>) else None) else Some t
     | None \<Rightarrow> None)"
    using timers_run_when_due [OF q(1) two_timers_ok, of "\<lambda>f w. Inr w"] unfolding q(2) by auto
  have "schedule two_timers 16 = Some (new_Timer (Timestamp 2000000) (Fn_user 1) 1 7)"
      "schedule two_timers 32 = Some (new_Timer (Timestamp 3000000) (Fn_user 2) 0 8)"
    by (simp_all add: schedule_def two_timers_def Let_def)
  then have "map_option expiration (schedule q' 16) = Some (Timestamp 3500000)"
      "map_option expiration (schedule q' 32) = Some (Timestamp 3000000)"
    using now by (simp_all add: w'(2) new_Timer_def less_eq_timestamp_def)
  then show ?thesis using w'(1) by auto
qed

text \<open>
  C26. Cancelling removes exactly the scheduled timer with that address and that sequence number.
  A stale identifier, whose address a newer timer has, cancels nothing, and neither does a null
  one. An identifier that names no scheduled timer is remembered while callbacks run.
\<close>

theorem cancel_exact:
  assumes "tq_ok held q"
  shows "\<exists>q'. cancelInLoop (TimerId po seq) q = Inr q' \<and> tq_ok held q' \<and>
    schedule q' = (\<lambda>p. case schedule q p of
      Some t \<Rightarrow> if po = Some p \<and> sequence t = seq then None else Some t | None \<Rightarrow> None) \<and>
    (is_scheduled q (TimerId po seq) \<or> \<not> callingExpiredTimers q \<or>
      (po, seq) \<in> cancelingTimers q')"
proof -
  obtain q' where q': "cancelInLoop (TimerId po seq) q = Inr q'" "tq_ok held q'"
      "schedule q' = (if is_scheduled q (TimerId po seq) then (schedule q)(the po := None) else schedule q)"
      "cancelingTimers q' = (if \<not> is_scheduled q (TimerId po seq) \<and> callingExpiredTimers q
        then insert (po, seq) (cancelingTimers q) else cancelingTimers q)"
    using cancelInLoop_ok [OF assms, of "TimerId po seq"] by auto
  have "schedule q' = (\<lambda>p. case schedule q p of
      Some t \<Rightarrow> if po = Some p \<and> sequence t = seq then None else Some t | None \<Rightarrow> None)"
    unfolding q'(3) by (cases po) (auto simp: is_scheduled_def fun_eq_iff split: option.splits if_splits)
  then show ?thesis using q' by auto
qed

theorem cancel_exact_witness:
  "\<exists>q'. cancelInLoop (TimerId (Some 16) 7) two_timers = Inr q' \<and> tq_ok [] q' \<and>
    schedule q' = (\<lambda>p. case schedule two_timers p of
      Some t \<Rightarrow> if Some 16 = Some p \<and> sequence t = 7 then None else Some t | None \<Rightarrow> None) \<and>
    (is_scheduled two_timers (TimerId (Some 16) 7) \<or> \<not> callingExpiredTimers two_timers \<or>
      (Some 16, 7) \<in> cancelingTimers q')"
  by (rule cancel_exact [OF two_timers_ok])

text \<open>
  C23. After the callbacks, \<open>reset\<close> reschedules exactly the expired timers that repeat and were
  not cancelled meanwhile (so a repeating timer that cancels itself does not run again), each at
  \<open>now\<close> plus its interval and with its identity; it deletes the other expired timers and leaves
  the scheduled ones alone.
\<close>

theorem reset_exact:
  assumes "tq_ok held q"
  shows "\<exists>q'. reset held now now2 q = Inr q' \<and> tq_ok [] q' \<and>
    schedule q' = (\<lambda>p. if p \<in> snd ` set held then
        (case objs q p of
           Some t \<Rightarrow> if repeats t \<and> (Some p, sequence t) \<notin> cancelingTimers q
                     then Some (t\<lparr>expiration := addTime now (interval t)\<rparr>) else None
         | None \<Rightarrow> None)
      else schedule q p)"
proof -
  have "rearmed now (cancelingTimers q) (objs q) p = (case objs q p of
      Some t \<Rightarrow> if repeats t \<and> (Some p, sequence t) \<notin> cancelingTimers q
                then Some (t\<lparr>expiration := addTime now (interval t)\<rparr>) else None
    | None \<Rightarrow> None)" for p
    by (simp add: rearmed_def restart_def split: option.split)
  then show ?thesis using reset_ok [OF assms, of now now2] unfolding fun_eq_iff by metis
qed

definition running_timer :: timer_queue where
  "running_timer = two_timers\<lparr>timers := [(Timestamp 3000000, 32)], activeTimers := {(32, 8)},
     cancelingTimers := {(Some 16, 7)}, callingExpiredTimers := True\<rparr>"

lemma running_timer_ok: "tq_ok [(Timestamp 2000000, 16)] running_timer"
  by (auto simp: tq_ok_def running_timer_def two_timers_def new_Timer_def UINTPTR_MAX_def Let_def)

theorem reset_exact_witness:
  "\<exists>q'. reset [(Timestamp 2000000, 16)] (Timestamp 2500000) (Timestamp 2500001) running_timer = Inr q' \<and>
    tq_ok [] q' \<and>
    schedule q' = (\<lambda>p. if p \<in> snd ` set [(Timestamp 2000000, 16)] then
        (case objs running_timer p of
           Some t \<Rightarrow> if repeats t \<and> (Some p, sequence t) \<notin> cancelingTimers running_timer
                     then Some (t\<lparr>expiration := addTime (Timestamp 2500000) (interval t)\<rparr>) else None
         | None \<Rightarrow> None)
      else schedule running_timer p)"
  by (rule reset_exact [OF running_timer_ok])

text \<open>
  C27. For clock values in range, the \<open>timespec\<close> given to the kernel is valid (its nanoseconds are
  below a second, it is not negative and not zero, which would disarm the timer), and it fires
  exactly at the expiration, or 100 microseconds from now when that is later.
\<close>

theorem timerfd_duration:
  assumes "0 \<le> sint (microSecondsSinceEpoch now)" and "0 \<le> sint (microSecondsSinceEpoch when)"
  shows "0 \<le> sint (tv_sec (howMuchTimeFromNow now when)) \<and>
    0 \<le> sint (tv_nsec (howMuchTimeFromNow now when)) \<and>
    sint (tv_nsec (howMuchTimeFromNow now when)) < 1000000000 \<and>
    \<not> (tv_sec (howMuchTimeFromNow now when) = 0 \<and> tv_nsec (howMuchTimeFromNow now when) = 0) \<and>
    deadline now (howMuchTimeFromNow now when) =
      max (sint (microSecondsSinceEpoch when)) (sint (microSecondsSinceEpoch now) + 100)"
proof -
  define d where "d = sint (microSecondsSinceEpoch when) - sint (microSecondsSinceEpoch now)"
  have b: "- (2 ^ 63) \<le> d" "d < 2 ^ 63"
    using timestamp_lt [of now] timestamp_lt [of "when"] assms by (simp_all add: d_def)
  note ts = howMuchTimeFromNow_bounds [of "when" now, folded d_def, OF b]
  define m where "m = max d 100"
  have m: "0 < m" by (simp add: m_def)
  have nz: "\<not> (m div 1000000 = 0 \<and> m mod 1000000 * 1000 = 0)"
  proof
    assume "m div 1000000 = 0 \<and> m mod 1000000 * 1000 = 0"
    then have "m = 0" using div_mult_mod_eq [of m 1000000] by simp
    then show False using m by simp
  qed
  have nz': "\<not> (tv_sec (howMuchTimeFromNow now when) = 0 \<and> tv_nsec (howMuchTimeFromNow now when) = 0)"
  proof
    assume "tv_sec (howMuchTimeFromNow now when) = 0 \<and> tv_nsec (howMuchTimeFromNow now when) = 0"
    then show False using nz ts by (simp add: m_def)
  qed
  have "m mod 1000000 < 1000000" "0 \<le> m mod 1000000" by simp_all
  then have "0 \<le> m mod 1000000 * 1000" "m mod 1000000 * 1000 < 1000000000" by linarith+
  moreover have "0 \<le> m div 1000000" using m by simp
  moreover have "deadline now (howMuchTimeFromNow now when) =
      max (sint (microSecondsSinceEpoch when)) (sint (microSecondsSinceEpoch now) + 100)"
    by (rule deadline_exact) (use b in \<open>simp_all add: d_def\<close>)
  ultimately show ?thesis using nz' ts by (simp add: m_def [symmetric])
qed

theorem timerfd_duration_witness:
  "0 \<le> sint (tv_sec (howMuchTimeFromNow (Timestamp 5) (Timestamp 2000010))) \<and>
    0 \<le> sint (tv_nsec (howMuchTimeFromNow (Timestamp 5) (Timestamp 2000010))) \<and>
    sint (tv_nsec (howMuchTimeFromNow (Timestamp 5) (Timestamp 2000010))) < 1000000000 \<and>
    \<not> (tv_sec (howMuchTimeFromNow (Timestamp 5) (Timestamp 2000010)) = 0 \<and>
       tv_nsec (howMuchTimeFromNow (Timestamp 5) (Timestamp 2000010)) = 0) \<and>
    deadline (Timestamp 5) (howMuchTimeFromNow (Timestamp 5) (Timestamp 2000010)) =
      max (sint (microSecondsSinceEpoch (Timestamp 2000010))) (sint (microSecondsSinceEpoch (Timestamp 5)) + 100)"
  by (rule timerfd_duration) simp_all

text \<open>No scheduled timer can be slept through: the descriptor fires by its expiration, or by \<open>b\<close>.\<close>

definition armed :: "int \<Rightarrow> timer_queue \<Rightarrow> bool" where
  "armed b q \<longleftrightarrow> (\<forall>p t. schedule q p = Some t \<longrightarrow>
     (\<exists>d. timerfd q = Some d \<and> d \<le> max (sint (microSecondsSinceEpoch (expiration t))) b))"

lemma deadline_valid:
  assumes "0 \<le> sint (microSecondsSinceEpoch now)" and "isValid x"
  shows "deadline now (howMuchTimeFromNow now x) =
    max (sint (microSecondsSinceEpoch x)) (sint (microSecondsSinceEpoch now) + 100)"
proof (rule deadline_exact)
  from timestamp_lt [of x] timestamp_lt [of now] show
    "- (2 ^ 63) \<le> sint (microSecondsSinceEpoch x) - sint (microSecondsSinceEpoch now)"
    "sint (microSecondsSinceEpoch x) - sint (microSecondsSinceEpoch now) < 2 ^ 63"
    using assms by (simp_all add: isValid_def)
qed

lemma armed_subset:
  "armed b q \<Longrightarrow> timerfd q' = timerfd q \<Longrightarrow> (\<And>p t. schedule q' p = Some t \<Longrightarrow> schedule q p = Some t) \<Longrightarrow>
    armed b q'"
  unfolding armed_def by metis

text \<open>
  C25. A timer added in the loop thread cannot be slept through, whether it is the earliest (the
  descriptor is set anew) or not (it is left alone): if the descriptor was set in time for every
  scheduled timer, it is so afterwards, up to the 100 microseconds from now.
\<close>

theorem added_timer_is_armed:
  assumes ok: "tq_ok held q" and t: "objs q p = Some t" and p: "p < UINTPTR_MAX"
    and free: "p \<notin> snd ` set (timers q)" "p \<notin> snd ` set held"
    and valid: "isValid (expiration t)" "0 \<le> sint (microSecondsSinceEpoch now)"
    and armed: "armed b q"
  shows "\<exists>q'. addTimerInLoop now p q = Inr q' \<and> schedule q' = (schedule q)(p \<mapsto> t) \<and>
    armed (max b (sint (microSecondsSinceEpoch now) + 100)) q'"
proof -
  let ?n = "sint (microSecondsSinceEpoch now) + 100"
  obtain q' where q': "addTimerInLoop now p q = Inr q'" "schedule q' = (schedule q)(p \<mapsto> t)"
      "timerfd q' = (if is_earliest q (expiration t)
        then Some (deadline now (howMuchTimeFromNow now (expiration t))) else timerfd q)"
    using addTimerInLoop_ok [OF ok t p free, of now] by blast
  have le: "expiration t \<le> expiration t0 \<longleftrightarrow>
      sint (microSecondsSinceEpoch (expiration t)) \<le> sint (microSecondsSinceEpoch (expiration t0))" for t t0
    by (simp add: less_eq_timestamp_def)
  have "\<exists>d. timerfd q' = Some d \<and> d \<le> max (sint (microSecondsSinceEpoch (expiration t0))) (max b ?n)"
    if s: "schedule q' p0 = Some t0" for p0 t0
  proof (cases "is_earliest q (expiration t)")
    case True
    have "expiration t \<le> expiration t0"
    proof (cases "p0 = p")
      case True
      then show ?thesis using s q'(2) by simp
    next
      case False
      then have "schedule q p0 = Some t0" using s q'(2) by simp
      then have "expiration t < expiration t0"
        using True earliest_iff [OF ok] by (auto simp: is_earliest_def)
      then show ?thesis by (rule less_imp_le)
    qed
    then show ?thesis using q'(3) True deadline_valid [OF valid(2,1)] le [of t t0]
      by (auto simp: max_def)
  next
    case False
    then obtain p1 t1 where e: "schedule q p1 = Some t1" "\<not> expiration t < expiration t1"
      using earliest_iff [OF ok, of "expiration t"] unfolding is_earliest_def by blast
    have fd: "timerfd q' = timerfd q" using q'(3) False by simp
    show ?thesis
    proof (cases "p0 = p")
      case True
      then have "t0 = t" using s q'(2) by simp
      moreover obtain d where "timerfd q = Some d"
          "d \<le> max (sint (microSecondsSinceEpoch (expiration t1))) b"
        using armed e(1) by (auto simp: armed_def)
      ultimately show ?thesis using fd e(2) le [of t1 t] by (auto simp: not_less le_max_iff_disj)
    next
      case False
      then have "schedule q p0 = Some t0" using s q'(2) by simp
      then show ?thesis using armed fd unfolding armed_def by fastforce
    qed
  qed
  then show ?thesis using q'(1,2) by (auto simp: armed_def)
qed

theorem added_timer_is_armed_witness:
  "\<exists>q'. addTimerInLoop (Timestamp 1000000) 48
      (two_timers\<lparr>objs := (objs two_timers)(48 \<mapsto> new_Timer (Timestamp 1500000) (Fn_user 3) 0 9)\<rparr>) = Inr q' \<and>
    schedule q' = (schedule (two_timers\<lparr>objs := (objs two_timers)(48 \<mapsto> new_Timer (Timestamp 1500000)
      (Fn_user 3) 0 9)\<rparr>))(48 \<mapsto> new_Timer (Timestamp 1500000) (Fn_user 3) 0 9) \<and>
    armed (max 0 (sint (microSecondsSinceEpoch (Timestamp 1000000)) + 100)) q'"
proof (rule added_timer_is_armed [where held = "[]"])
  show "tq_ok [] (two_timers\<lparr>objs := (objs two_timers)(48 \<mapsto> new_Timer (Timestamp 1500000) (Fn_user 3) 0 9)\<rparr>)"
    by (rule allocate_ok(1) [OF two_timers_ok]) (simp add: two_timers_def Let_def)
  show "armed 0 (two_timers\<lparr>objs := (objs two_timers)(48 \<mapsto> new_Timer (Timestamp 1500000) (Fn_user 3) 0 9)\<rparr>)"
    by (auto simp: armed_def schedule_def two_timers_def Let_def new_Timer_def split: if_splits)
qed (simp_all add: two_timers_def Let_def UINTPTR_MAX_def new_Timer_def isValid_def)

text \<open>
  C24. When the handler is done with a batch of expired timers, the descriptor is set in time for
  every timer that is scheduled then, however the callbacks and the restarts changed the queue.
\<close>

theorem reset_arms:
  assumes ok: "tq_ok held q" and now: "0 \<le> sint (microSecondsSinceEpoch now2)"
    and scheduled: "\<forall>p t. schedule q p = Some t \<longrightarrow> isValid (expiration t)"
    and restarted: "\<forall>p t. objs q p = Some t \<longrightarrow> repeats t \<longrightarrow> isValid (addTime now (interval t))"
  shows "\<exists>q'. reset held now now2 q = Inr q' \<and> armed (sint (microSecondsSinceEpoch now2) + 100) q'"
proof -
  obtain q' where q': "reset held now now2 q = Inr q'" "tq_ok [] q'"
      "\<forall>p. schedule q' p = (if p \<in> snd ` set held
        then rearmed now (cancelingTimers q) (objs q) p else schedule q p)"
      "timerfd q' = (if timers q' \<noteq> [] \<and> isValid (fst (hd (timers q')))
        then Some (deadline now2 (howMuchTimeFromNow now2 (fst (hd (timers q'))))) else timerfd q)"
    using reset_ok [OF ok, of now now2] by blast
  have valid: "isValid (expiration t)" if "schedule q' p = Some t" for p t
    using that q'(3) scheduled restarted
    by (auto simp: rearmed_def restart_def split: if_splits option.splits)
  have "\<exists>d. timerfd q' = Some d \<and> d \<le> max (sint (microSecondsSinceEpoch (expiration t)))
      (sint (microSecondsSinceEpoch now2) + 100)" if s: "schedule q' p = Some t" for p t
  proof -
    have ne: "timers q' \<noteq> []" using s by (auto simp: schedule_def)
    obtain p1 t1 where e: "schedule q' p1 = Some t1" "expiration t1 = fst (hd (timers q'))"
        "\<And>p0 t0. schedule q' p0 = Some t0 \<Longrightarrow> fst (hd (timers q')) \<le> expiration t0"
      using earliest_entry [OF q'(2) ne] by blast
    have v: "isValid (fst (hd (timers q')))" using valid [OF e(1)] e(2) by simp
    have "sint (microSecondsSinceEpoch (fst (hd (timers q')))) \<le> sint (microSecondsSinceEpoch (expiration t))"
      using e(3) [OF s] by (simp add: less_eq_timestamp_def)
    then show ?thesis using q'(4) ne v deadline_valid [OF now v] by (auto simp: max_def)
  qed
  then show ?thesis using q'(1) by (auto simp: armed_def)
qed

theorem reset_arms_witness:
  "\<exists>q'. reset [(Timestamp 2000000, 16)] (Timestamp 2500000) (Timestamp 2500001)
      (running_timer\<lparr>cancelingTimers := {}\<rparr>) = Inr q' \<and>
    armed (sint (microSecondsSinceEpoch (Timestamp 2500001)) + 100) q'"
proof (rule reset_arms)
  show "tq_ok [(Timestamp 2000000, 16)] (running_timer\<lparr>cancelingTimers := {}\<rparr>)"
    using running_timer_ok by (simp add: tq_ok_def)
  have "addTime (Timestamp 2500000) 1 = Timestamp 3500000"
    using addTime_half_seconds [of 2 "Timestamp 2500000"] by simp
  then show "\<forall>p t. objs (running_timer\<lparr>cancelingTimers := {}\<rparr>) p = Some t \<longrightarrow> repeats t \<longrightarrow>
      isValid (addTime (Timestamp 2500000) (interval t))"
    by (auto simp: running_timer_def two_timers_def new_Timer_def isValid_def Let_def split: if_splits)
  show "\<forall>p t. schedule (running_timer\<lparr>cancelingTimers := {}\<rparr>) p = Some t \<longrightarrow> isValid (expiration t)"
    by (auto simp: schedule_def running_timer_def two_timers_def new_Timer_def isValid_def Let_def
        split: if_splits)
qed simp

end
