(* ===== verification/Event_Loop.thy ===== *)
theory Event_Loop
  imports Epoll_Poller Timer_Queue
begin

text \<open>
  The class \<open>EventLoop\<close> (EventLoop.h, EventLoop.cpp) in a world of loops, channels and timer
  queues. An operation that the code guards with the loop's thread looks at \<open>this_thread\<close>, the
  thread that executes. Running a closure is the argument \<open>exec\<close>: what a functor does belongs to
  the component that made it. Operations that only touch the loop's own members are functions on
  the record \<open>event_loop\<close>.
\<close>

section \<open>The members\<close>

type_synonym thread_id = nat

record event_loop =
  looping :: bool
  quitting :: bool
  threadId :: thread_id
  wakeup_count :: nat
  wakeupChannel :: channel_ptr
  timerChannel :: channel_ptr
  activeChannels :: "channel_ptr list"
  loop_poller :: poller
  callingPendingFunctors :: bool
  pendingFunctors :: "loop_functor list"

text \<open>
  \<open>wakeup\<close> writes 1 to the event descriptor, whose counter the kernel keeps below \<open>2 ^ 64 - 1\<close>
  (the write then fails and is only logged); \<open>handleRead\<close> resets it.
\<close>

definition wakeup :: "event_loop \<Rightarrow> event_loop" where
  "wakeup e = (if wakeup_count e < 2 ^ 64 - 2 then e\<lparr>wakeup_count := wakeup_count e + 1\<rparr> else e)"

definition EventLoop_handleRead :: "event_loop \<Rightarrow> event_loop" where
  "EventLoop_handleRead e = e\<lparr>wakeup_count := 0\<rparr>"

text \<open>\<open>queueInLoop\<close>: the locked block, then the test and the wakeup.\<close>

definition push_functor :: "loop_functor \<Rightarrow> event_loop \<Rightarrow> event_loop" where
  "push_functor f e = e\<lparr>pendingFunctors := pendingFunctors e @ [f]\<rparr>"

definition must_wake :: "bool \<Rightarrow> event_loop \<Rightarrow> bool" where
  "must_wake in_thread e \<longleftrightarrow> \<not> in_thread \<or> callingPendingFunctors e"

definition queue_functor :: "bool \<Rightarrow> loop_functor \<Rightarrow> event_loop \<Rightarrow> event_loop" where
  "queue_functor in_thread f e =
     (let e1 = push_functor f e in if must_wake in_thread e1 then wakeup e1 else e1)"

text \<open>\<open>doPendingFunctors\<close>: the flag and the locked swap; then, after the loop, the flag again.\<close>

definition swap_pending :: "event_loop \<Rightarrow> loop_functor list \<times> event_loop" where
  "swap_pending e =
     (pendingFunctors e, e\<lparr>callingPendingFunctors := True, pendingFunctors := []\<rparr>)"

definition done_pending :: "event_loop \<Rightarrow> event_loop" where
  "done_pending e = e\<lparr>callingPendingFunctors := False\<rparr>"

section \<open>The world of loops\<close>

record loops_world = tq_world +
  loops :: "loop_ptr \<rightharpoonup> event_loop"
  this_thread :: thread_id
  loopInThread :: "thread_id \<rightharpoonup> loop_ptr"

definition on_loop ::
    "loop_ptr \<Rightarrow> (event_loop \<Rightarrow> event_loop) \<Rightarrow> 'a loops_world_scheme \<Rightarrow> 'a loops_world_scheme result" where
  "on_loop l f w = rbind (deref (loops w) l) (\<lambda>e. Inr (w\<lparr>loops := (loops w)(l \<mapsto> f e)\<rparr>))"

definition isInLoopThread :: "loop_ptr \<Rightarrow> 'a loops_world_scheme \<Rightarrow> bool result" where
  "isInLoopThread l w = rbind (deref (loops w) l) (\<lambda>e. Inr (this_thread w = threadId e))"

definition abortNotInThread :: "'b result" where
  [simp]: "abortNotInThread = Inl FatalExit"

definition assertInLoopThread ::
    "loop_ptr \<Rightarrow> 'a loops_world_scheme \<Rightarrow> 'b result \<Rightarrow> 'b result" where
  "assertInLoopThread l w k =
     rbind (isInLoopThread l w) (\<lambda>b. if b then k else abortNotInThread)"

definition queueInLoop ::
    "loop_ptr \<Rightarrow> loop_functor \<Rightarrow> 'a loops_world_scheme \<Rightarrow> 'a loops_world_scheme result" where
  "queueInLoop l f w = rbind (isInLoopThread l w) (\<lambda>b. on_loop l (queue_functor b f) w)"

text \<open>\<open>runInLoop\<close>: the closure is given as a name, to be queued, and as the code to run now.\<close>

definition runInLoop ::
    "loop_ptr \<Rightarrow> loop_functor \<Rightarrow> ('a loops_world_scheme \<Rightarrow> 'a loops_world_scheme result) \<Rightarrow>
     'a loops_world_scheme \<Rightarrow> 'a loops_world_scheme result" where
  "runInLoop l f code w = rbind (isInLoopThread l w) (\<lambda>b. if b then code w else queueInLoop l f w)"

definition quit ::
    "loop_ptr \<Rightarrow> 'a loops_world_scheme \<Rightarrow> 'a loops_world_scheme result" where
  "quit l w =
     rbind (on_loop l (\<lambda>e. e\<lparr>quitting := True\<rparr>) w) (\<lambda>w.
     rbind (isInLoopThread l w) (\<lambda>b. if b then Inr w else on_loop l wakeup w))"

definition with_poller ::
    "loop_ptr \<Rightarrow> (heap \<times> poller \<Rightarrow> (heap \<times> poller) result) \<Rightarrow> 'a loops_world_scheme \<Rightarrow>
     'a loops_world_scheme result" where
  "with_poller l f w =
     rbind (deref (loops w) l) (\<lambda>e.
     rbind (f (channels w, loop_poller e)) (\<lambda>(h, p).
     Inr (w\<lparr>channels := h, loops := (loops w)(l \<mapsto> e\<lparr>loop_poller := p\<rparr>)\<rparr>)))"

definition updateChannel ::
    "loop_ptr \<Rightarrow> channel_ptr \<Rightarrow> 'a loops_world_scheme \<Rightarrow> 'a loops_world_scheme result" where
  "updateChannel l c w =
     assertInLoopThread l w
       (rbind (deref (channels w) c) (\<lambda>ch.
         cpp_assert (ch_loop ch = l) (with_poller l (Poller_updateChannel c) w)))"

definition removeChannel ::
    "loop_ptr \<Rightarrow> channel_ptr \<Rightarrow> 'a loops_world_scheme \<Rightarrow> 'a loops_world_scheme result" where
  "removeChannel l c w =
     assertInLoopThread l w
       (rbind (deref (channels w) c) (\<lambda>ch.
         cpp_assert (ch_loop ch = l) (with_poller l (Poller_removeChannel c) w)))"

text \<open>The members of \<open>Channel\<close> that store a mask and call \<open>update\<close>; \<open>remove\<close>.\<close>

definition change_events ::
    "(channel \<Rightarrow> channel) \<Rightarrow> channel_ptr \<Rightarrow> 'a loops_world_scheme \<Rightarrow> 'a loops_world_scheme result" where
  "change_events f c w =
     rbind (modify_channel c f w) (\<lambda>w.
     rbind (deref (channels w) c) (\<lambda>ch. updateChannel (ch_loop ch) c w))"

definition enableReading ::
    "channel_ptr \<Rightarrow> 'a loops_world_scheme \<Rightarrow> 'a loops_world_scheme result" where
  "enableReading c w = change_events with_reading c w"

definition enableWriting ::
    "channel_ptr \<Rightarrow> 'a loops_world_scheme \<Rightarrow> 'a loops_world_scheme result" where
  "enableWriting c w = change_events with_writing c w"

definition disableWriting ::
    "channel_ptr \<Rightarrow> 'a loops_world_scheme \<Rightarrow> 'a loops_world_scheme result" where
  "disableWriting c w = change_events without_writing c w"

definition disableAll ::
    "channel_ptr \<Rightarrow> 'a loops_world_scheme \<Rightarrow> 'a loops_world_scheme result" where
  "disableAll c w = change_events without_events c w"

definition Channel_remove ::
    "channel_ptr \<Rightarrow> 'a loops_world_scheme \<Rightarrow> 'a loops_world_scheme result" where
  "Channel_remove c w = rbind (deref (channels w) c) (\<lambda>ch. removeChannel (ch_loop ch) c w)"

section \<open>Timers\<close>

text \<open>
  \<open>TimerQueue::addTimer\<close> reads the sequence number of the timer after \<open>runInLoop\<close>, from the object.
  From another thread the loop can already have run and freed the timer by then; what the loop does
  between the two statements is not part of this step.
\<close>

definition addTimer ::
    "loop_ptr \<Rightarrow> timer_ptr \<Rightarrow> timestamp \<Rightarrow> loop_functor \<Rightarrow> double \<Rightarrow> 'a loops_world_scheme \<Rightarrow>
     (timer_id \<times> 'a loops_world_scheme) result" where
  "addTimer l p when cb iv w =
     rbind (allocate_timer l p when cb iv w) (\<lambda>w'.
     rbind (runInLoop l (Fn_addTimerInLoop p)
              (\<lambda>w. assertInLoopThread l w (addTimerInLoop_at l p w)) w') (\<lambda>w''.
     rbind (deref (queues w'') l) (\<lambda>q.
     rbind (deref (objs q) p) (\<lambda>t.
     Inr (TimerId (Some p) (sequence t), w'')))))"

definition runAt ::
    "loop_ptr \<Rightarrow> timer_ptr \<Rightarrow> timestamp \<Rightarrow> loop_functor \<Rightarrow> 'a loops_world_scheme \<Rightarrow>
     (timer_id \<times> 'a loops_world_scheme) result" where
  "runAt l p time cb w = addTimer l p time cb 0 w"

definition runAfter ::
    "loop_ptr \<Rightarrow> timer_ptr \<Rightarrow> double \<Rightarrow> loop_functor \<Rightarrow> 'a loops_world_scheme \<Rightarrow>
     (timer_id \<times> 'a loops_world_scheme) result" where
  "runAfter l p delay cb w = (case read_clock w of (now, w) \<Rightarrow> runAt l p (addTime now delay) cb w)"

definition runEvery ::
    "loop_ptr \<Rightarrow> timer_ptr \<Rightarrow> double \<Rightarrow> loop_functor \<Rightarrow> 'a loops_world_scheme \<Rightarrow>
     (timer_id \<times> 'a loops_world_scheme) result" where
  "runEvery l p iv cb w = (case read_clock w of (now, w) \<Rightarrow> addTimer l p (addTime now iv) cb iv w)"

definition TimerQueue_cancel ::
    "loop_ptr \<Rightarrow> timer_id \<Rightarrow> 'a loops_world_scheme \<Rightarrow> 'a loops_world_scheme result" where
  "TimerQueue_cancel l timerId w =
     runInLoop l (Fn_cancelInLoop timerId)
       (\<lambda>w. assertInLoopThread l w (cancelInLoop_at l timerId w)) w"

definition cancel ::
    "loop_ptr \<Rightarrow> timer_id \<Rightarrow> 'a loops_world_scheme \<Rightarrow> 'a loops_world_scheme result" where
  "cancel l timerId w = TimerQueue_cancel l timerId w"

section \<open>Running\<close>

definition doPendingFunctors ::
    "(loop_functor \<Rightarrow> 'a loops_world_scheme \<Rightarrow> 'a loops_world_scheme result) \<Rightarrow> loop_ptr \<Rightarrow>
     'a loops_world_scheme \<Rightarrow> 'a loops_world_scheme result" where
  "doPendingFunctors exec l w =
     rbind (deref (loops w) l) (\<lambda>e.
       (case swap_pending e of (functors, e') \<Rightarrow>
         rbind (rfold exec functors (w\<lparr>loops := (loops w)(l \<mapsto> e')\<rparr>)) (on_loop l done_pending)))"

text \<open>One turn of \<open>while (!quit_)\<close>; \<open>report\<close> is what the system call of the poller returns.\<close>

definition loop_turn ::
    "('a loops_world_scheme \<Rightarrow> nat \<Rightarrow> bool) \<Rightarrow>
     (channel_callback \<Rightarrow> timestamp \<Rightarrow> 'a loops_world_scheme \<Rightarrow> 'a loops_world_scheme result) \<Rightarrow>
     (loop_functor \<Rightarrow> 'a loops_world_scheme \<Rightarrow> 'a loops_world_scheme result) \<Rightarrow>
     loop_ptr \<Rightarrow> poll_report \<Rightarrow> 'a loops_world_scheme \<Rightarrow> 'a loops_world_scheme result" where
  "loop_turn alive exec_cb exec l report w =
     rbind (deref (loops w) l) (\<lambda>e.
     rbind (Poller_poll report (channels w, loop_poller e)) (\<lambda>(h, p, active).
     (case read_clock (w\<lparr>channels := h,
         loops := (loops w)(l \<mapsto> e\<lparr>loop_poller := p, activeChannels := active\<rparr>)\<rparr>) of (now, w) \<Rightarrow>
      rbind (rfold (handleEvent alive exec_cb now) active w)
        (doPendingFunctors exec l))))"

text \<open>
  \<open>loop\<close>, against the reports of successive polls. The answer says whether it returned; when the
  reports run out first, it is still waiting in the next poll.
\<close>

fun loop_turns ::
    "('a loops_world_scheme \<Rightarrow> poll_report \<Rightarrow> 'a loops_world_scheme result) \<Rightarrow> loop_ptr \<Rightarrow>
     poll_report list \<Rightarrow> 'a loops_world_scheme \<Rightarrow> (bool \<times> 'a loops_world_scheme) result" where
  "loop_turns turn l reports w =
     rbind (deref (loops w) l) (\<lambda>e.
       if quitting e then rbind (on_loop l (\<lambda>e. e\<lparr>looping := False\<rparr>) w) (\<lambda>w. Inr (True, w))
       else (case reports of
               [] \<Rightarrow> Inr (False, w)
             | r # rs \<Rightarrow> rbind (turn w r) (loop_turns turn l rs)))"

definition loop ::
    "('a loops_world_scheme \<Rightarrow> nat \<Rightarrow> bool) \<Rightarrow>
     (channel_callback \<Rightarrow> timestamp \<Rightarrow> 'a loops_world_scheme \<Rightarrow> 'a loops_world_scheme result) \<Rightarrow>
     (loop_functor \<Rightarrow> 'a loops_world_scheme \<Rightarrow> 'a loops_world_scheme result) \<Rightarrow>
     loop_ptr \<Rightarrow> poll_report list \<Rightarrow> 'a loops_world_scheme \<Rightarrow> (bool \<times> 'a loops_world_scheme) result" where
  "loop alive exec_cb exec l reports w =
     rbind (deref (loops w) l) (\<lambda>e.
       cpp_assert (\<not> looping e)
         (assertInLoopThread l w
           (rbind (on_loop l (\<lambda>e. e\<lparr>looping := True, quitting := False\<rparr>) w)
             (loop_turns (\<lambda>w r. loop_turn alive exec_cb exec l r w) l reports))))"

section \<open>Construction\<close>

text \<open>
  The constructor, with the addresses and descriptors of its two channels. The timer queue is
  built before the constructor's body runs and registers its channel with the poller. A descriptor
  that could not be created ends the program (\<open>LOG_FATAL\<close>, \<open>abort\<close>).
\<close>

definition createEventFd :: "int \<Rightarrow> int result" where
  "createEventFd fd = (if fd < 0 then Inl Terminated else Inr fd)"

definition createTimerfd :: "int \<Rightarrow> int result" where
  "createTimerfd fd = (if fd < 0 then Inl FatalExit else Inr fd)"

definition construct_TimerQueue ::
    "loop_ptr \<Rightarrow> channel_ptr \<Rightarrow> int \<Rightarrow> 'a loops_world_scheme \<Rightarrow> 'a loops_world_scheme result" where
  "construct_TimerQueue l ct tfd w =
     rbind (createTimerfd tfd) (\<lambda>_.
     rbind (modify_channel ct (Channel_setReadCallback (Cb_TimerQueue_handleRead l))
         (w\<lparr>queues := (queues w)(l \<mapsto> new_TimerQueue), channels := (channels w)(ct \<mapsto> new_Channel l tfd)\<rparr>))
       (enableReading ct))"

definition new_EventLoop ::
    "bool \<Rightarrow> loop_ptr \<Rightarrow> channel_ptr \<Rightarrow> int \<Rightarrow> channel_ptr \<Rightarrow> int \<Rightarrow> 'a loops_world_scheme \<Rightarrow>
     'a loops_world_scheme result" where
  "new_EventLoop use_poll l ct tfd cw wfd w =
     (let e = \<lparr>looping = False, quitting = False, threadId = this_thread w, wakeup_count = 0,
               wakeupChannel = cw, timerChannel = ct, activeChannels = [],
               loop_poller = newDefaultPoller use_poll, callingPendingFunctors = False,
               pendingFunctors = []\<rparr>;
          wakeup_ch = new_Channel l wfd in
      rbind (createEventFd wfd) (\<lambda>_.
      rbind (construct_TimerQueue l ct tfd
               (w\<lparr>loops := (loops w)(l \<mapsto> e), channels := (channels w)(cw \<mapsto> wakeup_ch)\<rparr>)) (\<lambda>w.
      if loopInThread w (this_thread w) \<noteq> None then Inl FatalExit
      else
        rbind (modify_channel cw (Channel_setReadCallback (Cb_EventLoop_handleRead l))
          (w\<lparr>loopInThread := (loopInThread w)(this_thread w \<mapsto> l)\<rparr>)) (enableReading cw))))"

definition getEventLoopOfCurrentThread :: "'a loops_world_scheme \<Rightarrow> loop_ptr option" where
  "getEventLoopOfCurrentThread w = loopInThread w (this_thread w)"

text \<open>
  The destructor: its assertion, and its release of the thread. Then the members go, in the reverse
  order of their declaration: the timer queue with its timers and its channel, the poller, the wakeup
  channel. The two descriptors are closed.
\<close>

definition delete_TimerQueue ::
    "loop_ptr \<Rightarrow> channel_ptr \<Rightarrow> 'a loops_world_scheme \<Rightarrow> 'a loops_world_scheme result" where
  "delete_TimerQueue l ct w =
     rbind (on_queue l (\<lambda>q. rfold delete_timer (map snd (timers q)) q) w) (\<lambda>w.
     rbind (delete_Channel ct w) (\<lambda>w. Inr (w\<lparr>queues := (queues w)(l := None)\<rparr>)))"

definition delete_EventLoop ::
    "loop_ptr \<Rightarrow> 'a loops_world_scheme \<Rightarrow> 'a loops_world_scheme result" where
  "delete_EventLoop l w =
     rbind (deref (loops w) l) (\<lambda>e.
       cpp_assert (\<not> looping e)
         (rbind (delete_TimerQueue l (timerChannel e)
             (w\<lparr>loopInThread := (loopInThread w)(this_thread w := None)\<rparr>)) (\<lambda>w.
          rbind (delete_Channel (wakeupChannel e) w) (\<lambda>w.
          Inr (w\<lparr>loops := (loops w)(l := None)\<rparr>)))))"

section \<open>Channels of a loop that uses epoll\<close>

definition epoll_loop ::
    "loop_ptr \<Rightarrow> event_loop \<Rightarrow> epoll_poller \<Rightarrow> 'a loops_world_scheme \<Rightarrow> bool" where
  "epoll_loop l e p w \<longleftrightarrow> loops w l = Some e \<and> loop_poller e = Epoll p \<and>
     threadId e = this_thread w \<and> epoll_ok l (channels w, p)"

definition store_channel ::
    "loop_ptr \<Rightarrow> event_loop \<Rightarrow> epoll_poller \<Rightarrow> channel_ptr \<Rightarrow> channel \<Rightarrow> 'a loops_world_scheme \<Rightarrow>
     'a loops_world_scheme" where
  "store_channel l e p c ch w = w\<lparr>channels := (channels w)(c \<mapsto> ch),
     loops := (loops w)(l \<mapsto> e\<lparr>loop_poller := Epoll p\<rparr>)\<rparr>"

lemma store_channel_simps [simp]:
  "channels (store_channel l e p c ch w) = (channels w)(c \<mapsto> ch)"
  "loops (store_channel l e p c ch w) = (loops w)(l \<mapsto> e\<lparr>loop_poller := Epoll p\<rparr>)"
  "this_thread (store_channel l e p c ch w) = this_thread w"
  "loopInThread (store_channel l e p c ch w) = loopInThread w"
  "queues (store_channel l e p c ch w) = queues w"
  by (simp_all add: store_channel_def)

text \<open>The \<open>enable\<close> and \<open>disable\<close> members: \<open>ev\<close> is the mask that \<open>f\<close> stores.\<close>

lemma change_events_ok:
  assumes lp: "epoll_loop l e p w" and ch: "channels w c = Some ch" "ch_loop ch = l"
    and f: "f ch = ch\<lparr>events := ev\<rparr>"
    and fresh: "index ch = kNew \<Longrightarrow> ep_channels p (ch_fd ch) = None"
  defines "i \<equiv> (if index ch = kAdded \<and> ev = 0 then kDeleted else kAdded)"
  shows "\<exists>p'. change_events f c w = Inr (store_channel l e p' c (ch\<lparr>events := ev, index := i\<rparr>) w) \<and>
    epoll_loop l (e\<lparr>loop_poller := Epoll p'\<rparr>) p' (store_channel l e p' c (ch\<lparr>events := ev, index := i\<rparr>) w) \<and>
    ep_channels p' = (ep_channels p)(ch_fd ch \<mapsto> c) \<and>
    epoll_watch ((channels w)(c \<mapsto> ch\<lparr>events := ev, index := i\<rparr>)) p' =
      (epoll_watch (channels w) p)(ch_fd ch := (if i = kAdded then Some (ev, c) else None))"
proof -
  have l: "loops w l = Some e" "loop_poller e = Epoll p" "threadId e = this_thread w"
      "epoll_ok l (channels w, p)"
    using lp by (simp_all add: epoll_loop_def)
  obtain p' where p': "epoll_updateChannel c ((channels w)(c \<mapsto> ch\<lparr>events := ev\<rparr>), p) =
        Inr ((channels w)(c \<mapsto> ch\<lparr>events := ev, index := i\<rparr>), p')"
      "epoll_ok l ((channels w)(c \<mapsto> ch\<lparr>events := ev, index := i\<rparr>), p')"
      "ep_channels p' = (ep_channels p)(ch_fd ch \<mapsto> c)"
      "epoll_watch ((channels w)(c \<mapsto> ch\<lparr>events := ev, index := i\<rparr>)) p' =
        (epoll_watch (channels w) p)(ch_fd ch := (if i = kAdded then Some (ev, c) else None))"
    using epoll_update_ok [OF l(4) ch fresh, of ev, folded i_def] ch(1)
    by (auto simp: store_events_Some)
  have "change_events f c w = Inr (store_channel l e p' c (ch\<lparr>events := ev, index := i\<rparr>) w)"
    using l ch f p'(1)
    by (simp add: change_events_def modify_channel_def updateChannel_def assertInLoopThread_def
        isInLoopThread_def with_poller_def store_channel_def)
  then show ?thesis using p' l by (auto simp: epoll_loop_def)
qed

lemma Channel_remove_ok:
  assumes lp: "epoll_loop l e p w" and ch: "channels w c = Some ch" "ch_loop ch = l"
    and reg: "ep_channels p (ch_fd ch) = Some c" and none: "events ch = 0"
  shows "\<exists>p'. Channel_remove c w = Inr (store_channel l e p' c (ch\<lparr>index := kNew\<rparr>) w) \<and>
    epoll_loop l (e\<lparr>loop_poller := Epoll p'\<rparr>) p' (store_channel l e p' c (ch\<lparr>index := kNew\<rparr>) w) \<and>
    ep_channels p' = (ep_channels p)(ch_fd ch := None) \<and>
    epoll_watch ((channels w)(c \<mapsto> ch\<lparr>index := kNew\<rparr>)) p' =
      (epoll_watch (channels w) p)(ch_fd ch := None)"
proof -
  have l: "loops w l = Some e" "loop_poller e = Epoll p" "threadId e = this_thread w"
      "epoll_ok l (channels w, p)"
    using lp by (simp_all add: epoll_loop_def)
  obtain p' where p': "epoll_removeChannel c (channels w, p) =
        Inr ((channels w)(c \<mapsto> ch\<lparr>index := kNew\<rparr>), p')"
      "epoll_ok l ((channels w)(c \<mapsto> ch\<lparr>index := kNew\<rparr>), p')"
      "ep_channels p' = (ep_channels p)(ch_fd ch := None)"
      "epoll_watch ((channels w)(c \<mapsto> ch\<lparr>index := kNew\<rparr>)) p' =
        (epoll_watch (channels w) p)(ch_fd ch := None)"
    using epoll_remove_ok [OF l(4) ch reg none] by auto
  have "Channel_remove c w = Inr (store_channel l e p' c (ch\<lparr>index := kNew\<rparr>) w)"
    using l ch p'(1)
    by (simp add: Channel_remove_def removeChannel_def assertInLoopThread_def isInLoopThread_def
        with_poller_def store_channel_def)
  then show ?thesis using p' l by (auto simp: epoll_loop_def)
qed

text \<open>Registering a channel for reading that the poller does not know yet.\<close>

lemma enableReading_new:
  assumes lp: "epoll_loop l e p w" and ch: "channels w c = Some ch" "ch_loop ch = l"
    and new: "index ch = kNew" "events ch = 0" "ep_channels p (ch_fd ch) = None"
  defines "ch' \<equiv> ch\<lparr>events := kReadEvent, index := kAdded\<rparr>"
  shows "\<exists>p'. enableReading c w = Inr (store_channel l e p' c ch' w) \<and>
    epoll_loop l (e\<lparr>loop_poller := Epoll p'\<rparr>) p' (store_channel l e p' c ch' w) \<and>
    ep_channels p' = (ep_channels p)(ch_fd ch \<mapsto> c) \<and>
    epoll_watch ((channels w)(c \<mapsto> ch')) p' = (epoll_watch (channels w) p)(ch_fd ch \<mapsto> (kReadEvent, c))"
proof -
  have f: "with_reading ch = ch\<lparr>events := kReadEvent\<rparr>" using new(2) by (simp add: with_reading_def)
  have "(if index ch = kAdded \<and> kReadEvent = 0 then kDeleted else kAdded) = kAdded"
    using new(1) by (simp add: index_values)
  then show ?thesis
    using change_events_ok [where f = with_reading, OF lp ch f new(3)]
    unfolding ch'_def enableReading_def by simp
qed

lemma epoll_loop_new_channel:
  assumes lp: "epoll_loop l e p w" and new: "channels w c = None" and i: "index ch = kNew"
  shows "epoll_watch ((channels w)(c \<mapsto> ch)) p = epoll_watch (channels w) p"
    and "epoll_ok l ((channels w)(c \<mapsto> ch), p)"
proof -
  have ok: "epoll_ok l (channels w, p)" using lp by (simp add: epoll_loop_def)
  have old: "ep_channels p fd \<noteq> Some c" for fd
    using epoll_okD(1) [OF ok, of fd c] new by auto
  then show eq: "epoll_watch ((channels w)(c \<mapsto> ch)) p = epoll_watch (channels w) p"
    by (auto simp: epoll_watch_def fun_eq_iff split: option.splits)
  show "epoll_ok l ((channels w)(c \<mapsto> ch), p)"
    using ok old i unfolding epoll_ok_def by (auto simp: eq)
qed

lemma epoll_ok_same:
  assumes ok: "epoll_ok l (h, p)" and ch: "h c = Some ch"
    and same: "index ch' = index ch" "events ch' = events ch" "ch_loop ch' = ch_loop ch" "ch_fd ch' = ch_fd ch"
  shows "epoll_ok l (h(c \<mapsto> ch'), p)"
proof -
  have "epoll_watch (h(c \<mapsto> ch')) p = epoll_watch h p"
    using ch same by (auto simp: epoll_watch_def fun_eq_iff split: option.splits)
  then show ?thesis using ok ch same by (fastforce simp: epoll_ok_def)
qed

section \<open>Properties\<close>

lemma nonzero_empty: "nonzero_watch Map.empty = Map.empty"
  by (simp add: nonzero_watch_def fun_eq_iff)

lemma kernel_watch_epoll_loop:
  "epoll_loop l e p w \<Longrightarrow> kernel_watch p = Some (nonzero_watch (epoll_watch (channels w) p))"
  using epoll_okD(3) by (fastforce simp: epoll_loop_def kernel_watch_def)

text \<open>
  C33. Constructing a loop in a thread that has none succeeds: both of its channels are registered,
  so that the kernel watches the timer descriptor and the wakeup descriptor for reading, their
  callbacks are installed, and the thread's loop is the new one.
\<close>

theorem new_loop_listens:
  assumes fresh: "\<forall>c ch. channels w c = Some ch \<longrightarrow> ch_loop ch \<noteq> l" and ne: "ct \<noteq> cw"
    and fds: "0 \<le> tfd" "0 \<le> wfd" "tfd \<noteq> wfd" and thread: "loopInThread w (this_thread w) = None"
  shows "\<exists>w' e p. new_EventLoop False l ct tfd cw wfd w = Inr w' \<and> epoll_loop l e p w' \<and>
    kernel_watch p = Some [tfd \<mapsto> kReadEvent, wfd \<mapsto> kReadEvent] \<and>
    map_option readCallback (channels w' ct) = Some (Some (Cb_TimerQueue_handleRead l)) \<and>
    map_option readCallback (channels w' cw) = Some (Some (Cb_EventLoop_handleRead l)) \<and>
    getEventLoopOfCurrentThread w' = Some l"
proof -
  define e where "e = \<lparr>looping = False, quitting = False, threadId = this_thread w, wakeup_count = 0,
     wakeupChannel = cw, timerChannel = ct, activeChannels = [], loop_poller = Epoll new_EpollPoller,
     callingPendingFunctors = False, pendingFunctors = []\<rparr>"
  define tch where "tch = (new_Channel l tfd)\<lparr>readCallback := Some (Cb_TimerQueue_handleRead l)\<rparr>"
  define wch where "wch = (new_Channel l wfd)\<lparr>readCallback := Some (Cb_EventLoop_handleRead l)\<rparr>"
  define w0 where "w0 = w\<lparr>loops := (loops w)(l \<mapsto> e), queues := (queues w)(l \<mapsto> new_TimerQueue),
     channels := (channels w)(cw \<mapsto> new_Channel l wfd, ct \<mapsto> tch)\<rparr>"
  have lp0: "epoll_loop l e new_EpollPoller w0"
    using fresh by (auto simp: epoll_loop_def epoll_ok_def w0_def e_def new_EpollPoller_def
        epoll_watch_def index_values new_Channel_def tch_def)
  have t: "channels w0 ct = Some tch" "ch_loop tch = l" "index tch = kNew" "events tch = 0"
      "ep_channels new_EpollPoller (ch_fd tch) = None" "ch_fd tch = tfd"
    by (simp_all add: w0_def tch_def new_Channel_def new_EpollPoller_def index_values)
  define tch' where "tch' = tch\<lparr>events := kReadEvent, index := kAdded\<rparr>"
  have none: "ep_channels new_EpollPoller = Map.empty" "epoll_watch (channels w0) new_EpollPoller = Map.empty"
    by (auto simp: new_EpollPoller_def epoll_watch_def)
  obtain p1 where p1: "enableReading ct w0 = Inr (store_channel l e p1 ct tch' w0)"
      "epoll_loop l (e\<lparr>loop_poller := Epoll p1\<rparr>) p1 (store_channel l e p1 ct tch' w0)"
      "ep_channels p1 = [tfd \<mapsto> ct]"
      "epoll_watch ((channels w0)(ct \<mapsto> tch')) p1 = [tfd \<mapsto> (kReadEvent, ct)]"
    using enableReading_new [OF lp0 t(1-5)] unfolding tch'_def [symmetric] none t(6) by blast
  define w1 where "w1 = store_channel l e p1 ct tch' w0"
  define w2 where "w2 = w1\<lparr>loopInThread := (loopInThread w1)(this_thread w1 \<mapsto> l),
    channels := (channels w1)(cw \<mapsto> wch)\<rparr>"
  have cw1: "channels w1 cw = Some (new_Channel l wfd)" using ne by (simp add: w1_def w0_def)
  have "epoll_ok l (channels w1, p1)" using p1(2) by (simp add: epoll_loop_def w1_def)
  from epoll_ok_same [OF this cw1, of wch] have ok2: "epoll_ok l (channels w2, p1)"
    by (simp add: w2_def wch_def)
  then have lp2: "epoll_loop l (e\<lparr>loop_poller := Epoll p1\<rparr>) p1 w2"
    using p1(2) by (simp add: epoll_loop_def w2_def w1_def)
  have c: "channels w2 cw = Some wch" "ch_loop wch = l" "index wch = kNew" "events wch = 0"
      "ep_channels p1 (ch_fd wch) = None" "ch_fd wch = wfd"
    using fds(3) p1(3) by (simp_all add: w2_def wch_def new_Channel_def index_values)
  have watch2: "epoll_watch (channels w2) p1 = [tfd \<mapsto> (kReadEvent, ct)]"
    using ne by (auto simp: epoll_watch_def fun_eq_iff p1(3) w2_def w1_def tch'_def)
  define wch' where "wch' = wch\<lparr>events := kReadEvent, index := kAdded\<rparr>"
  obtain p3 where p3: "enableReading cw w2 =
        Inr (store_channel l (e\<lparr>loop_poller := Epoll p1\<rparr>) p3 cw wch' w2)"
      "epoll_loop l (e\<lparr>loop_poller := Epoll p3\<rparr>) p3
        (store_channel l (e\<lparr>loop_poller := Epoll p1\<rparr>) p3 cw wch' w2)"
      "epoll_watch ((channels w2)(cw \<mapsto> wch')) p3 = [tfd \<mapsto> (kReadEvent, ct), wfd \<mapsto> (kReadEvent, cw)]"
    using enableReading_new [OF lp2 c(1-5)] unfolding wch'_def [symmetric] watch2 c(6) by auto
  define w3 where "w3 = store_channel l (e\<lparr>loop_poller := Epoll p1\<rparr>) p3 cw wch' w2"
  have "new_EventLoop False l ct tfd cw wfd w = Inr w3"
    using fds thread p1(1) p3(1) ne
    by (simp add: new_EventLoop_def construct_TimerQueue_def createEventFd_def createTimerfd_def newDefaultPoller_def
        e_def [symmetric] tch_def [symmetric] w0_def [symmetric] w1_def [symmetric] modify_channel_def)
      (simp add: w1_def w0_def w2_def w3_def wch_def)
  moreover have "kernel_watch p3 = Some [tfd \<mapsto> kReadEvent, wfd \<mapsto> kReadEvent]"
    using kernel_watch_epoll_loop [OF p3(2)] by (simp add: p3(3) nonzero_empty event_masks)
  ultimately show ?thesis
    using p3(2) ne by (auto simp: w3_def tch'_def tch_def wch'_def wch_def
        getEventLoopOfCurrentThread_def w2_def w1_def w0_def)
qed

definition empty_world :: loops_world where
  "empty_world = \<lparr>channels = Map.empty, queues = Map.empty,
     clock = (\<lambda>i. Timestamp (word_of_int (1000000 * int i + 1000000))), timer_seq = 0,
     loops = Map.empty, this_thread = 1, loopInThread = Map.empty\<rparr>"

theorem new_loop_listens_witness:
  "\<exists>w' e p. new_EventLoop False 0 10 3 11 4 empty_world = Inr w' \<and> epoll_loop 0 e p w' \<and>
    kernel_watch p = Some [3 \<mapsto> kReadEvent, 4 \<mapsto> kReadEvent] \<and>
    map_option readCallback (channels w' 10) = Some (Some (Cb_TimerQueue_handleRead 0)) \<and>
    map_option readCallback (channels w' 11) = Some (Some (Cb_EventLoop_handleRead 0)) \<and>
    getEventLoopOfCurrentThread w' = Some 0"
  by (rule new_loop_listens) (simp_all add: empty_world_def)

declare loop_turns.simps [simp del]

lemma loop_turns_quit:
  "loops w l = Some e \<Longrightarrow> quitting e \<Longrightarrow>
    loop_turns turn l reports w = Inr (True, w\<lparr>loops := (loops w)(l \<mapsto> e\<lparr>looping := False\<rparr>)\<rparr>)"
  by (subst loop_turns.simps) (simp add: on_loop_def)

lemma loop_turns_go:
  "loops w l = Some e \<Longrightarrow> \<not> quitting e \<Longrightarrow> loop_turns turn l [] w = Inr (False, w)"
  "loops w l = Some e \<Longrightarrow> \<not> quitting e \<Longrightarrow> turn w r = Inr w' \<Longrightarrow>
    loop_turns turn l (r # rs) w = loop_turns turn l rs w'"
  by (subst loop_turns.simps; simp)+

text \<open>A run of turns: the worlds before each turn and the reports that start it.\<close>

fun turns_run ::
    "('a loops_world_scheme \<Rightarrow> poll_report \<Rightarrow> 'a loops_world_scheme result) \<Rightarrow> loop_ptr \<Rightarrow>
     'a loops_world_scheme \<Rightarrow> poll_report list \<Rightarrow> 'a loops_world_scheme \<Rightarrow> bool" where
  "turns_run turn l w [] w' \<longleftrightarrow> w = w'"
| "turns_run turn l w (r # rs) w' \<longleftrightarrow>
     (\<exists>e w1. loops w l = Some e \<and> \<not> quitting e \<and> turn w r = Inr w1 \<and> turns_run turn l w1 rs w')"

lemma loop_turns_run:
  "turns_run turn l w rs w' \<Longrightarrow> loop_turns turn l (rs @ rest) w = loop_turns turn l rest w'"
proof (induction rs arbitrary: w)
  case (Cons r rs)
  then obtain e w1 where "loops w l = Some e" "\<not> quitting e" "turn w r = Inr w1"
      "turns_run turn l w1 rs w'"
    by auto
  then show ?case using Cons.IH [of w1] by (simp add: loop_turns_go)
qed simp

text \<open>
  C18. \<open>loop\<close> returns exactly after the turn in which somebody called \<open>quit\<close>: that turn's
  remaining callbacks and queued functors have run, no further poll is made, and the loop is no
  longer looping.
\<close>

theorem loop_returns_after_quit:
  fixes w w' :: "'a loops_world_scheme"
  assumes start: "loops w l = Some e" "\<not> looping e" "threadId e = this_thread w"
    and run: "turns_run (\<lambda>w r. loop_turn alive exec_cb exec l r w) l
        (w\<lparr>loops := (loops w)(l \<mapsto> e\<lparr>looping := True, quitting := False\<rparr>)\<rparr>) rs w'"
    and quit: "loops w' l = Some e'" "quitting e'"
  shows "loop alive exec_cb exec l (rs @ rest) w =
    Inr (True, w'\<lparr>loops := (loops w')(l \<mapsto> e'\<lparr>looping := False\<rparr>)\<rparr>)"
  using start loop_turns_run [OF run, of rest] loop_turns_quit [OF quit]
  by (simp add: loop_def assertInLoopThread_def isInLoopThread_def on_loop_def)

text \<open>A loop of thread 1 that has been built, with a functor waiting that quits it.\<close>

definition quit_functor :: "loop_functor \<Rightarrow> loops_world \<Rightarrow> loops_world result" where
  "quit_functor f w = quit 0 w"

definition small_loop :: event_loop where
  "small_loop = \<lparr>looping = False, quitting = False, threadId = 1, wakeup_count = 0,
     wakeupChannel = 11, timerChannel = 10, activeChannels = [], loop_poller = Epoll new_EpollPoller,
     callingPendingFunctors = False, pendingFunctors = [Fn_user 1]\<rparr>"

definition small_world :: loops_world where
  "small_world = empty_world\<lparr>loops := [0 \<mapsto> small_loop]\<rparr>"

definition after_turn :: loops_world where
  "after_turn = small_world\<lparr>clock := (\<lambda>i. clock small_world (Suc i)),
     loops := [0 \<mapsto> small_loop\<lparr>looping := True, quitting := True, pendingFunctors := []\<rparr>]\<rparr>"

theorem loop_returns_after_quit_witness:
  "loop (\<lambda>_ _. True) (\<lambda>cb now w. Inr w) quit_functor 0 ([Epoll_report []] @ [Epoll_report []]) small_world =
    Inr (True, after_turn\<lparr>loops := (loops after_turn)(0 \<mapsto>
      (small_loop\<lparr>looping := True, quitting := True, pendingFunctors := []\<rparr>)\<lparr>looping := False\<rparr>)\<rparr>)"
proof (rule loop_returns_after_quit)
  have turn: "loop_turn (\<lambda>_ _. True) (\<lambda>cb now w. Inr w) quit_functor 0 (Epoll_report [])
      (small_world\<lparr>loops := (loops small_world)(0 \<mapsto> small_loop\<lparr>looping := True, quitting := False\<rparr>)\<rparr>) =
    Inr after_turn"
    by (simp add: loop_turn_def small_world_def small_loop_def empty_world_def epoll_poll_def
        read_clock_def doPendingFunctors_def swap_pending_def quit_functor_def quit_def on_loop_def
        isInLoopThread_def done_pending_def after_turn_def)
  show "turns_run (\<lambda>w r. loop_turn (\<lambda>_ _. True) (\<lambda>cb now w. Inr w) quit_functor 0 r w) 0
      (small_world\<lparr>loops := (loops small_world)(0 \<mapsto> small_loop\<lparr>looping := True, quitting := False\<rparr>)\<rparr>)
      [Epoll_report []] after_turn"
    using turn by (simp add: small_world_def)
qed (simp_all add: small_world_def small_loop_def empty_world_def after_turn_def)

text \<open>
  C40. A \<open>quit\<close> that comes before \<open>loop\<close> starts is forgotten, from whichever thread: \<open>loop\<close>
  clears the flag, and then waits in its first poll.
\<close>

theorem early_quit_is_lost:
  assumes "loops w l = Some e" and "\<not> looping e" and "quit l w = Inr w1"
  shows "\<exists>w2 e2. loop alive exec_cb exec l [] (w1\<lparr>this_thread := threadId e\<rparr>) = Inr (False, w2) \<and> loops w2 l = Some e2 \<and>
    looping e2 \<and> \<not> quitting e2"
proof -
  define e1 where "e1 = (if this_thread w = threadId e then e\<lparr>quitting := True\<rparr>
    else wakeup (e\<lparr>quitting := True\<rparr>))"
  have "quit l w = Inr (w\<lparr>loops := (loops w)(l \<mapsto> e1)\<rparr>)"
    using assms(1) by (simp add: quit_def on_loop_def isInLoopThread_def e1_def)
  then have w1: "w1 = w\<lparr>loops := (loops w)(l \<mapsto> e1)\<rparr>" using assms(3) by simp
  have "loops (w1\<lparr>this_thread := threadId e\<rparr>) l = Some e1" by (simp add: w1)
  moreover have "\<not> looping e1" "threadId e1 = threadId e"
    using assms(2) by (simp_all add: e1_def wakeup_def)
  ultimately show ?thesis
    by (simp add: loop_def assertInLoopThread_def isInLoopThread_def on_loop_def loop_turns_go)
qed

theorem early_quit_is_lost_witness:
  "\<exists>w2 e2. loop (\<lambda>_ _. True) (\<lambda>cb now w. Inr w) quit_functor 0 []
      (small_world\<lparr>loops := [0 \<mapsto> small_loop\<lparr>quitting := True\<rparr>], this_thread := threadId small_loop\<rparr>) =
        Inr (False, w2) \<and>
    loops w2 0 = Some e2 \<and> looping e2 \<and> \<not> quitting e2"
proof -
  have "quit 0 small_world = Inr (small_world\<lparr>loops := [0 \<mapsto> small_loop\<lparr>quitting := True\<rparr>]\<rparr>)"
    by (simp add: small_world_def small_loop_def empty_world_def quit_def on_loop_def isInLoopThread_def)
  from early_quit_is_lost [OF _ _ this, of small_loop] show ?thesis
    by (simp add: small_world_def small_loop_def)
qed

end
