(* ===== verification/Loop_Concurrency.thy ===== *)
theory Loop_Concurrency
  imports Event_Loop
begin

text \<open>
  One loop and any number of other threads, interleaved at the points where the code gives up
  atomicity: the locked blocks of \<open>queueInLoop\<close> and \<open>doPendingFunctors\<close>, the writes and reads
  of the event descriptor, the flag \<open>quit_\<close>. The steps are the functions of Event_Loop. The logs
  of queued and of executed functors are there to state what happens to each.
\<close>

section \<open>Steps\<close>

text \<open>Where the loop's thread is; \<open>Running fs\<close> has the functors still to call.\<close>

datatype phase = Polling | Handling | Running "loop_functor list" | Stopped

record conc =
  c_loop :: event_loop
  phase :: phase
  in_flight :: nat
  quit_flight :: nat
  queued_log :: "loop_functor list"
  executed :: "loop_functor list"

text \<open>
  \<open>in_flight\<close> counts the threads between their push and their \<open>wakeup\<close>, \<open>quit_flight\<close> those
  between storing \<open>quit_\<close> and their \<open>wakeup\<close>. A poll may return for any reason; it cannot block
  while the event descriptor is readable.
\<close>

inductive conc_step :: "conc \<Rightarrow> conc \<Rightarrow> bool" where
  other_push: "conc_step s (s\<lparr>c_loop := push_functor f (c_loop s), in_flight := in_flight s + 1,
      queued_log := queued_log s @ [f]\<rparr>)"
| other_wakeup: "in_flight s = Suc n \<Longrightarrow> must_wake False (c_loop s) \<Longrightarrow>
    conc_step s (s\<lparr>c_loop := wakeup (c_loop s), in_flight := n\<rparr>)"
| other_quit: "conc_step s (s\<lparr>c_loop := (c_loop s)\<lparr>quitting := True\<rparr>,
      quit_flight := quit_flight s + 1\<rparr>)"
| other_quit_wakeup: "quit_flight s = Suc n \<Longrightarrow>
    conc_step s (s\<lparr>c_loop := wakeup (c_loop s), quit_flight := n\<rparr>)"
| poll_returns: "phase s = Polling \<Longrightarrow> conc_step s (s\<lparr>phase := Handling\<rparr>)"
| read_wakeup: "phase s = Handling \<Longrightarrow>
    conc_step s (s\<lparr>c_loop := EventLoop_handleRead (c_loop s)\<rparr>)"
| own_queue: "phase s = Handling \<or> phase s = Running fs \<Longrightarrow>
    conc_step s (s\<lparr>c_loop := queue_functor True f (c_loop s), queued_log := queued_log s @ [f]\<rparr>)"
| own_quit: "phase s = Handling \<or> phase s = Running fs \<Longrightarrow>
    conc_step s (s\<lparr>c_loop := (c_loop s)\<lparr>quitting := True\<rparr>\<rparr>)"
| swap: "phase s = Handling \<Longrightarrow> swap_pending (c_loop s) = (fs, e) \<Longrightarrow>
    conc_step s (s\<lparr>c_loop := e, phase := Running fs\<rparr>)"
| call: "phase s = Running (f # fs) \<Longrightarrow>
    conc_step s (s\<lparr>phase := Running fs, executed := executed s @ [f]\<rparr>)"
| finish: "phase s = Running [] \<Longrightarrow>
    conc_step s (s\<lparr>c_loop := done_pending (c_loop s),
      phase := (if quitting (c_loop s) then Stopped else Polling)\<rparr>)"

inductive_cases conc_stepE: "conc_step s s'"

definition conc_init :: "conc \<Rightarrow> bool" where
  "conc_init s \<longleftrightarrow> phase s = Polling \<and> pendingFunctors (c_loop s) = [] \<and>
     \<not> callingPendingFunctors (c_loop s) \<and> \<not> quitting (c_loop s) \<and>
     in_flight s = 0 \<and> quit_flight s = 0 \<and> queued_log s = [] \<and> executed s = []"

inductive reachable :: "conc \<Rightarrow> bool" where
  init: "conc_init s \<Longrightarrow> reachable s"
| step: "reachable s \<Longrightarrow> conc_step s s' \<Longrightarrow> reachable s'"

section \<open>The invariant\<close>

fun still_to_call :: "phase \<Rightarrow> loop_functor list" where
  "still_to_call (Running fs) = fs"
| "still_to_call _ = []"

fun calling :: "phase \<Rightarrow> bool" where
  "calling (Running fs) = True"
| "calling _ = False"

definition conc_inv :: "conc \<Rightarrow> bool" where
  "conc_inv s \<longleftrightarrow>
     callingPendingFunctors (c_loop s) = calling (phase s) \<and>
     executed s @ still_to_call (phase s) @ pendingFunctors (c_loop s) = queued_log s \<and>
     (phase s = Polling \<or> calling (phase s) \<longrightarrow> pendingFunctors (c_loop s) \<noteq> [] \<longrightarrow>
        0 < wakeup_count (c_loop s) \<or> 0 < in_flight s) \<and>
     (phase s = Polling \<longrightarrow> quitting (c_loop s) \<longrightarrow>
        0 < wakeup_count (c_loop s) \<or> 0 < quit_flight s)"

lemma wakeup_simps [simp]:
  "0 < wakeup_count (wakeup e)"
  "pendingFunctors (wakeup e) = pendingFunctors e"
  "callingPendingFunctors (wakeup e) = callingPendingFunctors e"
  "quitting (wakeup e) = quitting e"
  by (simp_all add: wakeup_def)

lemmas loop_steps = push_functor_def queue_functor_def must_wake_def EventLoop_handleRead_def
  swap_pending_def done_pending_def

lemma conc_inv_init: "conc_init s \<Longrightarrow> conc_inv s"
  by (simp add: conc_init_def conc_inv_def)

lemma conc_inv_step:
  assumes "conc_step s s'" and "conc_inv s"
  shows "conc_inv s'"
  using assms
proof (induction rule: conc_step.induct)
  case (own_queue s fs f)
  then show ?case by (auto simp: conc_inv_def loop_steps Let_def)
next
  case (own_quit s fs)
  then show ?case by (auto simp: conc_inv_def)
next
  case (swap s fs e)
  then show ?case by (auto simp: conc_inv_def loop_steps)
qed (auto simp: conc_inv_def loop_steps)

lemma reachable_inv: "reachable s \<Longrightarrow> conc_inv s"
  by (induction rule: reachable.induct) (auto intro: conc_inv_init conc_inv_step)

section \<open>Properties\<close>

text \<open>
  C7. Functors are called in the order in which they were queued, by whichever threads, each at
  most once: at any moment those already called, those taken for this turn and those still in the
  queue are together the history of \<open>queueInLoop\<close> calls, in order.
\<close>

theorem functors_fifo_once:
  assumes "reachable s"
  shows "executed s @ still_to_call (phase s) @ pendingFunctors (c_loop s) = queued_log s"
  using reachable_inv [OF assms] by (simp add: conc_inv_def)

text \<open>
  C6. No wakeup is lost: whenever the loop can block in its poll (the event descriptor is not
  readable) and no other thread is between its push, or its \<open>quit\<close>, and its wakeup, every functor
  queued so far has been called and nobody has asked the loop to quit.
\<close>

theorem no_lost_wakeup:
  assumes "reachable s" and "phase s = Polling" and "wakeup_count (c_loop s) = 0"
    and "in_flight s = 0" and "quit_flight s = 0"
  shows "executed s = queued_log s \<and> \<not> quitting (c_loop s)"
  using reachable_inv [OF assms(1)] assms(2-5) by (auto simp: conc_inv_def)

text \<open>A run: another thread queues a functor and wakes the loop, which calls it and polls again.\<close>

definition quiet :: conc where
  "quiet = \<lparr>c_loop = small_loop\<lparr>pendingFunctors := []\<rparr>, phase = Polling, in_flight = 0,
     quit_flight = 0, queued_log = [], executed = []\<rparr>"

definition served :: conc where
  "served = quiet\<lparr>queued_log := [Fn_user 1], executed := [Fn_user 1]\<rparr>"

lemma served_reachable: "reachable served"
proof -
  define q where "q = c_loop quiet"
  define a where "a = quiet\<lparr>c_loop := q\<lparr>pendingFunctors := [Fn_user 1]\<rparr>, in_flight := 1,
    queued_log := [Fn_user 1]\<rparr>"
  define b where "b = a\<lparr>c_loop := q\<lparr>pendingFunctors := [Fn_user 1], wakeup_count := 1\<rparr>, in_flight := 0\<rparr>"
  define c where "c = b\<lparr>phase := Handling\<rparr>"
  define d where "d = c\<lparr>c_loop := q\<lparr>pendingFunctors := [Fn_user 1]\<rparr>\<rparr>"
  define e where "e = d\<lparr>c_loop := q\<lparr>callingPendingFunctors := True\<rparr>, phase := Running [Fn_user 1]\<rparr>"
  define f where "f = e\<lparr>phase := Running [], executed := [Fn_user 1]\<rparr>"
  note defs = quiet_def q_def a_def b_def c_def d_def e_def f_def small_loop_def loop_steps
    wakeup_def served_def
  have "reachable quiet" by (rule reachable.init) (simp add: conc_init_def defs)
  moreover have "conc_step quiet a" using other_push [of quiet "Fn_user 1"] by (simp add: defs)
  moreover have "conc_step a b" using other_wakeup [of a 0] by (simp add: defs)
  moreover have "conc_step b c" using poll_returns [of b] by (simp add: defs)
  moreover have "conc_step c d" using read_wakeup [of c] by (simp add: defs)
  moreover have "conc_step d e" using swap [of d] by (simp add: defs)
  moreover have "conc_step e f" using call [of e] by (simp add: defs)
  moreover have "conc_step f served" using finish [of f] by (simp add: defs)
  ultimately show ?thesis by (meson reachable.step)
qed

theorem functors_fifo_once_witness:
  "executed served @ still_to_call (phase served) @ pendingFunctors (c_loop served) = queued_log served"
  by (rule functors_fifo_once [OF served_reachable])

theorem no_lost_wakeup_witness:
  "executed served = queued_log served \<and> \<not> quitting (c_loop served)"
  by (rule no_lost_wakeup [OF served_reachable]) (simp_all add: served_def quiet_def small_loop_def)

end
