(* ===== verification/Byte_Queue.thy ===== *)
theory Byte_Queue
  imports Muduo_Prelude
begin

text \<open>
  The interface through which the codec and the connection use a buffer: a queue of bytes that
  can be appended to, looked at, and retrieved from the front. The laws are what a client relies
  on; \<open>append\<close> is allowed to fail, \<open>peek\<close> and \<open>retrieve\<close> within the readable bytes are
  not. Clients' lemmas are proved here once, over the interface.
\<close>

locale byte_queue =
  fixes valid :: "'b \<Rightarrow> bool"
    and bytes :: "'b \<Rightarrow> byte list"
    and readable :: "'b \<Rightarrow> size_t"
    and put :: "byte list \<Rightarrow> 'b \<Rightarrow> 'b result"
    and look :: "size_t \<Rightarrow> 'b \<Rightarrow> byte list result"
    and skip :: "size_t \<Rightarrow> 'b \<Rightarrow> 'b result"
  assumes readable_len: "valid b \<Longrightarrow> unat (readable b) = length (bytes b)"
    and put_valid: "valid b \<Longrightarrow> put d b = Inr b' \<Longrightarrow> valid b'"
    and put_bytes: "valid b \<Longrightarrow> put d b = Inr b' \<Longrightarrow> bytes b' = bytes b @ d"
    and look_front: "valid b \<Longrightarrow> unat n \<le> length (bytes b) \<Longrightarrow> look n b = Inr (take (unat n) (bytes b))"
    and skip_front: "valid b \<Longrightarrow> unat n \<le> length (bytes b) \<Longrightarrow>
      \<exists>b'. skip n b = Inr b' \<and> valid b' \<and> bytes b' = drop (unat n) (bytes b)"
    and skip_past: "valid b \<Longrightarrow> length (bytes b) < unat n \<Longrightarrow> skip n b = Inl AssertFailed"
begin

lemma length_lt_64:
  assumes "valid b"
  shows "length (bytes b) < 2 ^ 64"
proof -
  have "unat (readable b) < 2 ^ LENGTH(64)" by (rule unsigned_less)
  then show ?thesis using readable_len [OF assms] by simp
qed

lemma skip_InrD:
  assumes "valid b" and "skip n b = Inr b'"
  shows "valid b'" and "bytes b' = drop (unat n) (bytes b)" and "unat n \<le> length (bytes b)"
proof -
  show le: "unat n \<le> length (bytes b)"
    using assms skip_past [OF assms(1), of n] by (cases "unat n \<le> length (bytes b)") auto
  show "valid b'" "bytes b' = drop (unat n) (bytes b)"
    using skip_front [OF assms(1) le] assms(2) by auto
qed

text \<open>Taking a header of known size off the front, then a body: what a framing client does.\<close>

lemma take_frame:
  assumes "valid b" and "bytes b = h @ m @ rest"
    and "unat k = length h" and "unat n = length m"
  obtains b1 b2 where "skip k b = Inr b1" "look n b1 = Inr m" "skip n b1 = Inr b2"
    "valid b2" "bytes b2 = rest"
proof -
  from skip_front [OF assms(1), of k] assms obtain b1 where
    b1: "skip k b = Inr b1" "valid b1" "bytes b1 = m @ rest" by auto
  from skip_front [OF b1(2), of n] assms b1 obtain b2 where
    b2: "skip n b1 = Inr b2" "valid b2" "bytes b2 = rest" by auto
  have "look n b1 = Inr m" using look_front [OF b1(2), of n] b1(3) assms(4) by simp
  then show thesis using that b1 b2 by blast
qed

text \<open>Appending in pieces is appending the concatenation, wherever it succeeds.\<close>

lemma put_all:
  assumes "valid b" and "rfold put ds b = Inr b'"
  shows "valid b' \<and> bytes b' = bytes b @ concat ds"
  using assms
proof (induction ds arbitrary: b)
  case Nil
  then show ?case by simp
next
  case (Cons d ds)
  from Cons.prems(2) obtain b1 where b1: "put d b = Inr b1" "rfold put ds b1 = Inr b'"
    by (auto simp: rbind_Inr_iff)
  show ?case
    using Cons.IH [OF put_valid [OF Cons.prems(1) b1(1)] b1(2)]
      put_bytes [OF Cons.prems(1) b1(1)] by simp
qed

end

end
