(* ===== verification/Buffers.thy ===== *)
theory Buffers
  imports Byte_Queue
begin

text \<open>
  The class \<open>Buffer\<close> of Buffer.h and Buffer.cpp: a byte vector with a read and a write
  index. Indices and sizes are \<open>size_t\<close>, so the differences computed by
  \<open>readableBytes\<close> and \<open>writableBytes\<close> wrap around when an index is past its bound. The
  window \<open>contents\<close> is the abstraction: the bytes between the two indices. The theory shows
  what every operation does to the window, and exactly when the growing path of
  \<open>makeSpace\<close> succeeds. A member \<open>name_\<close> of the source is the field \<open>name\<close> here
  (Isabelle refuses a trailing underscore); \<open>buffer_\<close> is \<open>buf\<close>.
\<close>

section \<open>Data and operations\<close>

definition kCheapPrepend :: size_t where "kCheapPrepend = 8"
definition kInitialSize :: size_t where "kInitialSize = 1024"

record buffer =
  buf :: "byte list"
  readIndex :: size_t
  writeIndex :: size_t

definition new_Buffer :: buffer where
  "new_Buffer = \<lparr>buf = replicate (unat (kCheapPrepend + kInitialSize)) 0,
     readIndex = kCheapPrepend, writeIndex = kCheapPrepend\<rparr>"

definition readableBytes :: "buffer \<Rightarrow> size_t" where
  "readableBytes b = writeIndex b - readIndex b"

definition writableBytes :: "buffer \<Rightarrow> size_t" where
  "writableBytes b = vec_size (buf b) - writeIndex b"

definition prependableBytes :: "buffer \<Rightarrow> size_t" where
  "prependableBytes b = readIndex b"

text \<open>Reading \<open>n\<close> bytes through the pointer that \<open>peek()\<close> returns.\<close>

definition peek_bytes :: "size_t \<Rightarrow> buffer \<Rightarrow> byte list result" where
  "peek_bytes n b = vec_read (buf b) (readIndex b) n"

definition hasWritten :: "size_t \<Rightarrow> buffer \<Rightarrow> buffer" where
  "hasWritten len b = b\<lparr>writeIndex := writeIndex b + len\<rparr>"

definition makeSpace :: "size_t \<Rightarrow> buffer \<Rightarrow> buffer result" where
  "makeSpace len b =
     (if len + kCheapPrepend > writableBytes b + prependableBytes b
      then rbind (vec_resize (writableBytes b + len) (buf b)) (\<lambda>v.
        Inr (b\<lparr>buf := v\<rparr>))
      else cpp_assert (kCheapPrepend < readIndex b)
        (let readable = readableBytes b in
         rbind (vec_read (buf b) (readIndex b) readable) (\<lambda>d.
         rbind (vec_write (buf b) kCheapPrepend d) (\<lambda>v.
         let b' = b\<lparr>buf := v, readIndex := kCheapPrepend,
                     writeIndex := kCheapPrepend + readable\<rparr> in
         cpp_assert (readable = readableBytes b') (Inr b')))))"

definition ensureWritable :: "size_t \<Rightarrow> buffer \<Rightarrow> buffer result" where
  "ensureWritable len b =
     rbind (if writableBytes b < len then makeSpace len b else Inr b) (\<lambda>b'.
     cpp_assert (writableBytes b' \<ge> len) (Inr b'))"

definition append_bytes :: "byte list \<Rightarrow> buffer \<Rightarrow> buffer result" where
  "append_bytes d b =
     rbind (ensureWritable (vec_size d) b) (\<lambda>b1.
     rbind (vec_write (buf b1) (writeIndex b1) d) (\<lambda>v.
     Inr (hasWritten (vec_size d) (b1\<lparr>buf := v\<rparr>))))"

definition retrieve :: "size_t \<Rightarrow> buffer \<Rightarrow> buffer result" where
  "retrieve len b =
     cpp_assert (len \<le> readableBytes b) (Inr (b\<lparr>readIndex := readIndex b + len\<rparr>))"

definition retrieveAll :: "buffer \<Rightarrow> buffer" where
  "retrieveAll b = b\<lparr>readIndex := kCheapPrepend, writeIndex := kCheapPrepend\<rparr>"

definition retrieveAsString :: "buffer \<Rightarrow> (byte list \<times> buffer) result" where
  "retrieveAsString b =
     rbind (peek_bytes (readableBytes b) b) (\<lambda>str. Inr (str, retrieveAll b))"

definition prepend :: "byte list \<Rightarrow> buffer \<Rightarrow> buffer result" where
  "prepend d b =
     cpp_assert (vec_size d \<le> prependableBytes b)
       (let i = readIndex b - vec_size d in
        rbind (vec_write (buf b) i d) (\<lambda>v.
        Inr (b\<lparr>buf := v, readIndex := i\<rparr>)))"

text \<open>\<open>shrink\<close> swaps in a new vector and leaves both indices as they are.\<close>

definition shrink :: "size_t \<Rightarrow> buffer \<Rightarrow> buffer result" where
  "shrink reserve b =
     rbind (vec_resize (kCheapPrepend + readableBytes b + reserve) []) (\<lambda>fresh.
     rbind (peek_bytes (readableBytes b) b) (\<lambda>d.
     rbind (vec_write fresh kCheapPrepend d) (\<lambda>v.
     Inr (b\<lparr>buf := v\<rparr>))))"

text \<open>
  \<open>readFd\<close>: \<open>readv(2)\<close> fills the writable part of the vector, then a stack buffer of
  65536 bytes. Its outcome is an argument: an errno, or the bytes it read. The result pairs the
  buffer with the returned count and the saved errno.
\<close>

definition extrabuf_size :: nat where "extrabuf_size = 65536"

definition readFd :: "int + byte list \<Rightarrow> buffer \<Rightarrow> (buffer \<times> int \<times> int option) result" where
  "readFd rv b =
     (case rv of
        Inl errno \<Rightarrow> Inr (b, -1, Some errno)
      | Inr d \<Rightarrow>
          (let writable = writableBytes b; n = vec_size d in
           rbind
             (if n \<le> writable
              then rbind (vec_write (buf b) (writeIndex b) d) (\<lambda>v.
                Inr (b\<lparr>buf := v, writeIndex := writeIndex b + n\<rparr>))
              else rbind (vec_write (buf b) (writeIndex b) (take (unat writable) d)) (\<lambda>v.
                append_bytes (drop (unat writable) d)
                  (b\<lparr>buf := v, writeIndex := vec_size v\<rparr>)))
             (\<lambda>b'. Inr (b', int (length d), None))))"

section \<open>The window and the invariant\<close>

definition contents :: "buffer \<Rightarrow> byte list" where
  "contents b =
     take (unat (writeIndex b) - unat (readIndex b)) (drop (unat (readIndex b)) (buf b))"

definition buffer_ok :: "buffer \<Rightarrow> bool" where
  "buffer_ok b \<longleftrightarrow>
     unat (readIndex b) \<le> unat (writeIndex b) \<and>
     unat (writeIndex b) \<le> length (buf b) \<and>
     length (buf b) < 2 ^ 63"

lemma unat_kCheapPrepend [simp]: "unat kCheapPrepend = 8"
  by (simp add: kCheapPrepend_def)

lemma unat_kInitialSize [simp]: "unat kInitialSize = 1024"
  by (simp add: kInitialSize_def)

lemma buffer_okD:
  assumes "buffer_ok b"
  shows "unat (readIndex b) \<le> unat (writeIndex b)"
    and "unat (writeIndex b) \<le> length (buf b)"
    and "length (buf b) < 2 ^ 63"
    and "length (contents b) = unat (writeIndex b) - unat (readIndex b)"
    and "unat (readableBytes b) = length (contents b)"
    and "unat (writableBytes b) = length (buf b) - unat (writeIndex b)"
  using assms
  by (auto simp: buffer_ok_def contents_def readableBytes_def writableBytes_def unat_arith_64)

lemma new_Buffer_ok: "buffer_ok new_Buffer" "contents new_Buffer = []"
  by (simp_all add: buffer_ok_def contents_def new_Buffer_def kCheapPrepend_def kInitialSize_def)

lemma length_new_Buffer [simp]: "length (buf new_Buffer) = 1032"
  by (simp add: new_Buffer_def kCheapPrepend_def kInitialSize_def)

lemma new_Buffer_indices [simp]:
  "readIndex new_Buffer = 8" "writeIndex new_Buffer = 8"
  by (simp_all add: new_Buffer_def kCheapPrepend_def)

section \<open>Growing and appending\<close>

lemma write_window:
  assumes ok: "buffer_ok b" and fits: "unat (writeIndex b) + length d \<le> length (buf b)"
  defines "b' \<equiv> hasWritten (vec_size d)
    (b\<lparr>buf := take (unat (writeIndex b)) (buf b) @ d @
      drop (unat (writeIndex b) + length d) (buf b)\<rparr>)"
  shows "buffer_ok b'" and "contents b' = contents b @ d" and "length (buf b') = length (buf b)"
proof -
  note bounds = buffer_okD(1-3) [OF ok]
  have w: "unat (writeIndex b') = unat (writeIndex b) + length d"
    using fits bounds unfolding b'_def hasWritten_def by (simp add: unat_arith_64)
  show len: "length (buf b') = length (buf b)"
    using fits unfolding b'_def hasWritten_def by simp
  show "buffer_ok b'"
    using w len fits bounds unfolding buffer_ok_def by (simp add: b'_def hasWritten_def)
  show "contents b' = contents b @ d"
    using w fits bounds unfolding contents_def
    by (simp add: b'_def hasWritten_def drop_take)
qed

lemma append_in_place:
  assumes ok: "buffer_ok b" and fits: "unat (writeIndex b) + length d \<le> length (buf b)"
  shows "append_bytes d b = Inr (hasWritten (vec_size d)
    (b\<lparr>buf := take (unat (writeIndex b)) (buf b) @ d @
      drop (unat (writeIndex b) + length d) (buf b)\<rparr>))"
proof -
  note bounds = buffer_okD(1-3) [OF ok]
  have "unat (vec_size d) = length d" using fits bounds by (simp add: unat_vec_size)
  then have "vec_size d \<le> writableBytes b"
    using fits buffer_okD(6) [OF ok] by (simp add: unat_arith_64)
  moreover from this have "\<not> writableBytes b < vec_size d" by simp
  ultimately show ?thesis
    using fits by (simp add: append_bytes_def ensureWritable_def vec_write_def)
qed

lemma makeSpace_cond:
  assumes ok: "buffer_ok b" and small: "length (buf b) + unat len < 2 ^ 63"
  shows "len + kCheapPrepend > writableBytes b + prependableBytes b \<longleftrightarrow>
    length (contents b) + unat len + 8 > length (buf b)"
proof -
  note bounds = buffer_okD(1-3,6) [OF ok] buffer_okD(4) [OF ok]
  have "unat (len + kCheapPrepend) = unat len + 8"
    using small by (simp add: unat_add_64)
  moreover have "unat (writableBytes b + prependableBytes b) =
      length (buf b) - unat (writeIndex b) + unat (readIndex b)"
    using bounds by (simp add: unat_add_64 prependableBytes_def)
  ultimately show ?thesis
    using bounds by (auto simp: word_less_nat_alt)
qed

text \<open>The compacting branch: the window moves to the front and nothing is lost.\<close>

lemma makeSpace_move:
  assumes ok: "buffer_ok b" and small: "length (buf b) + unat len < 2 ^ 63"
    and room: "length (contents b) + unat len + 8 \<le> length (buf b)"
    and full: "writableBytes b < len"
  obtains b' where "makeSpace len b = Inr b'" "buffer_ok b'" "contents b' = contents b"
    "length (buf b') = length (buf b)" "unat (writeIndex b') = 8 + length (contents b)"
    "readIndex b' = kCheapPrepend"
proof
  note bounds = buffer_okD(1-3,6) [OF ok] buffer_okD(4,5) [OF ok]
  let ?c = "contents b"
  let ?b = "\<lparr>buf = take 8 (buf b) @ ?c @ drop (8 + length ?c) (buf b),
    readIndex = kCheapPrepend, writeIndex = kCheapPrepend + readableBytes b\<rparr>"
  have r8: "8 < unat (readIndex b)"
    using full room bounds by (simp add: word_less_nat_alt)
  have read: "vec_read (buf b) (readIndex b) (readableBytes b) = Inr ?c"
    using bounds by (simp add: vec_read_def contents_def)
  have wrote: "vec_write (buf b) kCheapPrepend ?c = Inr (buf ?b)"
    using room by (simp add: vec_write_def)
  have "kCheapPrepend + readableBytes b - kCheapPrepend = readableBytes b" by simp
  then show "makeSpace len b = Inr ?b"
    using makeSpace_cond [OF ok small] room r8 read wrote
    by (simp add: makeSpace_def Let_def readableBytes_def word_less_nat_alt)
  have w: "unat (kCheapPrepend + readableBytes b) = 8 + length ?c"
    using bounds room by (simp add: unat_add_64)
  then show "unat (writeIndex ?b) = 8 + length ?c" by simp
  show "length (buf ?b) = length (buf b)" using room by simp
  then show "buffer_ok ?b" using w room bounds by (simp add: buffer_ok_def) arith
  show "contents ?b = ?c" using w room by (subst contents_def) simp
qed simp

lemma makeSpace_resize:
  assumes ok: "buffer_ok b" and small: "length (buf b) + unat len < 2 ^ 63"
    and room: "length (contents b) + unat len + 8 > length (buf b)"
  defines "n \<equiv> length (buf b) - unat (writeIndex b) + unat len"
  shows "makeSpace len b =
    Inr (b\<lparr>buf := take n (buf b) @ replicate (n - length (buf b)) 0\<rparr>)"
proof -
  note bounds = buffer_okD(1-3,6) [OF ok]
  have "unat (writableBytes b + len) = n"
    using bounds small by (simp add: unat_add_64 n_def)
  moreover have "n < 2 ^ 63" using bounds small by (simp add: n_def)
  ultimately show ?thesis
    using makeSpace_cond [OF ok small] room by (simp add: makeSpace_def vec_resize_def)
qed

text \<open>
  The exact outcome of \<open>append\<close>. It succeeds when the tail has room, when the free space
  in front and behind suffices (compaction), or when the vector is at least twice as long as the
  write index: \<open>makeSpace\<close> resizes to \<open>writableBytes() + len\<close>, which leaves room for
  \<open>len\<close> bytes after the write index only in that case. Otherwise the assertion of
  \<open>ensureWritable\<close> fails or, when the resize cut the vector below the write index, the
  wrapped-around \<open>writableBytes()\<close> passes it and the copy runs past the storage.
\<close>

definition append_room :: "nat \<Rightarrow> buffer \<Rightarrow> bool" where
  "append_room k b \<longleftrightarrow>
     unat (writeIndex b) + k \<le> length (buf b) \<or>
     length (contents b) + k + 8 \<le> length (buf b) \<or>
     2 * unat (writeIndex b) \<le> length (buf b)"

lemma append_succeeds:
  assumes ok: "buffer_ok b" and small: "length (buf b) + length d < 2 ^ 63"
    and room: "append_room (length d) b"
  shows "\<exists>b'. append_bytes d b = Inr b' \<and> buffer_ok b' \<and> contents b' = contents b @ d \<and>
    length (buf b') \<ge> min (length (buf b)) (length (contents b) + length d + 8)"
proof (cases "unat (writeIndex b) + length d \<le> length (buf b)")
  case True
  then show ?thesis
    using append_in_place [OF ok True] write_window [OF ok True] by auto
next
  case False
  note bounds = buffer_okD(1-3,6) [OF ok] buffer_okD(4,5) [OF ok]
  have vd: "unat (vec_size d) = length d" using small by (simp add: unat_vec_size)
  have full: "writableBytes b < vec_size d"
    using False bounds vd by (simp add: word_less_nat_alt)
  have small': "length (buf b) + unat (vec_size d) < 2 ^ 63" using small vd by simp
  have step: "append_bytes d b = append_bytes d b1"
    if "makeSpace (vec_size d) b = Inr b1" "vec_size d \<le> writableBytes b1" for b1
    using that full leD [OF that(2)] by (simp add: append_bytes_def ensureWritable_def)
  show ?thesis
  proof (cases "length (contents b) + length d + 8 \<le> length (buf b)")
    case True
    obtain b1 where b1: "makeSpace (vec_size d) b = Inr b1" "buffer_ok b1"
        "contents b1 = contents b" "length (buf b1) = length (buf b)"
        "unat (writeIndex b1) = 8 + length (contents b)"
      using makeSpace_move [OF ok small' _ full] True vd by metis
    have fits: "unat (writeIndex b1) + length d \<le> length (buf b1)" using b1 True by simp
    moreover have "vec_size d \<le> writableBytes b1"
      using b1 fits buffer_okD(6) [of b1] vd by (simp add: word_le_nat_alt)
    ultimately show ?thesis
      using step [OF b1(1)] append_in_place [OF b1(2) fits] write_window [OF b1(2) fits] b1
      by auto
  next
    case notmove: False
    define n where "n = length (buf b) - unat (writeIndex b) + length d"
    define b1 where "b1 = b\<lparr>buf := take n (buf b) @ replicate (n - length (buf b)) 0\<rparr>"
    have dbl: "2 * unat (writeIndex b) \<le> length (buf b)"
      using room False notmove by (simp add: append_room_def)
    have n: "unat (writeIndex b) + length d \<le> n" "n < 2 ^ 63"
      using dbl bounds small by (auto simp: n_def)
    have len: "length (buf b1) = n" by (simp add: b1_def)
    have wr: "writeIndex b1 = writeIndex b" "readIndex b1 = readIndex b"
      by (simp_all add: b1_def)
    have ok1: "buffer_ok b1"
      using n len bounds wr by (simp add: buffer_ok_def)
    have c1: "contents b1 = contents b"
      using n bounds unfolding contents_def wr by (simp add: b1_def drop_take)
    have mk: "makeSpace (vec_size d) b = Inr b1"
      using makeSpace_resize [OF ok small'] notmove vd by (simp add: b1_def n_def)
    have fits: "unat (writeIndex b1) + length d \<le> length (buf b1)" using n len wr by simp
    have "vec_size d \<le> writableBytes b1"
      using fits buffer_okD(6) [OF ok1] vd by (simp add: word_le_nat_alt)
    then show ?thesis
      using step [OF mk] append_in_place [OF ok1 fits] write_window [OF ok1 fits] c1 len n
        bounds False by auto
  qed
qed

lemma append_fails:
  assumes ok: "buffer_ok b" and small: "length (buf b) + length d < 2 ^ 63"
    and room: "\<not> append_room (length d) b"
  shows "append_bytes d b =
    Inl (if unat (writeIndex b) \<le> length (buf b) - unat (writeIndex b) + length d
         then AssertFailed else OutOfBounds)"
proof -
  note bounds = buffer_okD(1-3,6) [OF ok] buffer_okD(4,5) [OF ok]
  define n where "n = length (buf b) - unat (writeIndex b) + length d"
  define b1 where "b1 = b\<lparr>buf := take n (buf b) @ replicate (n - length (buf b)) 0\<rparr>"
  have vd: "unat (vec_size d) = length d" using small by (simp add: unat_vec_size)
  have small': "length (buf b) + unat (vec_size d) < 2 ^ 63" using small vd by simp
  have full: "writableBytes b < vec_size d"
    using room bounds vd by (simp add: append_room_def word_less_nat_alt) arith
  have mk: "makeSpace (vec_size d) b = Inr b1"
    using makeSpace_resize [OF ok small'] room vd by (simp add: b1_def n_def append_room_def)
  have n63: "n < 2 ^ 63" using bounds small by (simp add: n_def)
  have len: "length (buf b1) = n" and wr: "writeIndex b1 = writeIndex b"
    by (simp_all add: b1_def)
  have vs: "unat (vec_size (buf b1)) = n" using len n63 by (simp add: unat_vec_size)
  show ?thesis
  proof (cases "unat (writeIndex b) \<le> n")
    case True
    have "unat (writableBytes b1) < length d"
      using True vs wr room bounds by (simp add: writableBytes_def unat_diff_64 n_def append_room_def) arith
    then have "\<not> vec_size d \<le> writableBytes b1" using vd by (simp add: word_le_nat_alt)
    then show ?thesis
      using mk full True by (simp add: append_bytes_def ensureWritable_def n_def)
  next
    case False
    have "unat (writableBytes b1) = 2 ^ 64 - (unat (writeIndex b) - n)"
      using False vs wr by (simp add: writableBytes_def unat_diff_wrap_64)
    moreover have "length d < 2 ^ 63" using small by simp
    ultimately have "vec_size d \<le> writableBytes b1"
      using vd bounds by (simp add: word_le_nat_alt)
    moreover have "vec_write (buf b1) (writeIndex b1) d = Inl OutOfBounds"
      using False len wr by (simp add: vec_write_def)
    ultimately show ?thesis
      using mk full False by (simp add: append_bytes_def ensureWritable_def n_def)
  qed
qed

section \<open>The other operations on the window\<close>

lemma retrieve_front:
  assumes ok: "buffer_ok b" and "unat n \<le> length (contents b)"
  shows "\<exists>b'. retrieve n b = Inr b' \<and> buffer_ok b' \<and> contents b' = drop (unat n) (contents b)"
proof -
  note bounds = buffer_okD [OF ok]
  have r: "unat (readIndex b + n) = unat (readIndex b) + unat n"
    using assms(2) bounds by (simp add: unat_add_64)
  have "n \<le> readableBytes b" using assms(2) bounds by (simp add: word_le_nat_alt)
  moreover have "buffer_ok (b\<lparr>readIndex := readIndex b + n\<rparr>)"
    using r assms(2) bounds by (simp add: buffer_ok_def)
  moreover have "contents (b\<lparr>readIndex := readIndex b + n\<rparr>) = drop (unat n) (contents b)"
    using r bounds by (simp add: contents_def drop_take add.commute)
  ultimately show ?thesis by (simp add: retrieve_def)
qed

lemma retrieve_past:
  assumes "buffer_ok b" and "length (contents b) < unat n"
  shows "retrieve n b = Inl AssertFailed"
  using assms(2) buffer_okD(5) [OF assms(1)] by (simp add: retrieve_def word_le_nat_alt)

lemma peek_front:
  assumes "buffer_ok b" and "unat n \<le> length (contents b)"
  shows "peek_bytes n b = Inr (take (unat n) (contents b))"
  using assms(2) buffer_okD(1-4) [OF assms(1)]
  by (simp add: peek_bytes_def vec_read_def contents_def min_def)

lemma retrieveAll_ok:
  assumes "buffer_ok b" and "8 \<le> length (buf b)"
  shows "buffer_ok (retrieveAll b)" and "contents (retrieveAll b) = []"
  using assms by (simp_all add: buffer_ok_def retrieveAll_def contents_def)

lemma retrieveAsString_whole:
  assumes "buffer_ok b"
  shows "retrieveAsString b = Inr (contents b, retrieveAll b)"
  using peek_front [OF assms, of "readableBytes b"] buffer_okD(5) [OF assms]
  by (simp add: retrieveAsString_def)

lemma prepend_front:
  assumes ok: "buffer_ok b" and room: "length d \<le> unat (readIndex b)"
  shows "\<exists>b'. prepend d b = Inr b' \<and> buffer_ok b' \<and> contents b' = d @ contents b \<and>
    length (buf b') = length (buf b)"
proof -
  note bounds = buffer_okD(1-3) [OF ok]
  have vd: "unat (vec_size d) = length d" using bounds room by (simp add: unat_vec_size)
  have i: "unat (readIndex b - vec_size d) = unat (readIndex b) - length d"
    using room vd by (simp add: unat_diff_64)
  define b' where "b' = b\<lparr>buf := take (unat (readIndex b) - length d) (buf b) @ d @
      drop (unat (readIndex b)) (buf b), readIndex := readIndex b - vec_size d\<rparr>"
  have "prepend d b = Inr b'"
    using room vd i bounds
    by (simp add: prepend_def prependableBytes_def word_le_nat_alt vec_write_def b'_def)
  moreover have "buffer_ok b'" using i room bounds by (simp add: buffer_ok_def b'_def)
  moreover have "contents b' = d @ contents b"
    using i room bounds by (simp add: contents_def b'_def)
  moreover have "length (buf b') = length (buf b)" using room bounds by (simp add: b'_def)
  ultimately show ?thesis by blast
qed

lemma makeSpace_InrD:
  assumes ok: "buffer_ok b" and mk: "makeSpace len b = Inr b1"
    and inside: "unat (writeIndex b1) \<le> length (buf b1)"
  shows "buffer_ok b1 \<and> contents b1 = contents b"
proof (cases "len + kCheapPrepend > writableBytes b + prependableBytes b")
  case True
  note bounds = buffer_okD(1-3) [OF ok]
  define n where "n = unat (writableBytes b + len)"
  have n: "n < 2 ^ 63" and b1: "b1 = b\<lparr>buf := take n (buf b) @ replicate (n - length (buf b)) 0\<rparr>"
    using mk True by (auto simp: makeSpace_def vec_resize_def n_def rbind_Inr_iff split: if_splits)
  have "unat (writeIndex b) \<le> n" using inside b1 by simp
  then show ?thesis
    using n b1 bounds by (auto simp: buffer_ok_def contents_def drop_take)
next
  case False
  note bounds = buffer_okD(1-3) [OF ok] buffer_okD(4,5) [OF ok]
  have read: "vec_read (buf b) (readIndex b) (readableBytes b) = Inr (contents b)"
    using peek_front [OF ok, of "readableBytes b"] bounds by (simp add: peek_bytes_def)
  from mk False read have room: "8 + length (contents b) \<le> length (buf b)"
    and b1: "b1 = \<lparr>buf = take 8 (buf b) @ contents b @ drop (8 + length (contents b)) (buf b),
      readIndex = kCheapPrepend, writeIndex = kCheapPrepend + readableBytes b\<rparr>"
    by (auto simp: makeSpace_def vec_write_def Let_def rbind_Inr_iff cpp_assert_Inr_iff
        split: if_splits)
  have "unat (kCheapPrepend + readableBytes b) = 8 + length (contents b)"
    using bounds room by (simp add: unat_add_64)
  then have w: "unat (writeIndex b1) = 8 + length (contents b)" by (simp add: b1)
  have "buffer_ok b1" using w room bounds by (simp add: buffer_ok_def b1)
  moreover have "contents b1 = contents b"
    unfolding contents_def [of b1] w using room by (simp add: b1)
  ultimately show ?thesis by simp
qed

lemma unat_vec_size_le: "unat (vec_size d) \<le> length d"
  by (simp add: vec_size_def unat_of_nat)

lemma makeSpace_length:
  assumes "makeSpace len b = Inr b1"
  shows "length (buf b1) = length (buf b) \<or> writeIndex b1 = writeIndex b"
  using assms
  by (auto simp: makeSpace_def vec_write_def Let_def rbind_Inr_iff cpp_assert_Inr_iff
      split: if_splits)

text \<open>
  \<open>ensureWritable\<close> keeps the buffer when the bytes fit behind the write index afterwards. It can
  also return with the vector cut below the write index, when \<open>writableBytes()\<close> has wrapped around
  (\<open>ensureWritable_cuts\<close>).
\<close>

lemma ensureWritable_InrD:
  assumes ok: "buffer_ok b" and en: "ensureWritable n b = Inr b1"
    and fits: "unat (writeIndex b1) + unat n \<le> length (buf b1)"
  shows "buffer_ok b1 \<and> contents b1 = contents b \<and> length (buf b) \<le> length (buf b1)"
proof (cases "writableBytes b < n")
  case True
  then have mk: "makeSpace n b = Inr b1"
    using en by (auto simp: ensureWritable_def rbind_Inr_iff cpp_assert_Inr_iff)
  have "length (buf b) < unat (writeIndex b) + unat n"
    using True buffer_okD(2,6) [OF ok] by (simp add: word_less_nat_alt)
  then show ?thesis
    using makeSpace_InrD [OF ok mk] makeSpace_length [OF mk] fits by auto
next
  case False
  then show ?thesis using en ok by (auto simp: ensureWritable_def rbind_Inr_iff cpp_assert_Inr_iff)
qed

lemma append_parts:
  assumes "append_bytes d b = Inr b'"
  obtains b1 where "ensureWritable (vec_size d) b = Inr b1"
    "unat (writeIndex b1) + length d \<le> length (buf b1)"
    "b' = hasWritten (vec_size d) (b1\<lparr>buf := take (unat (writeIndex b1)) (buf b1) @ d @
      drop (unat (writeIndex b1) + length d) (buf b1)\<rparr>)"
  using assms by (auto simp: append_bytes_def rbind_Inr_iff vec_write_def split: if_splits)

lemma append_InrD:
  assumes ok: "buffer_ok b" and app: "append_bytes d b = Inr b'"
  shows "buffer_ok b' \<and> contents b' = contents b @ d \<and> length (buf b) \<le> length (buf b')"
proof -
  obtain b1 where b1: "ensureWritable (vec_size d) b = Inr b1"
      "unat (writeIndex b1) + length d \<le> length (buf b1)"
      "b' = hasWritten (vec_size d) (b1\<lparr>buf := take (unat (writeIndex b1)) (buf b1) @ d @
        drop (unat (writeIndex b1) + length d) (buf b1)\<rparr>)"
    using append_parts [OF app] by blast
  then show ?thesis
    using ensureWritable_InrD [OF ok b1(1)] unat_vec_size_le [of d] write_window [of b1 d] by simp
qed

lemma ensureWritable_ok:
  assumes ok: "buffer_ok b" and "length (buf b) + unat n < 2 ^ 63" and "append_room (unat n) b"
  shows "\<exists>b1. ensureWritable n b = Inr b1 \<and> buffer_ok b1 \<and> contents b1 = contents b \<and>
    length (buf b) \<le> length (buf b1)"
proof -
  let ?d = "replicate (unat n) (0 :: byte)"
  have n: "vec_size ?d = n" by (simp add: vec_size_def)
  obtain b' where "append_bytes ?d b = Inr b'"
    using append_succeeds [OF ok, of ?d] assms(2,3) by auto
  then obtain b1 where "ensureWritable n b = Inr b1"
      "unat (writeIndex b1) + unat n \<le> length (buf b1)"
    using append_parts [of ?d b b'] n by auto
  then show ?thesis using ensureWritable_InrD [OF ok] by blast
qed

lemma ensureWritable_cuts:
  "\<exists>b b'. buffer_ok b \<and> length (contents b) = 12 \<and> ensureWritable 10 b = Inr b' \<and>
    length (buf b') = 10"
proof -
  let ?b = "\<lparr>buf = replicate 20 0, readIndex = 8, writeIndex = 20\<rparr>"
  have "buffer_ok ?b" "length (contents ?b) = 12" by (simp_all add: buffer_ok_def contents_def)
  moreover have "ensureWritable 10 ?b = Inr (?b\<lparr>buf := replicate 10 0\<rparr>)"
    by (simp add: ensureWritable_def makeSpace_def writableBytes_def prependableBytes_def
        vec_size_def vec_resize_def kCheapPrepend_def cpp_assert_def)
  ultimately show ?thesis by (intro exI [of _ ?b] exI [of _ "?b\<lparr>buf := replicate 10 0\<rparr>"]) simp
qed

text \<open>The buffer provides the byte-queue interface.\<close>

interpretation bq: byte_queue buffer_ok contents readableBytes append_bytes peek_bytes retrieve
proof unfold_locales
  fix b :: buffer
  assume "buffer_ok b"
  then show "unat (readableBytes b) = length (contents b)" by (rule buffer_okD(5))
next
  fix b b' :: buffer and d
  assume "buffer_ok b" "append_bytes d b = Inr b'"
  then show "buffer_ok b'" "contents b' = contents b @ d" using append_InrD by blast+
next
  fix b :: buffer and n :: size_t
  assume "buffer_ok b" "unat n \<le> length (contents b)"
  then show "peek_bytes n b = Inr (take (unat n) (contents b))"
    and "\<exists>b'. retrieve n b = Inr b' \<and> buffer_ok b' \<and> contents b' = drop (unat n) (contents b)"
    by (rule peek_front, rule retrieve_front)
next
  fix b :: buffer and n :: size_t
  assume "buffer_ok b" "length (contents b) < unat n"
  then show "retrieve n b = Inl AssertFailed" by (rule retrieve_past)
qed

section \<open>Reading from a socket\<close>

lemma readFd_fits:
  assumes ok: "buffer_ok b" and "unat (writeIndex b) + length d \<le> length (buf b)"
  shows "\<exists>b'. readFd (Inr d) b = Inr (b', int (length d), None) \<and> buffer_ok b' \<and>
    contents b' = contents b @ d \<and> length (buf b') = length (buf b)"
proof -
  note bounds = buffer_okD(1-3,6) [OF ok]
  have "unat (vec_size d) = length d" using assms(2) bounds by (simp add: unat_vec_size)
  then have "vec_size d \<le> writableBytes b"
    using assms(2) bounds by (simp add: word_le_nat_alt)
  then show ?thesis
    using assms(2) write_window [OF ok assms(2)]
    by (simp add: readFd_def Let_def vec_write_def hasWritten_def)
qed

text \<open>The buffer after \<open>readv\<close> has filled the writable part.\<close>

definition filled :: "byte list \<Rightarrow> buffer \<Rightarrow> buffer" where
  "filled d b = b\<lparr>buf := take (unat (writeIndex b)) (buf b) @
      take (length (buf b) - unat (writeIndex b)) d,
    writeIndex := vec_size (buf b)\<rparr>"

lemma filled_props:
  assumes ok: "buffer_ok b" and spill: "length (buf b) < unat (writeIndex b) + length d"
  shows "buffer_ok (filled d b)"
    and "contents (filled d b) = contents b @ take (length (buf b) - unat (writeIndex b)) d"
    and "length (buf (filled d b)) = length (buf b)"
    and "unat (writeIndex (filled d b)) = length (buf b)"
    and "readIndex (filled d b) = readIndex b"
proof -
  note bounds = buffer_okD(1-3) [OF ok]
  show len: "length (buf (filled d b)) = length (buf b)"
    using bounds spill by (simp add: filled_def)
  show w: "unat (writeIndex (filled d b)) = length (buf b)"
    using bounds by (simp add: filled_def unat_vec_size)
  show r: "readIndex (filled d b) = readIndex b" by (simp add: filled_def)
  show "buffer_ok (filled d b)" using len w r bounds by (simp add: buffer_ok_def)
  show "contents (filled d b) = contents b @ take (length (buf b) - unat (writeIndex b)) d"
    unfolding contents_def w r using bounds spill by (simp add: filled_def drop_take)
qed

lemma readFd_spills:
  assumes ok: "buffer_ok b" and spill: "\<not> vec_size d \<le> writableBytes b"
  defines "k \<equiv> length (buf b) - unat (writeIndex b)"
  shows "length (buf b) < unat (writeIndex b) + length d"
    and "readFd (Inr d) b =
      rbind (append_bytes (drop k d) (filled d b)) (\<lambda>b'. Inr (b', int (length d), None))"
proof -
  note bounds = buffer_okD(1-3,6) [OF ok]
  have wk: "unat (writableBytes b) = k" using bounds by (simp add: k_def)
  show sp: "length (buf b) < unat (writeIndex b) + length d"
    using spill bounds wk unat_vec_size_le [of d] by (simp add: word_le_nat_alt k_def)
  have "vec_write (buf b) (writeIndex b) (take k d) = Inr (buf (filled d b))"
    using sp bounds by (simp add: vec_write_def filled_def k_def)
  moreover have "vec_size (buf (filled d b)) = vec_size (buf b)"
    by (simp only: vec_size_def filled_props(3) [OF ok sp])
  then have "b\<lparr>buf := buf (filled d b), writeIndex := vec_size (buf (filled d b))\<rparr> = filled d b"
    by (simp add: filled_def)
  ultimately show "readFd (Inr d) b =
      rbind (append_bytes (drop k d) (filled d b)) (\<lambda>b'. Inr (b', int (length d), None))"
    using wk spill by (simp add: readFd_def Let_def)
qed

lemma spill_iff:
  assumes "buffer_ok b" and "length d < 2 ^ 63"
  shows "vec_size d \<le> writableBytes b \<longleftrightarrow> unat (writeIndex b) + length d \<le> length (buf b)"
  using buffer_okD(2,6) [OF assms(1)] assms(2) by (auto simp: word_le_nat_alt unat_vec_size)

lemma append_compact_length:
  assumes ok: "buffer_ok b" and app: "append_bytes d b = Inr b'"
    and room: "length (contents b) + length d + 8 \<le> length (buf b)"
  shows "length (buf b') = length (buf b)"
proof (cases "unat (writeIndex b) + length d \<le> length (buf b)")
  case True
  then show ?thesis using append_in_place [OF ok True] write_window(3) [OF ok True] app by auto
next
  case False
  note bounds = buffer_okD(1-3,6) [OF ok]
  have vd: "unat (vec_size d) = length d" using room bounds by (simp add: unat_vec_size)
  have full: "writableBytes b < vec_size d"
    using False bounds vd by (simp add: word_less_nat_alt)
  have "unat (vec_size d + kCheapPrepend) = length d + 8"
    using room bounds vd by (simp add: unat_add_64)
  moreover have "unat (writableBytes b + prependableBytes b) =
      length (buf b) - unat (writeIndex b) + unat (readIndex b)"
    using bounds by (simp add: unat_add_64 prependableBytes_def)
  ultimately have stay: "\<not> vec_size d + kCheapPrepend > writableBytes b + prependableBytes b"
    using room bounds buffer_okD(4) [OF ok] by (simp add: word_less_nat_alt)
  from app full obtain b1 v where b1: "makeSpace (vec_size d) b = Inr b1"
    and v: "vec_write (buf b1) (writeIndex b1) d = Inr v"
    and b': "b' = hasWritten (vec_size d) (b1\<lparr>buf := v\<rparr>)"
    by (auto simp: append_bytes_def ensureWritable_def rbind_Inr_iff cpp_assert_Inr_iff)
  have "length (buf b1) = length (buf b)"
    using b1 stay by (auto simp: makeSpace_def Let_def rbind_Inr_iff cpp_assert_Inr_iff
        dest: vec_write_length)
  then show ?thesis using vec_write_length [OF v] by (simp add: b' hasWritten_def)
qed

lemma readFd_length:
  assumes ok: "buffer_ok b" and room: "length (contents b) + length d + 8 \<le> length (buf b)"
    and rd: "readFd (Inr d) b = Inr (b', n, err)"
  shows "length (buf b') = length (buf b)"
proof (cases "unat (writeIndex b) + length d \<le> length (buf b)")
  case True
  then show ?thesis using readFd_fits [OF ok True] rd by auto
next
  case False
  have "length d < 2 ^ 63" using room buffer_okD(3) [OF ok] by simp
  then have big: "\<not> vec_size d \<le> writableBytes b" using spill_iff [OF ok] False by simp
  note spill = readFd_spills(1) [OF ok big]
  define k where "k = length (buf b) - unat (writeIndex b)"
  note fp = filled_props [OF ok spill] and bounds = buffer_okD(1-4) [OF ok]
  have eq: "append_bytes (drop k d) (filled d b) = Inr b'"
    using rd readFd_spills(2) [OF ok big] by (auto simp: rbind_Inr_iff k_def)
  have "length (contents (filled d b)) + length (drop k d) + 8 \<le> length (buf (filled d b))"
    using fp(2,3) room bounds spill by (simp add: k_def)
  then show ?thesis using append_compact_length [OF fp(1) eq] fp(3) by simp
qed

lemma append_new_readIndex:
  assumes "append_bytes d new_Buffer = Inr b"
  shows "8 \<le> unat (readIndex b)"
  using assms
  by (auto simp: append_bytes_def ensureWritable_def makeSpace_def Let_def hasWritten_def
      rbind_Inr_iff cpp_assert_Inr_iff split: if_splits)

lemma readFd_outcome:
  assumes "buffer_ok b" and "length (buf b) + length d < 2 ^ 63" and "8 \<le> length (buf b)"
  shows "case readFd (Inr d) b of
      Inr (b', n, err) \<Rightarrow>
        (unat (writeIndex b) + length d \<le> length (buf b) \<or>
         unat (writeIndex b) + length d + 8 \<le> length (buf b) + unat (readIndex b)) \<and>
        buffer_ok b' \<and> contents b' = contents b @ d \<and> n = int (length d) \<and> err = None
    | Inl e \<Rightarrow>
        \<not> (unat (writeIndex b) + length d \<le> length (buf b) \<or>
           unat (writeIndex b) + length d + 8 \<le> length (buf b) + unat (readIndex b)) \<and>
        (e = AssertFailed \<or> e = OutOfBounds)"
proof (cases "unat (writeIndex b) + length d \<le> length (buf b)")
  case True
  then show ?thesis using readFd_fits [OF assms(1) True] by auto
next
  case False
  then have big: "\<not> vec_size d \<le> writableBytes b"
    using spill_iff [OF assms(1), of d] assms(2) by simp
  note spill = readFd_spills(1) [OF assms(1) big]
  define k where "k = length (buf b) - unat (writeIndex b)"
  note fp = filled_props [OF assms(1) spill]
  note bounds = buffer_okD(1-3) [OF assms(1)] buffer_okD(4) [OF fp(1)]
  have small: "length (buf (filled d b)) + length (drop k d) < 2 ^ 63"
    using fp(3) assms(2) by simp
  have "buf b \<noteq> []" using assms(3) by auto
  then have room: "append_room (length (drop k d)) (filled d b) \<longleftrightarrow>
      unat (writeIndex b) + length d + 8 \<le> length (buf b) + unat (readIndex b)"
    using fp bounds spill assms(3) by (simp add: append_room_def k_def) arith
  have eq: "readFd (Inr d) b =
      rbind (append_bytes (drop k d) (filled d b)) (\<lambda>b'. Inr (b', int (length d), None))"
    using readFd_spills(2) [OF assms(1) big] by (simp add: k_def)
  have "contents b @ d = contents (filled d b) @ drop k d" using fp(2) by (simp add: k_def)
  then show ?thesis
    using append_succeeds [OF fp(1) small] append_fails [OF fp(1) small] room eq False
    by (cases "append_room (length (drop k d)) (filled d b)") auto
qed

section \<open>Properties\<close>

text \<open>
  C15. The exact outcome of \<open>Buffer::append\<close> on a valid buffer. It succeeds exactly when
  \<open>append_room\<close> holds, and then appends precisely the given bytes to the readable window
  and keeps the buffer valid. In every other case the call ends abnormally: the assertion in
  \<open>ensureWritable\<close> fails, or, when the resize of \<open>makeSpace\<close> has cut the vector below the
  write index, the wrapped-around \<open>writableBytes()\<close> passes the assertion and the copy writes
  outside the vector.
\<close>

theorem append_exact:
  assumes "buffer_ok b" and "length (buf b) + length d < 2 ^ 63"
  shows "case append_bytes d b of
      Inr b' \<Rightarrow> append_room (length d) b \<and> buffer_ok b' \<and> contents b' = contents b @ d
    | Inl e \<Rightarrow> \<not> append_room (length d) b \<and>
        e = (if unat (writeIndex b) \<le> length (buf b) - unat (writeIndex b) + length d
             then AssertFailed else OutOfBounds)"
  using append_succeeds [OF assms] append_fails [OF assms]
  by (cases "append_room (length d) b") auto

theorem append_exact_witness:
  "append_room 2000 new_Buffer \<and>
   (\<exists>b'. append_bytes (replicate 2000 7) new_Buffer = Inr b' \<and> contents b' = replicate 2000 7)"
proof -
  have room: "append_room 2000 new_Buffer" by (simp add: append_room_def)
  show ?thesis
    using append_exact [OF new_Buffer_ok(1), of "replicate 2000 7"] room new_Buffer_ok(2)
    by (auto split: sum.splits)
qed

text \<open>
  C16. The exact outcome of \<open>Buffer::readFd\<close> for both results of \<open>readv\<close>. When \<open>readv\<close> fails
  with an errno, \<open>readFd\<close> returns -1, stores the errno for its caller and leaves the buffer as it
  was. When it delivers the bytes \<open>d\<close>, \<open>readFd\<close> returns their number, stores no errno and
  appends them, if they fit behind the write index; a read that spills into the stack buffer
  succeeds only when the spilled part and eight more bytes fit into the space already retrieved
  in front of the read index. Every other spilling read ends abnormally, although the comment in
  the source promises that the buffer then grows.
\<close>

theorem readFd_exact:
  assumes "buffer_ok b" and "8 \<le> length (buf b)"
    and "\<forall>d. result = Inr d \<longrightarrow> length (buf b) + length d < 2 ^ 63"
  shows "case result of
      Inl errno \<Rightarrow> readFd result b = Inr (b, -1, Some errno)
    | Inr d \<Rightarrow>
       (case readFd result b of
          Inr (b', n, err) \<Rightarrow>
            (unat (writeIndex b) + length d \<le> length (buf b) \<or>
             unat (writeIndex b) + length d + 8 \<le> length (buf b) + unat (readIndex b)) \<and>
            buffer_ok b' \<and> contents b' = contents b @ d \<and> n = int (length d) \<and> err = None
        | Inl e \<Rightarrow>
            \<not> (unat (writeIndex b) + length d \<le> length (buf b) \<or>
               unat (writeIndex b) + length d + 8 \<le> length (buf b) + unat (readIndex b)) \<and>
            (e = AssertFailed \<or> e = OutOfBounds))"
proof (cases result)
  case (Inl errno)
  then show ?thesis by (simp add: readFd_def)
next
  case (Inr d)
  then show ?thesis using readFd_outcome [of b d] assms by simp
qed

theorem readFd_exact_witness:
  "readFd (Inl 104) new_Buffer = Inr (new_Buffer, -1, Some 104) \<and>
   (\<exists>e. readFd (Inr (replicate 1025 7)) new_Buffer = Inl e) \<and>
   (\<exists>b'. readFd (Inr (replicate 1024 7)) new_Buffer = Inr (b', 1024, None) \<and>
      contents b' = replicate 1024 7)"
  using readFd_exact [OF new_Buffer_ok(1), of "Inl 104"]
    readFd_exact [OF new_Buffer_ok(1), of "Inr (replicate 1025 7)"]
    readFd_exact [OF new_Buffer_ok(1), of "Inr (replicate 1024 7)"] new_Buffer_ok(2)
  by (auto split: sum.splits)

text \<open>
  \<open>Buffer::shrink\<close> copies the readable bytes to the start of a new vector and keeps both
  indices. The window it leaves is the old one shifted by \<open>readIndex_ - 8\<close> bytes and filled up
  with zeros from the reserve; so the readable bytes survive when the read index is at
  \<open>kCheapPrepend\<close>, and the buffer is no longer valid (its write index is past its vector) as
  soon as the read index exceeds \<open>kCheapPrepend\<close> by more than the reserve.
\<close>

lemma shrink_eq:
  assumes "buffer_ok b" and "length (buf b) + unat reserve + 8 < 2 ^ 63"
  shows "shrink reserve b =
    Inr (b\<lparr>buf := replicate 8 0 @ contents b @ replicate (unat reserve) 0\<rparr>)"
proof -
  note bounds = buffer_okD(1-3) [OF assms(1)] buffer_okD(4,5) [OF assms(1)]
  have size: "unat (kCheapPrepend + readableBytes b + reserve) =
      8 + length (contents b) + unat reserve"
    using bounds assms(2) by (simp add: unat_add_64)
  have read: "peek_bytes (readableBytes b) b = Inr (contents b)"
    using peek_front [OF assms(1), of "readableBytes b"] bounds by simp
  show ?thesis
    using size bounds assms(2) read
    by (simp add: shrink_def vec_resize_def vec_write_def add.assoc) arith
qed

lemma shrink_exact:
  assumes "buffer_ok b" and "length (buf b) + unat reserve + 8 < 2 ^ 63"
    and "8 \<le> unat (readIndex b)"
  shows "\<exists>b'. shrink reserve b = Inr b' \<and>
    contents b' = take (length (contents b))
      (drop (unat (readIndex b) - 8) (contents b @ replicate (unat reserve) 0)) \<and>
    (buffer_ok b' \<longleftrightarrow> unat (readIndex b) - 8 \<le> unat reserve)"
proof -
  note bounds = buffer_okD(1-3) [OF assms(1)] buffer_okD(4,5) [OF assms(1)]
  let ?v = "replicate 8 0 @ contents b @ replicate (unat reserve) 0"
  have "shrink reserve b = Inr (b\<lparr>buf := ?v\<rparr>)" by (rule shrink_eq [OF assms(1,2)])
  moreover have "contents (b\<lparr>buf := ?v\<rparr>) = take (length (contents b))
      (drop (unat (readIndex b) - 8) (contents b @ replicate (unat reserve) 0))"
    using bounds assms(3) by (simp add: contents_def [of "b\<lparr>buf := _\<rparr>"])
  moreover have "buffer_ok (b\<lparr>buf := ?v\<rparr>) \<longleftrightarrow> unat (readIndex b) - 8 \<le> unat reserve"
    using bounds assms by (simp add: buffer_ok_def) arith
  ultimately show ?thesis by blast
qed

lemma shrink_exact_witness:
  "\<exists>b b'. shrink 0 b = Inr b' \<and> contents b = [1, 2] \<and> contents b' = [2] \<and> \<not> buffer_ok b'"
proof -
  let ?b = "\<lparr>buf = replicate 9 0 @ [1, 2], readIndex = 9, writeIndex = 11\<rparr>"
  have "buffer_ok ?b" "contents ?b = [1, 2]" by (simp_all add: buffer_ok_def contents_def)
  then show ?thesis using shrink_exact [of ?b 0] by auto
qed

section \<open>The buffer refines a byte queue\<close>

text \<open>
  All public members of \<open>Buffer\<close> that change it, as commands on the buffer and on a plain list of
  bytes. \<open>OpReadFd\<close> carries what \<open>readv\<close> answers, \<open>OpHasWritten\<close> the bytes that it makes readable.
\<close>

datatype buffer_op =
    OpAppend "byte list"
  | OpReadFd "int + byte list"
  | OpPrepend "byte list"
  | OpRetrieve size_t
  | OpRetrieveAll
  | OpRetrieveAsString
  | OpEnsureWritable size_t
  | OpHasWritten "byte list"
  | OpShrink size_t

fun buffer_step :: "buffer_op \<Rightarrow> buffer \<times> byte list \<Rightarrow> (buffer \<times> byte list) result" where
  "buffer_step (OpAppend d) (b, out) = rbind (append_bytes d b) (\<lambda>b'. Inr (b', out))"
| "buffer_step (OpReadFd r) (b, out) = rbind (readFd r b) (\<lambda>(b', _). Inr (b', out))"
| "buffer_step (OpPrepend d) (b, out) = rbind (prepend d b) (\<lambda>b'. Inr (b', out))"
| "buffer_step (OpRetrieve n) (b, out) = rbind (retrieve n b) (\<lambda>b'. Inr (b', out))"
| "buffer_step OpRetrieveAsString (b, out) =
     rbind (retrieveAsString b) (\<lambda>(str, b'). Inr (b', out @ str))"
| "buffer_step OpRetrieveAll (b, out) = Inr (retrieveAll b, out)"
| "buffer_step (OpEnsureWritable n) (b, out) = rbind (ensureWritable n b) (\<lambda>b'. Inr (b', out))"
| "buffer_step (OpHasWritten d) (b, out) = Inr (hasWritten (vec_size d) b, out)"
| "buffer_step (OpShrink n) (b, out) = rbind (shrink n b) (\<lambda>b'. Inr (b', out))"

fun queue_step :: "buffer_op \<Rightarrow> byte list \<times> byte list \<Rightarrow> byte list \<times> byte list" where
  "queue_step (OpAppend d) (q, out) = (q @ d, out)"
| "queue_step (OpReadFd (Inl errno)) (q, out) = (q, out)"
| "queue_step (OpReadFd (Inr d)) (q, out) = (q @ d, out)"
| "queue_step (OpPrepend d) (q, out) = (d @ q, out)"
| "queue_step (OpRetrieve n) (q, out) = (drop (unat n) q, out)"
| "queue_step OpRetrieveAsString (q, out) = ([], out @ q)"
| "queue_step OpRetrieveAll (q, out) = ([], out)"
| "queue_step (OpEnsureWritable n) (q, out) = (q, out)"
| "queue_step (OpHasWritten d) (q, out) = (q @ d, out)"
| "queue_step (OpShrink n) (q, out) = (q, out)"

text \<open>
  Three members can return normally and leave a broken buffer, so they rely on their caller.
  \<open>hasWritten\<close> moves the write index without a check: the bytes that it makes readable have to lie
  behind the write index, within the vector. \<open>shrink\<close> moves the readable bytes to \<open>kCheapPrepend\<close> and
  leaves the indices alone (\<open>shrink_exact\<close>): the read index has to be there already, and the size of
  the new vector must not wrap around. \<open>ensureWritable\<close>, called by itself, can cut the vector
  (\<open>ensureWritable_cuts\<close>): it needs the room that \<open>append\<close> does. Every other member, and \<open>append\<close>
  itself, may be called at any time.
\<close>

fun op_allowed :: "buffer_op \<Rightarrow> buffer \<Rightarrow> bool" where
  "op_allowed (OpHasWritten d) b \<longleftrightarrow> take (length d) (drop (unat (writeIndex b)) (buf b)) = d"
| "op_allowed (OpShrink n) b \<longleftrightarrow>
     readIndex b = kCheapPrepend \<and> length (buf b) + unat n + 8 < 2 ^ 63"
| "op_allowed (OpEnsureWritable n) b \<longleftrightarrow> append_room (unat n) b \<and> length (buf b) + unat n < 2 ^ 63"
| "op_allowed _ b \<longleftrightarrow> True"

fun ops_allowed :: "buffer_op list \<Rightarrow> buffer \<times> byte list \<Rightarrow> bool" where
  "ops_allowed [] s \<longleftrightarrow> True"
| "ops_allowed (x # xs) s \<longleftrightarrow> op_allowed x (fst s) \<and>
     (case buffer_step x s of Inl _ \<Rightarrow> True | Inr s' \<Rightarrow> ops_allowed xs s')"

lemma prepend_InrD:
  assumes ok: "buffer_ok b" and pre: "prepend d b = Inr b'"
  shows "buffer_ok b' \<and> contents b' = d @ contents b \<and> length (buf b') = length (buf b)"
proof -
  from pre have "vec_size d \<le> readIndex b" and "length d \<le> length (buf b)"
    by (auto simp: prepend_def cpp_assert_Inr_iff rbind_Inr_iff vec_write_def Let_def
        prependableBytes_def split: if_splits)
  then have "length d \<le> unat (readIndex b)"
    using buffer_okD(3) [OF ok] by (simp add: word_le_nat_alt unat_vec_size)
  then show ?thesis using prepend_front [OF ok, of d] pre by auto
qed

lemma readFd_InrD:
  assumes ok: "buffer_ok b" and rd: "readFd (Inr d) b = Inr (b', n, err)"
  shows "buffer_ok b' \<and> contents b' = contents b @ d \<and> length (buf b) \<le> length (buf b')"
proof (cases "vec_size d \<le> writableBytes b")
  case True
  then have "unat (writeIndex b) + length d \<le> length (buf b)"
    using rd by (auto simp: readFd_def Let_def rbind_Inr_iff vec_write_def split: if_splits)
  then show ?thesis using readFd_fits [OF ok] rd by fastforce
next
  case False
  let ?k = "length (buf b) - unat (writeIndex b)"
  note fp = filled_props [OF ok readFd_spills(1) [OF ok False]]
  have "append_bytes (drop ?k d) (filled d b) = Inr b'"
    using rd readFd_spills(2) [OF ok False] by (auto simp: rbind_Inr_iff)
  then show ?thesis using append_InrD [OF fp(1)] fp(2,3) by fastforce
qed

lemma hasWritten_ok:
  assumes ok: "buffer_ok b" and d: "take (length d) (drop (unat (writeIndex b)) (buf b)) = d"
  shows "buffer_ok (hasWritten (vec_size d) b)" "contents (hasWritten (vec_size d) b) = contents b @ d"
proof -
  let ?w = "unat (writeIndex b)"
  have "length d = min (length (buf b) - ?w) (length d)" using d by (metis length_drop length_take min.commute)
  then have fits: "?w + length d \<le> length (buf b)" using buffer_okD(2) [OF ok] by linarith
  have "take ?w (buf b) @ d @ drop (?w + length d) (buf b) = buf b"
    by (metis d add.commute append_take_drop_id drop_drop)
  then have "b\<lparr>buf := take ?w (buf b) @ d @ drop (?w + length d) (buf b)\<rparr> = b" by simp
  then show "buffer_ok (hasWritten (vec_size d) b)"
    "contents (hasWritten (vec_size d) b) = contents b @ d"
    using write_window(1,2) [OF ok fits] by simp_all
qed

lemma buffer_step_refines:
  assumes "buffer_ok b" and "8 \<le> length (buf b)" and allowed: "op_allowed x b"
    and "buffer_step x (b, out) = Inr (b', out')"
  shows "buffer_ok b' \<and> 8 \<le> length (buf b') \<and> queue_step x (contents b, out) = (contents b', out')"
proof (cases x)
  case OpRetrieveAll
  then show ?thesis using assms retrieveAll_ok [OF assms(1,2)] by (auto simp: retrieveAll_def)
next
  case (OpEnsureWritable n)
  then show ?thesis using assms ensureWritable_ok [OF assms(1), of n] by (fastforce simp: rbind_Inr_iff)
next
  case (OpHasWritten d)
  then show ?thesis using assms hasWritten_ok [OF assms(1), of d] by (auto simp: hasWritten_def)
next
  case (OpShrink n)
  then have n: "readIndex b = kCheapPrepend" "length (buf b) + unat n + 8 < 2 ^ 63"
      "shrink n b = Inr b'" "out' = out"
    using assms by (auto simp: rbind_Inr_iff)
  then show ?thesis
    using OpShrink shrink_eq [OF assms(1) n(2)] shrink_exact [OF assms(1) n(2)] by auto
next
  case (OpAppend d)
  then show ?thesis using assms append_InrD [OF assms(1)] by (fastforce simp: rbind_Inr_iff)
next
  case (OpReadFd r)
  then show ?thesis
  proof (cases r)
    case (Inl errno)
    then show ?thesis using OpReadFd assms by (simp add: readFd_def)
  next
    case (Inr d)
    then show ?thesis
      using OpReadFd assms readFd_InrD [OF assms(1)] by (fastforce simp: rbind_Inr_iff)
  qed
next
  case (OpPrepend d)
  then show ?thesis using assms prepend_InrD [OF assms(1)] by (fastforce simp: rbind_Inr_iff)
next
  case (OpRetrieve n)
  with assms have n: "retrieve n b = Inr b'" "out' = out" by (auto simp: rbind_Inr_iff)
  then have "length (buf b') = length (buf b)"
    by (auto simp: retrieve_def cpp_assert_Inr_iff)
  then show ?thesis using OpRetrieve n assms(2) bq.skip_InrD [OF assms(1) n(1)] by simp
next
  case OpRetrieveAsString
  then have "b' = retrieveAll b" "out' = out @ contents b"
    using assms retrieveAsString_whole [OF assms(1)] by auto
  then show ?thesis
    using OpRetrieveAsString retrieveAll_ok [OF assms(1,2)] assms(2) by (simp add: retrieveAll_def)
qed

text \<open>
  C14. Refinement: whatever sequence of the members \<open>append\<close>, \<open>readFd\<close> (with either result of
  \<open>readv\<close>), \<open>prepend\<close>, \<open>retrieve\<close>, \<open>retrieveAll\<close>, \<open>retrieveAsString\<close>, \<open>ensureWritable\<close>,
  \<open>hasWritten\<close> and \<open>shrink\<close> a program calls on a freshly constructed \<open>Buffer\<close>, as long as it ends
  normally and the last three are only called as \<open>op_allowed\<close> says, the buffer holds, and has handed
  out, exactly the bytes that a plain byte queue would after the same operations.
\<close>

theorem buffer_refines_queue:
  assumes "rfold buffer_step ops (new_Buffer, []) = Inr (b, out)"
    and "ops_allowed ops (new_Buffer, [])"
  shows "fold queue_step ops ([], []) = (contents b, out) \<and> buffer_ok b"
proof -
  have "fold queue_step ops (contents b0, o0) = (contents b, out) \<and> buffer_ok b"
    if "buffer_ok b0" "8 \<le> length (buf b0)" "rfold buffer_step ops (b0, o0) = Inr (b, out)"
      "ops_allowed ops (b0, o0)"
    for b0 o0
    using that
  proof (induction ops arbitrary: b0 o0)
    case Nil
    then show ?case by simp
  next
    case (Cons x xs)
    from Cons.prems(3) obtain b1 o1 where
      s: "buffer_step x (b0, o0) = Inr (b1, o1)" "rfold buffer_step xs (b1, o1) = Inr (b, out)"
      by (auto simp: rbind_Inr_iff)
    have "op_allowed x b0" "ops_allowed xs (b1, o1)" using Cons.prems(4) s(1) by auto
    then show ?case
      using buffer_step_refines [OF Cons.prems(1,2) _ s(1)] Cons.IH [OF _ _ s(2)] by simp
  qed
  from this [OF new_Buffer_ok(1) _ assms] new_Buffer_ok(2) show ?thesis by simp
qed

theorem buffer_refines_queue_witness:
  "\<exists>b out. rfold buffer_step [OpReadFd (Inl 11), OpAppend [1, 2, 3], OpShrink 5, OpHasWritten [0],
        OpRetrieve 1, OpRetrieveAsString, OpAppend [9], OpRetrieveAll]
      (new_Buffer, []) = Inr (b, out) \<and> contents b = [] \<and> out = [2, 3, 0]"
proof -
  let ?ops = "[OpReadFd (Inl 11), OpAppend [1, 2, 3], OpShrink 5, OpHasWritten [0],
        OpRetrieve 1, OpRetrieveAsString, OpAppend [9], OpRetrieveAll]"
  define b1 where "b1 = hasWritten (vec_size [1, 2, 3 :: byte])
    (new_Buffer\<lparr>buf := take 8 (buf new_Buffer) @ [1, 2, 3] @ drop 11 (buf new_Buffer)\<rparr>)"
  have b1: "append_bytes [1, 2, 3] new_Buffer = Inr b1" "buffer_ok b1" "contents b1 = [1, 2, 3]"
      "length (buf b1) = 1032" "readIndex b1 = 8" "writeIndex b1 = 11"
    using append_in_place [OF new_Buffer_ok(1), of "[1, 2, 3]"]
      write_window [OF new_Buffer_ok(1), of "[1, 2, 3]"] new_Buffer_ok(2)
    by (simp_all add: b1_def hasWritten_def vec_size_def)
  define b2 where "b2 = \<lparr>buf = replicate 8 0 @ [1, 2, 3] @ replicate 5 0, readIndex = 8, writeIndex = 11\<rparr>"
  have b2: "shrink 5 b1 = Inr b2"
    using shrink_eq [OF b1(2), of 5] b1(3-6) by (cases b1) (simp add: b2_def)
  have b3: "hasWritten (vec_size [0 :: byte]) b2 = b2\<lparr>writeIndex := 12\<rparr>"
      "take 1 (drop (unat (writeIndex b2)) (buf b2)) = [0]"
    by (simp_all add: b2_def hasWritten_def vec_size_def)
  let ?b4 = "b2\<lparr>readIndex := 9, writeIndex := 12\<rparr>"
  have b4: "retrieve 1 (b2\<lparr>writeIndex := 12\<rparr>) = Inr ?b4"
    by (simp add: retrieve_def readableBytes_def b2_def)
  have b5: "retrieveAsString ?b4 = Inr ([2, 3, 0], retrieveAll ?b4)"
  proof -
    have "buffer_ok ?b4" "contents ?b4 = [2, 3, 0]"
      by (simp_all add: b2_def buffer_ok_def contents_def)
    then show ?thesis using retrieveAsString_whole by metis
  qed
  obtain b6 where b6: "append_bytes [9] (retrieveAll ?b4) = Inr b6"
    using append_in_place [of "retrieveAll ?b4" "[9]"]
    by (auto simp: b2_def retrieveAll_def buffer_ok_def kCheapPrepend_def)
  have run: "rfold buffer_step ?ops (new_Buffer, []) = Inr (retrieveAll b6, [2, 3, 0])"
    using b1(1) b2 b3(1) b4 b5 b6 by (simp add: readFd_def)
  have "ops_allowed ?ops (new_Buffer, [])"
    using b1 b2 b3 b4 b5 b6 by (simp add: readFd_def kCheapPrepend_def)
  then show ?thesis using buffer_refines_queue [OF run] run by simp
qed

end
