(* ===== verification/Codec.thy ===== *)
theory Codec
  imports Buffers
begin

unbundle bit_operations_syntax

text \<open>
  The class \<open>LengthHeaderCodec\<close> of asio/Codec.h: messages framed by a four-byte big-endian
  length. \<open>onMessage\<close> is the loop that takes complete frames off the input buffer and hands
  them to the message callback; \<open>codec_send\<close> builds the frame of an outgoing message. The
  theory relates the loop to a list-level parser and shows that every split of the byte stream
  into reads delivers the messages that were sent.
\<close>

section \<open>Byte order\<close>

text \<open>
  The memory image of an \<open>int32_t\<close> on the little-endian hosts the program is built for, and
  the byte swap that \<open>htonl\<close> and \<open>ntohl\<close> are there.
\<close>

definition store32 :: "32 word \<Rightarrow> byte list" where
  "store32 x = [ucast x, ucast (drop_bit 8 x), ucast (drop_bit 16 x), ucast (drop_bit 24 x)]"

fun load32 :: "byte list \<Rightarrow> 32 word" where
  "load32 [a, b, c, d] =
     ucast a OR push_bit 8 (ucast b) OR push_bit 16 (ucast c) OR push_bit 24 (ucast d)"
| "load32 _ = 0"

definition ntohl :: "32 word \<Rightarrow> 32 word" where
  "ntohl x = load32 (rev (store32 x))"

definition htonl :: "32 word \<Rightarrow> 32 word" where
  "htonl x = load32 (rev (store32 x))"

lemma length_store32 [simp]: "length (store32 x) = 4"
  by (simp add: store32_def)

lemma load32_store32 [simp]: "load32 (store32 x) = x"
proof (rule bit_word_eqI)
  fix n
  assume "n < LENGTH(32)"
  then consider "n < 8" | "8 \<le> n" "n < 16" | "16 \<le> n" "n < 24" | "24 \<le> n" "n < 32"
    by fastforce
  then show "bit (load32 (store32 x)) n = bit x n"
    by cases (auto simp: store32_def bit_simps)
qed

lemma byte_high_bits [simp]: "8 \<le> n \<Longrightarrow> \<not> bit (a :: byte) n"
  by (auto dest: bit_imp_le_length)

lemma store32_load32:
  assumes "length bs = 4"
  shows "store32 (load32 bs) = bs"
proof -
  from assms obtain a b c d where bs: "bs = [a, b, c, d]"
    by (auto simp: length_Suc_conv eval_nat_numeral)
  have "ucast (load32 bs) = a"
    by (rule bit_word_eqI) (simp add: bs bit_simps)
  moreover have "ucast (drop_bit 8 (load32 bs)) = b"
    by (rule bit_word_eqI) (simp add: bs bit_simps)
  moreover have "ucast (drop_bit 16 (load32 bs)) = c"
    by (rule bit_word_eqI) (simp add: bs bit_simps)
  moreover have "ucast (drop_bit 24 (load32 bs)) = d"
    by (rule bit_word_eqI) (simp add: bs bit_simps)
  ultimately show ?thesis by (simp add: store32_def bs)
qed

lemma store32_htonl: "store32 (htonl x) = rev (store32 x)"
  by (simp add: htonl_def store32_load32)

lemma ntohl_htonl [simp]: "ntohl (htonl x) = x"
  unfolding ntohl_def store32_htonl by simp

section \<open>The codec\<close>

definition kHeaderLen :: size_t where "kHeaderLen = 4"

definition max_frame :: int where "max_frame = 65536"

lemma retrieve_readable:
  assumes "retrieve n b = Inr b'"
  shows "unat (readableBytes b') + unat n = unat (readableBytes b)"
proof -
  from assms have n: "n \<le> readableBytes b" and b': "b' = b\<lparr>readIndex := readIndex b + n\<rparr>"
    by (auto simp: retrieve_def cpp_assert_Inr_iff)
  have "readableBytes b' = readableBytes b - n" by (simp add: b' readableBytes_def)
  then show ?thesis using n by (simp add: word_le_nat_alt unat_diff_64)
qed

text \<open>
  \<open>onMessage\<close>, over the state \<open>s\<close> of the connection: \<open>cb\<close> is the message callback and
  \<open>shut\<close> is \<open>conn->shutdown()\<close>. The length is signed; \<open>len + kHeaderLen\<close> is computed in
  \<open>size_t\<close>.
\<close>

function onMessage ::
    "(byte list \<Rightarrow> 's \<Rightarrow> 's result) \<Rightarrow> ('s \<Rightarrow> 's result) \<Rightarrow> buffer \<Rightarrow> 's \<Rightarrow> (buffer \<times> 's) result" where
  "onMessage cb shut b s =
     (if kHeaderLen \<le> readableBytes b then
        rbind (peek_bytes kHeaderLen b) (\<lambda>data.
        (let len = sint (ntohl (load32 data)) in
         if len > max_frame \<or> len < 0 then
           rbind (shut s) (\<lambda>s'. Inr (b, s'))
         else if word_of_int len + kHeaderLen \<le> readableBytes b then
           rbind (retrieve kHeaderLen b) (\<lambda>b1.
           rbind (peek_bytes (word_of_int len) b1) (\<lambda>message.
           rbind (cb message s) (\<lambda>s'.
           rbind (retrieve (word_of_int len) b1) (\<lambda>b2.
           onMessage cb shut b2 s'))))
         else Inr (b, s)))
      else Inr (b, s))"
  by pat_completeness auto

termination
proof (relation "measure (\<lambda>(cb, shut, b, s). unat (readableBytes b))", goal_cases)
  case 1
  show ?case by simp
next
  case (2 cb shut b s data len b1 message s' b2)
  have "unat (readableBytes b1) + 4 = unat (readableBytes b)"
    using retrieve_readable [OF 2(6)] by (simp add: kHeaderLen_def)
  moreover have "unat (readableBytes b2) \<le> unat (readableBytes b1)"
    using retrieve_readable [OF 2(9)] by linarith
  ultimately show ?case by simp
qed

declare onMessage.simps [simp del]

text \<open>What the callbacks keep, the loop keeps.\<close>

lemma onMessage_invariant:
  assumes "onMessage cb shut b s = Inr (b', s')" and "I s"
    and "\<And>m s s'. I s \<Longrightarrow> cb m s = Inr s' \<Longrightarrow> I s'" and "\<And>s s'. I s \<Longrightarrow> shut s = Inr s' \<Longrightarrow> I s'"
  shows "I s'"
  using assms
proof (induction cb shut b s rule: onMessage.induct)
  case (1 cb shut b s)
  have shut: "rbind (shut s) (\<lambda>s'. Inr (b, s')) = Inr (b', s') \<Longrightarrow> I s'"
    using 1(3,5) by (auto simp: rbind_Inr_iff)
  note run = 1(2) [unfolded onMessage.simps [of cb shut b s]]
  show ?case
  proof (cases "kHeaderLen \<le> readableBytes b")
    case h: True
    then obtain data where d: "peek_bytes kHeaderLen b = Inr data"
      using run by (auto simp: rbind_Inr_iff)
    let ?len = "sint (ntohl (load32 data))"
    consider "?len > max_frame \<or> ?len < 0" | "\<not> (?len > max_frame \<or> ?len < 0)" "word_of_int ?len + kHeaderLen \<le> readableBytes b"
      | "\<not> (?len > max_frame \<or> ?len < 0)" "\<not> word_of_int ?len + kHeaderLen \<le> readableBytes b" by blast
    then show ?thesis
    proof cases
      case 2
      obtain b1 message s1 b2 where s: "retrieve kHeaderLen b = Inr b1"
          "peek_bytes (word_of_int ?len) b1 = Inr message" "cb message s = Inr s1"
          "retrieve (word_of_int ?len) b1 = Inr b2" "onMessage cb shut b2 s1 = Inr (b', s')"
        using run h d 2 by (auto simp: Let_def rbind_Inr_iff)
      show ?thesis
        by (rule 1(1) [OF h d refl 2 s(1-4,5)]) (use 1(3-5) s(3) in blast)+
    qed (use run h d shut 1(3) in \<open>auto simp: Let_def\<close>)
  qed (use run 1(3) in simp)
qed

text \<open>
  \<open>send\<close>: a fresh buffer, the message, then its length in network order prepended; \<open>snd_buf\<close>
  is \<open>conn->send(&buffer)\<close>. The size is cut to 32 bits as the \<open>static_cast\<close> does.
\<close>

definition codec_send :: "(buffer \<Rightarrow> 's \<Rightarrow> 's result) \<Rightarrow> byte list \<Rightarrow> 's \<Rightarrow> 's result" where
  "codec_send snd_buf message s =
     rbind (append_bytes message new_Buffer) (\<lambda>b.
     (let len = ucast (vec_size message) :: 32 word; be32 = htonl len in
      rbind (prepend (store32 be32) b) (\<lambda>b'. snd_buf b' s)))"

lemma unat_word_of_int_small: "0 \<le> k \<Longrightarrow> k < 2 ^ 64 \<Longrightarrow> unat (word_of_int k :: 64 word) = nat k"
  by (simp add: unsigned_of_int take_bit_int_eq_self)

section \<open>The format\<close>

definition frame :: "byte list \<Rightarrow> byte list" where
  "frame m = store32 (htonl (of_nat (length m))) @ m"

definition header :: "byte list \<Rightarrow> int" where
  "header bs = sint (ntohl (load32 (take 4 bs)))"

text \<open>The parser on lists: the complete messages, what is left, and whether a header was bad.\<close>

fun parse_frames :: "byte list \<Rightarrow> byte list list \<times> byte list \<times> bool" where
  "parse_frames bs =
     (if length bs < 4 then ([], bs, False)
      else if header bs > max_frame \<or> header bs < 0 then ([], bs, True)
      else if length bs < 4 + nat (header bs) then ([], bs, False)
      else (case parse_frames (drop (4 + nat (header bs)) bs) of (ms, rest, bad) \<Rightarrow>
        (take (nat (header bs)) (drop 4 bs) # ms, rest, bad)))"

declare parse_frames.simps [simp del]

lemma header_append [simp]: "4 \<le> length xs \<Longrightarrow> header (xs @ ys) = header xs"
  by (simp add: header_def)

lemma header_frame:
  assumes "length m \<le> 65536"
  shows "header (frame m @ rest) = int (length m)"
proof -
  have "header (frame m @ rest) = sint (of_nat (length m) :: 32 word)"
    by (simp add: header_def frame_def)
  also have "\<dots> = int (length m)"
    using assms by (simp add: signed_of_nat signed_take_bit_int_eq_self)
  finally show ?thesis .
qed

section \<open>The loop is the parser\<close>

lemma body_size_words:
  assumes "\<not> (h > max_frame \<or> h < 0)"
  shows "unat (word_of_int h :: 64 word) = nat h"
    and "unat (word_of_int h + kHeaderLen :: 64 word) = 4 + nat h"
proof -
  show n: "unat (word_of_int h :: 64 word) = nat h"
    using assms by (simp add: max_frame_def unat_word_of_int_small)
  show "unat (word_of_int h + kHeaderLen :: 64 word) = 4 + nat h"
    using assms n unat_add_64 [of "word_of_int h" 4]
    by (simp add: kHeaderLen_def max_frame_def nat_less_iff)
qed

lemma retrieve_buf: "retrieve n b = Inr b' \<Longrightarrow> buf b' = buf b"
  by (auto simp: retrieve_def cpp_assert_Inr_iff)

lemma onMessage_parse:
  assumes "buffer_ok b" and "parse_frames (contents b) = (ms, rest, bad)"
  shows "\<exists>b'. buffer_ok b' \<and> contents b' = rest \<and> buf b' = buf b \<and>
    (\<forall>s. onMessage cb shut b s =
      rbind (rfold cb ms s) (\<lambda>s'. rbind (if bad then shut s' else Inr s') (\<lambda>s''. Inr (b', s''))))"
  using assms
proof (induction "contents b" arbitrary: b ms rest bad rule: parse_frames.induct)
  case (1 b)
  let ?c = "contents b" and ?h = "header (contents b)"
  have rl: "unat (readableBytes b) = length ?c" by (rule bq.readable_len [OF 1(2)])
  consider "length ?c < 4" | "4 \<le> length ?c" "?h > max_frame \<or> ?h < 0"
    | "4 \<le> length ?c" "\<not> (?h > max_frame \<or> ?h < 0)" "length ?c < 4 + nat ?h"
    | "4 \<le> length ?c" "\<not> (?h > max_frame \<or> ?h < 0)" "4 + nat ?h \<le> length ?c"
    by linarith
  then show ?case
  proof cases
    case 1
    then have "\<not> kHeaderLen \<le> readableBytes b" using rl by (simp add: kHeaderLen_def word_le_nat_alt)
    then have "onMessage cb shut b s = Inr (b, s)" for s by (subst onMessage.simps) simp
    then show ?thesis using 1 "1.prems" by (auto simp: parse_frames.simps [of ?c])
  next
    case 2
    then have guard: "kHeaderLen \<le> readableBytes b"
      using rl by (simp add: kHeaderLen_def word_le_nat_alt)
    have look: "peek_bytes kHeaderLen b = Inr (take 4 ?c)"
      using bq.look_front [OF 1(2), of kHeaderLen] 2(1) by (simp add: kHeaderLen_def)
    have "onMessage cb shut b s = rbind (shut s) (\<lambda>s'. Inr (b, s'))" for s
      using 2 guard look by (subst onMessage.simps) (simp add: header_def Let_def)
    then show ?thesis using 2 "1.prems" by (auto simp: parse_frames.simps [of ?c])
  next
    case 3
    then have guard: "kHeaderLen \<le> readableBytes b"
      using rl by (simp add: kHeaderLen_def word_le_nat_alt)
    have look: "peek_bytes kHeaderLen b = Inr (take 4 ?c)"
      using bq.look_front [OF 1(2), of kHeaderLen] 3(1) by (simp add: kHeaderLen_def)
    have "\<not> word_of_int ?h + kHeaderLen \<le> readableBytes b"
      using rl 3(3) body_size_words(2) [OF 3(2)] by (simp add: word_le_nat_alt)
    then have "onMessage cb shut b s = Inr (b, s)" for s
      using 3 guard look by (subst onMessage.simps) (auto simp: header_def Let_def)
    then show ?thesis using 3 "1.prems" by (auto simp: parse_frames.simps [of ?c])
  next
    case 4
    then have guard: "kHeaderLen \<le> readableBytes b"
      using rl by (simp add: kHeaderLen_def word_le_nat_alt)
    have look: "peek_bytes kHeaderLen b = Inr (take 4 ?c)"
      using bq.look_front [OF 1(2), of kHeaderLen] 4(1) by (simp add: kHeaderLen_def)
    note n = body_size_words [OF 4(2)]
    have fits: "word_of_int ?h + kHeaderLen \<le> readableBytes b"
      using rl 4(3) n(2) by (simp add: word_le_nat_alt)
    let ?m = "take (nat ?h) (drop 4 ?c)" and ?r = "drop (4 + nat ?h) ?c"
    have split: "?c = take 4 ?c @ ?m @ ?r"
      using append_take_drop_id [of 4 ?c] append_take_drop_id [of "nat ?h" "drop 4 ?c"]
      by (simp add: add.commute)
    obtain b1 b2 where b12: "retrieve kHeaderLen b = Inr b1"
        "peek_bytes (word_of_int ?h) b1 = Inr ?m" "retrieve (word_of_int ?h) b1 = Inr b2"
        "buffer_ok b2" "contents b2 = ?r"
      using bq.take_frame [OF 1(2) split, of kHeaderLen "word_of_int ?h"] n 4
      by (auto simp: kHeaderLen_def)
    have bufs: "buf b2 = buf b" using retrieve_buf b12(1,3) by metis
    obtain ms' where pr: "parse_frames (contents b2) = (ms', rest, bad)" "ms = ?m # ms'"
      using 4 "1.prems"(2) b12(5) by (auto simp: parse_frames.simps [of ?c] split: prod.splits)
    have unfolded: "onMessage cb shut b s = rbind (cb ?m s) (\<lambda>s'. onMessage cb shut b2 s')" for s
      using guard look fits 4(2) b12
      by (subst onMessage.simps) (simp add: header_def [symmetric] Let_def)
    obtain b' where b': "buffer_ok b'" "contents b' = rest" "buf b' = buf b2"
      "\<And>s. onMessage cb shut b2 s = rbind (rfold cb ms' s)
        (\<lambda>s'. rbind (if bad then shut s' else Inr s') (\<lambda>s''. Inr (b', s'')))"
      using 1(1) [of b2 ms' rest bad] b12 pr(1) 4 by auto
    have "onMessage cb shut b s = rbind (rfold cb ms s)
        (\<lambda>s'. rbind (if bad then shut s' else Inr s') (\<lambda>s''. Inr (b', s'')))" for s
      by (cases "cb ?m s") (simp_all add: unfolded pr(2) b'(4))
    then show ?thesis using b' bufs by auto
  qed
qed

lemma parse_frames_short:
  "parse_frames bs = (ms, rest, bad) \<Longrightarrow> m \<in> set ms \<Longrightarrow> length m \<le> 65536"
proof (induction bs arbitrary: ms rest bad rule: parse_frames.induct)
  case (1 bs)
  show ?case using 1 by (auto simp: parse_frames.simps [of bs] max_frame_def split: if_splits prod.splits)
qed

section \<open>Streams of frames\<close>

lemma length_frame [simp]: "length (frame m) = 4 + length m"
  by (simp add: frame_def)

lemma frame_empty: "frame [] = [0, 0, 0, 0]"
  unfolding frame_def store32_htonl by (simp add: store32_def)

lemma header_of_minus_one: "header [255, 255, 255, 255] = -1"
  by (simp add: header_def ntohl_def store32_def)

lemma frame_example: "frame [x, y] = [0, 0, 0, 2, x, y]"
  unfolding frame_def store32_htonl by (simp add: store32_def)

lemma parse_frame:
  assumes "length m \<le> 65536"
  shows "parse_frames (frame m @ rest) =
    (case parse_frames rest of (ms, r, bad) \<Rightarrow> (m # ms, r, bad))"
  using header_frame [OF assms, of rest] assms
  by (subst parse_frames.simps) (simp add: max_frame_def frame_def)

lemma parse_part_of_frame:
  assumes "length m \<le> 65536" and "frame m = p @ q" and "q \<noteq> []"
  shows "parse_frames p = ([], p, False)"
proof (cases "length p < 4")
  case True
  then show ?thesis by (simp add: parse_frames.simps [of p])
next
  case False
  then have "header p = int (length m)"
    using header_frame [OF assms(1), of "[]"] assms(2) header_append [of p q] by simp
  moreover have "length p < 4 + length m"
    using arg_cong [OF assms(2), of length] assms(3) by simp
  ultimately show ?thesis
    using assms(1) False by (simp add: parse_frames.simps [of p] max_frame_def)
qed

text \<open>Any prefix of a stream of frames parses to some of them and a rest shorter than a frame.\<close>

lemma parse_prefix:
  assumes "p @ q = concat (map frame ms)" and "\<forall>m \<in> set ms. length m + 4 \<le> L"
    and "L \<le> 65540" and "0 < L"
  obtains ms1 ms2 rest where "ms = ms1 @ ms2" "parse_frames p = (ms1, rest, False)"
    "rest @ q = concat (map frame ms2)" "length rest < L" "parse_frames rest = ([], rest, False)"
  using assms
proof (induction ms arbitrary: p thesis)
  case Nil
  have "parse_frames [] = ([], [], False)" by (simp add: parse_frames.simps)
  then show ?case using Nil.prems(1) [of "[]" "[]" "[]"] Nil.prems by simp
next
  case (Cons m ms)
  have m: "length m \<le> 65536" "length m + 4 \<le> L" using Cons.prems(3,4) by auto
  show ?case
  proof (cases "length p < length (frame m)")
    case True
    define q' where "q' = drop (length p) (frame m)"
    have "p @ q = frame m @ concat (map frame ms)" using Cons.prems(2) by simp
    then have "p = take (length p) (frame m)" using True
      by (metis append_eq_conv_conj less_imp_le take_append diff_is_0_eq take0 append_Nil2)
    then have sp: "frame m = p @ q'" by (metis append_take_drop_id q'_def)
    moreover have "q' \<noteq> []" using True by (simp add: q'_def)
    ultimately have "parse_frames p = ([], p, False)" by (rule parse_part_of_frame [OF m(1)])
    then show ?thesis
      using Cons.prems(1) [of "[]" "m # ms" p] Cons.prems(2) True m(2) by simp
  next
    case False
    define p' where "p' = drop (length (frame m)) p"
    have eq: "p @ q = frame m @ concat (map frame ms)" using Cons.prems(2) by simp
    then have "frame m = take (length (frame m)) p" using False
      by (metis append_eq_conv_conj not_less take_append diff_is_0_eq take0 append_Nil2)
    then have p: "p = frame m @ p'" by (metis append_take_drop_id p'_def)
    obtain ms1 ms2 rest where IH: "ms = ms1 @ ms2" "parse_frames p' = (ms1, rest, False)"
      "rest @ q = concat (map frame ms2)" "length rest < L" "parse_frames rest = ([], rest, False)"
      using Cons.IH [of p'] eq p Cons.prems(3-5) by auto
    show ?thesis
      using Cons.prems(1) [of "m # ms1" ms2 rest] IH parse_frame [OF m(1), of p'] p by simp
  qed
qed

lemma no_frame_left:
  assumes "s = concat (map frame ms)" and "parse_frames s = ([], s, False)" and "\<forall>m\<in>set ms. length m \<le> 65536"
  shows "ms = []"
proof (cases ms)
  case (Cons m ms')
  then show ?thesis using assms parse_frame [of m "concat (map frame ms')"] by (auto split: prod.splits)
qed simp

section \<open>Properties\<close>

text \<open>
  C5. \<open>LengthHeaderCodec::onMessage\<close> on any valid input buffer is the list-level parser: the
  message callback runs once per complete frame, in order, with exactly the frame's body; a
  header that is negative or above 65536 ends the loop with one \<open>shutdown\<close> and stays in the
  buffer; everything that is not a complete frame is left for the next call. The loop never
  reads or retrieves past the readable bytes.
\<close>

theorem onMessage_is_parser:
  assumes "buffer_ok b"
  shows "case parse_frames (contents b) of (ms, rest, bad) \<Rightarrow>
    \<exists>b'. buffer_ok b' \<and> contents b' = rest \<and>
      onMessage cb shut b s = rbind (rfold cb ms s)
        (\<lambda>s'. rbind (if bad then shut s' else Inr s') (\<lambda>s''. Inr (b', s'')))"
  using onMessage_parse [OF assms, of _ _ _ cb shut] by (fastforce split: prod.splits)

theorem onMessage_is_parser_witness:
  "\<exists>b'. contents b' = [255, 255, 255, 255] \<and>
    onMessage (\<lambda>m (ms, k). Inr (ms @ [m], k)) (\<lambda>(ms, k). Inr (ms, Suc k))
      \<lparr>buf = replicate 8 0 @ [0, 0, 0, 2, 7, 8, 0, 0, 0, 0, 255, 255, 255, 255], readIndex = 8,
       writeIndex = 22\<rparr> ([], 0) = Inr (b', ([[7, 8], []], 1))"
proof -
  let ?b = "\<lparr>buf = replicate 8 0 @ [0, 0, 0, 2, 7, 8, 0, 0, 0, 0, 255, 255, 255, 255], readIndex = 8,
    writeIndex = 22\<rparr>"
  have ok: "buffer_ok ?b" by (simp add: buffer_ok_def)
  have "contents ?b = frame [7, 8] @ frame [] @ [255, 255, 255, 255]"
    by (simp add: contents_def frame_example frame_empty)
  moreover have "parse_frames [255, 255, 255, 255] = ([], [255, 255, 255, 255], True)"
    by (simp add: parse_frames.simps [of "[255, 255, 255, 255]"] header_of_minus_one)
  ultimately have "parse_frames (contents ?b) = ([[7, 8], []], [255, 255, 255, 255], True)"
    by (simp add: parse_frame)
  then show ?thesis
    using onMessage_is_parser [OF ok, of "\<lambda>m (ms, k). Inr (ms @ [m], k)" "\<lambda>(ms, k). Inr (ms, Suc k)" "([], 0)"]
    by auto
qed

text \<open>
  The connection's read handler with the codec as its message callback: read what the socket
  has, then run \<open>onMessage\<close> on the input buffer.
\<close>

definition read_and_decode ::
    "(byte list \<Rightarrow> 's \<Rightarrow> 's result) \<Rightarrow> ('s \<Rightarrow> 's result) \<Rightarrow> byte list \<Rightarrow> buffer \<times> 's \<Rightarrow>
     (buffer \<times> 's) result" where
  "read_and_decode cb shut d bs =
     rbind (readFd (Inr d) (fst bs)) (\<lambda>(b', n, err). onMessage cb shut b' (snd bs))"

lemma read_and_decode_stream:
  assumes "buffer_ok b" and "1032 \<le> length (buf b)" and "length (buf b) < 2 ^ 62"
    and "contents b @ concat ds = concat (map frame ms)"
    and "\<forall>m \<in> set ms. length m + 4 \<le> L" and "\<forall>d \<in> set ds. length d \<le> C"
    and "L + C \<le> 1025" and "0 < L" and "length (contents b) < L"
    and "parse_frames (contents b) = ([], contents b, False)"
  shows "\<exists>b'. rfold (read_and_decode cb shut) ds (b, s) = rbind (rfold cb ms s) (\<lambda>s'. Inr (b', s'))
    \<and> contents b' = []"
  using assms
proof (induction ds arbitrary: b ms s)
  case Nil
  have "ms = []" using no_frame_left [of "contents b" ms] Nil.prems(4,5,7,10) by fastforce
  then show ?case using Nil.prems by auto
next
  case (Cons d ds)
  have d: "length d \<le> C" using Cons.prems(6) by simp
  have room: "length (contents b) + length d + 8 \<le> length (buf b)"
    using d Cons.prems(2,7,9) by linarith
  obtain b1 where b1: "readFd (Inr d) b = Inr (b1, int (length d), None)" "buffer_ok b1"
      "contents b1 = contents b @ d"
    using readFd_outcome [OF Cons.prems(1), of d] room buffer_okD(1,2,4) [OF Cons.prems(1)] d
      Cons.prems(2,3,7)
    by (auto split: sum.splits)
  have len1: "1032 \<le> length (buf b1)" "length (buf b1) < 2 ^ 62"
    using readFd_length [OF Cons.prems(1) room b1(1)] Cons.prems(2,3) by auto
  obtain ms1 ms2 rest where p: "ms = ms1 @ ms2" "parse_frames (contents b1) = (ms1, rest, False)"
      "rest @ concat ds = concat (map frame ms2)" "length rest < L"
      "parse_frames rest = ([], rest, False)"
    using parse_prefix [of "contents b1" "concat ds" ms L] Cons.prems(4,5,7,8) b1(3) by auto
  obtain b2 where b2: "buffer_ok b2" "contents b2 = rest" "buf b2 = buf b1"
      "\<And>s. onMessage cb shut b1 s = rbind (rfold cb ms1 s) (\<lambda>s'. Inr (b2, s'))"
    using onMessage_parse [OF b1(2) p(2)] by simp blast
  have step: "read_and_decode cb shut d (b, s) = rbind (rfold cb ms1 s) (\<lambda>s'. Inr (b2, s'))"
    using b1(1) b2(4) by (simp add: read_and_decode_def)
  have "\<forall>m \<in> set ms2. length m + 4 \<le> L" and "\<forall>d \<in> set ds. length d \<le> C"
    using Cons.prems(5,6) p(1) by simp_all
  note smaller = this
  have IH: "\<exists>b'. rfold (read_and_decode cb shut) ds (b2, s') =
      rbind (rfold cb ms2 s') (\<lambda>s''. Inr (b', s'')) \<and> contents b' = []" for s'
    using Cons.IH [of b2 ms2, OF b2(1), unfolded b2(2,3), OF len1 p(3) smaller Cons.prems(7,8) p(4,5)]
    by blast
  show ?case
  proof (cases "rfold cb ms1 s")
    case (Inl e)
    then show ?thesis using step IH p(1) by (auto simp: rfold_append)
  next
    case (Inr s')
    then show ?thesis using step IH [of s'] p(1) by (auto simp: rfold_append)
  qed
qed

text \<open>
  C4. Framing survives the stream, for small frames and reads: when every frame, header included, has
  at most \<open>L\<close> bytes, every read at most \<open>C\<close>, and \<open>L + C \<le> 1025\<close>, then wherever the concatenated
  frames of the messages \<open>ms\<close> are cut into such reads, feeding the reads to a fresh connection
  delivers exactly the messages, once each and in order, and leaves the input buffer empty. The bound
  keeps the unread bytes and the next read within the 1024 bytes that the buffer can always hold. It
  is needed: the codec accepts bodies of up to 65536 bytes, but a read that does not fit behind
  what is unread can end the program in \<open>makeSpace\<close> (C16).
\<close>

theorem stream_delivery:
  assumes "concat ds = concat (map frame ms)"
    and "\<forall>m \<in> set ms. length m + 4 \<le> L" and "\<forall>d \<in> set ds. length d \<le> C"
    and "L + C \<le> 1025" and "0 < L"
  shows "\<exists>b'. rfold (read_and_decode cb shut) ds (new_Buffer, s) =
    rbind (rfold cb ms s) (\<lambda>s'. Inr (b', s')) \<and> contents b' = []"
  using read_and_decode_stream [OF new_Buffer_ok(1), of ds ms L C cb shut s] assms new_Buffer_ok(2)
  by (auto simp: parse_frames.simps)

theorem stream_delivery_witness:
  "\<exists>b'. rfold (read_and_decode (\<lambda>m s. Inr (s @ [m])) Inr)
      [[0, 0], [0, 2, 7], [8, 0, 0, 0, 0]] (new_Buffer, []) = Inr (b', [[7, 8], []]) \<and>
    contents b' = []"
proof -
  let ?cb = "\<lambda>m s. Inr (s @ [m])"
  have frames: "concat [[0, 0], [0, 2, 7], [8, 0, 0, 0, 0]] = concat (map frame [[7, 8], []])"
    by (simp add: frame_example frame_empty)
  have "rfold ?cb [[7, 8 :: byte], []] [] = Inr [[7, 8], []]" by simp
  then show ?thesis
    using stream_delivery [OF frames, of 6 5 ?cb Inr "[]"] by (simp del: rfold.simps)
qed

lemma codec_send_eq:
  assumes "length message < 2 ^ 31"
  shows "\<exists>b. (\<forall>snd_buf s. codec_send snd_buf message s = snd_buf b s) \<and> buffer_ok b \<and>
    contents b = frame message"
proof -
  obtain b where b: "append_bytes message new_Buffer = Inr b" "buffer_ok b" "contents b = message"
      "8 \<le> unat (readIndex b)"
    using append_succeeds [OF new_Buffer_ok(1), of message] assms new_Buffer_ok(2)
      append_new_readIndex [of message]
    by (auto simp: append_room_def)
  have len: "ucast (vec_size message) = (of_nat (length message) :: 32 word)"
    using assms by (simp add: vec_size_def unsigned_of_nat take_bit_nat_eq_self)
  have room: "length (store32 (htonl (of_nat (length message)))) \<le> unat (readIndex b)"
    using b(4) by simp
  from prepend_front [OF b(2) room] obtain b' where
      b': "prepend (store32 (htonl (of_nat (length message)))) b = Inr b'" "buffer_ok b'"
      "contents b' = frame message"
    unfolding frame_def b(3) by blast
  have "codec_send snd_buf message s = snd_buf b' s" for snd_buf s
    unfolding codec_send_def b(1) rbind_simps Let_def len b'(1) ..
  then show ?thesis using b'(2,3) by blast
qed

text \<open>
  C30. \<open>LengthHeaderCodec::send\<close> never fails on a message below 2 GiB and hands the connection
  a buffer holding exactly one frame of it; the receiving \<open>onMessage\<close> parses that frame back to
  the message when it has at most 65536 bytes and rejects it as invalid, shutting the connection
  down, when it is longer: \<open>send\<close> does not check the limit that \<open>onMessage\<close> enforces.
\<close>

theorem codec_send_frame:
  fixes s :: 's
  assumes "length message < 2 ^ 31"
  shows "(\<exists>b. codec_send snd_buf message s = snd_buf b s \<and> buffer_ok b \<and>
      contents b = frame message) \<and>
    parse_frames (frame message) =
      (if length message \<le> 65536 then ([message], [], False) else ([], frame message, True))"
proof
  show "\<exists>b. codec_send snd_buf message s = snd_buf b s \<and> buffer_ok b \<and> contents b = frame message"
  proof -
    obtain b where b: "\<forall>snd_buf s. codec_send snd_buf message s = snd_buf b (s :: 's)"
        "buffer_ok b" "contents b = frame message"
      using codec_send_eq [OF assms] by (elim exE conjE) (rule that)
    then show ?thesis by (intro exI [of _ b]) simp
  qed
next
  have h: "header (frame message) = int (length message)"
    using assms by (simp add: header_def frame_def signed_of_nat signed_take_bit_int_eq_self)
  show "parse_frames (frame message) =
      (if length message \<le> 65536 then ([message], [], False) else ([], frame message, True))"
  proof (cases "length message \<le> 65536")
    case True
    have "parse_frames [] = ([], [], False)" by (simp add: parse_frames.simps)
    then show ?thesis using parse_frame [OF True, of "[]"] True by simp
  next
    case False
    then show ?thesis
      using h by (subst parse_frames.simps) (simp add: max_frame_def frame_def)
  qed
qed

theorem codec_send_frame_witness:
  "codec_send (\<lambda>b s. Inr (contents b)) [9, 9] [] = Inr [0, 0, 0, 2, 9, 9]"
  using codec_send_frame [of "[9, 9]" "\<lambda>b s. Inr (contents b)" "[]"]
  by (auto simp: frame_example)

end
