(* ===== verification/Texts.thy ===== *)
theory Texts
  imports Timestamps "HOL-Library.Signed_Division"
begin

text \<open>
  Numbers and times as text: the conversions of \<open>snprintf\<close> that the program uses, the strings of
  \<open>Timestamp\<close> (Timestamp.cpp), and the lines of \<open>Logger\<close> (Logger.h, Logger.cpp).
\<close>

section \<open>Numbers in text\<close>

text \<open>\<open>%u\<close> and \<open>%d\<close>.\<close>

fun decimal :: "nat \<Rightarrow> string" where
  "decimal n = (if n < 10 then [char_of (48 + n)] else decimal (n div 10) @ [char_of (48 + n mod 10)])"

declare decimal.simps [simp del]

definition decimal_int :: "int \<Rightarrow> string" where
  "decimal_int k = (if k < 0 then ''-'' @ decimal (nat (- k)) else decimal (nat k))"

definition undecimal :: "string \<Rightarrow> nat" where
  "undecimal = foldl (\<lambda>a c. 10 * a + (of_char c - 48)) 0"

lemma undecimal_decimal: "undecimal (decimal n) = n"
proof (induction n rule: decimal.induct)
  case (1 n)
  have d: "of_char (char_of (48 + k) :: char) = 48 + k" if "k < 10" for k :: nat using that by simp
  show ?case
  proof (cases "n < 10")
    case True
    then show ?thesis using d [of n] by (subst decimal.simps) (simp add: undecimal_def)
  next
    case False
    then have "undecimal (decimal n) = 10 * undecimal (decimal (n div 10)) + n mod 10"
      using d [of "n mod 10"] by (subst decimal.simps) (simp add: undecimal_def)
    then show ?thesis using 1 False by simp
  qed
qed

lemma decimal_inject: "decimal m = decimal n \<longleftrightarrow> m = n"
  by (metis undecimal_decimal)

text \<open>\<open>%0wd\<close> and \<open>%wd\<close>.\<close>

definition zero_padded :: "nat \<Rightarrow> int \<Rightarrow> string" where
  "zero_padded w k =
     (let s = decimal (nat \<bar>k\<bar>); sign = (if k < 0 then ''-'' else []) in
      sign @ replicate (w - length (sign @ s)) CHR ''0'' @ s)"

definition space_padded :: "nat \<Rightarrow> int \<Rightarrow> string" where
  "space_padded w k = replicate (w - length (decimal_int k)) CHR '' '' @ decimal_int k"

lemma undecimal_append:
  "undecimal (xs @ ys) = undecimal xs * 10 ^ length ys + undecimal ys"
proof (induction ys rule: rev_induct)
  case Nil
  show ?case by (simp add: undecimal_def)
next
  case (snoc y ys)
  then show ?case by (simp add: undecimal_def flip: append_assoc)
qed

lemma undecimal_zeros: "undecimal (replicate n CHR ''0'') = 0"
  by (induction n) (simp_all add: undecimal_def)

lemma undecimal_zero_padded: "0 \<le> k \<Longrightarrow> undecimal (zero_padded w k) = nat k"
  by (simp add: zero_padded_def Let_def undecimal_append undecimal_zeros undecimal_decimal)

lemma length_decimal: "0 < w \<Longrightarrow> n < 10 ^ w \<Longrightarrow> length (decimal n) \<le> w"
proof (induction w arbitrary: n)
  case (Suc w)
  show ?case
  proof (cases "n < 10")
    case True
    then show ?thesis by (subst decimal.simps) simp
  next
    case False
    then have "0 < w" using Suc.prems(2) by (cases w) auto
    moreover have "n div 10 < 10 ^ w" using Suc.prems(2) by (simp add: div_less_iff_less_mult mult.commute)
    ultimately show ?thesis using Suc.IH [of "n div 10"] False by (subst decimal.simps) simp
  qed
qed simp

lemma length_zero_padded: "0 < w \<Longrightarrow> 0 \<le> k \<Longrightarrow> k < 10 ^ w \<Longrightarrow> length (zero_padded w k) = w"
  using length_decimal [of w "nat k"] by (simp add: zero_padded_def Let_def nat_less_iff)

section \<open>Timestamps\<close>

text \<open>Division of \<open>int64_t\<close> truncates. The text never fills the 32 bytes of the buffer.\<close>

definition Timestamp_toString :: "timestamp \<Rightarrow> string" where
  "Timestamp_toString t =
     (let us = sint (microSecondsSinceEpoch t) in
      take 31 (decimal_int (us sdiv kMicroSecondsPerSecond) @ ''.'' @
        zero_padded 6 (us smod kMicroSecondsPerSecond)))"

text \<open>The broken-down time of \<open>gmtime_r\<close>: the Gregorian calendar, in UTC.\<close>

record tm =
  tm_year :: int
  tm_mon :: int
  tm_mday :: int
  tm_hour :: int
  tm_min :: int
  tm_sec :: int

definition leap :: "int \<Rightarrow> bool" where
  "leap y \<longleftrightarrow> y mod 4 = 0 \<and> (y mod 100 \<noteq> 0 \<or> y mod 400 = 0)"

definition year_length :: "int \<Rightarrow> int" where
  "year_length y = (if leap y then 366 else 365)"

definition month_lengths :: "int \<Rightarrow> int list" where
  "month_lengths y = [31, if leap y then 29 else 28, 31, 30, 31, 30, 31, 31, 30, 31, 30, 31]"

text \<open>The year of the day \<open>d\<close>, counted from the first day of the year \<open>y\<close>, and its day in that year.\<close>

function year_of_day :: "int \<Rightarrow> int \<Rightarrow> int \<times> int" where
  "year_of_day y d =
     (if d < 0 then year_of_day (y - 1) (d + year_length (y - 1))
      else if d < year_length y then (y, d)
      else year_of_day (y + 1) (d - year_length y))"
  by pat_completeness auto

termination
  by (relation "measure (\<lambda>(y, d). if d < 0 then nat (- d) + 1 else if d < year_length y then 0 else nat d)")
    (auto simp: year_length_def)

declare year_of_day.simps [simp del]

fun month_of_day :: "int list \<Rightarrow> int \<Rightarrow> int \<times> int" where
  "month_of_day [] d = (0, d)"
| "month_of_day (l # ls) d =
     (if d < l then (0, d) else (case month_of_day ls (d - l) of (m, d) \<Rightarrow> (m + 1, d)))"

definition gmtime :: "int \<Rightarrow> tm" where
  "gmtime s =
     (case year_of_day 1970 (s div 86400) of (y, yd) \<Rightarrow>
      case month_of_day (month_lengths y) yd of (m, d) \<Rightarrow>
      (let r = s mod 86400 in
       \<lparr>tm_year = y - 1900, tm_mon = m, tm_mday = d + 1,
        tm_hour = r div 3600, tm_min = r mod 3600 div 60, tm_sec = r mod 60\<rparr>))"

definition Timestamp_toFormattedString :: "timestamp \<Rightarrow> string" where
  "Timestamp_toFormattedString t =
     (let us = sint (microSecondsSinceEpoch t);
          tm = gmtime (us sdiv kMicroSecondsPerSecond) in
      take 63 (space_padded 4 (tm_year tm + 1900) @ ''/'' @ zero_padded 2 (tm_mon tm + 1) @ ''/'' @
        zero_padded 2 (tm_mday tm) @ '' '' @ zero_padded 2 (tm_hour tm) @ '':'' @
        zero_padded 2 (tm_min tm) @ '':'' @ zero_padded 2 (tm_sec tm) @ ''.'' @
        zero_padded 6 (us smod kMicroSecondsPerSecond)))"

section \<open>The calendar\<close>

text \<open>The days before the year \<open>y\<close>, in closed form, and the seconds that a broken-down time denotes.\<close>

definition days_before_year :: "int \<Rightarrow> int" where
  "days_before_year y = 365 * (y - 1970) + ((y - 1) div 4 - (y - 1) div 100 + (y - 1) div 400) - 477"

definition timegm :: "tm \<Rightarrow> int" where
  "timegm t =
     (days_before_year (tm_year t + 1900) +
      sum_list (take (nat (tm_mon t)) (month_lengths (tm_year t + 1900))) + tm_mday t - 1) * 86400 +
     tm_hour t * 3600 + tm_min t * 60 + tm_sec t"

lemma div_pred:
  fixes y n :: int
  assumes "0 < n"
  shows "y div n = (y - 1) div n + (if y mod n = 0 then 1 else 0)"
proof (cases "y mod n = 0")
  case True
  then have "y = y div n * n" using div_mult_mod_eq [of y n] by simp
  then have "y - 1 = (n - 1) + (y div n - 1) * n" by (simp add: left_diff_distrib)
  then have "(y - 1) div n = ((n - 1) + (y div n - 1) * n) div n" by (rule arg_cong)
  also have "\<dots> = y div n - 1" using assms by (simp add: div_pos_pos_trivial)
  finally show ?thesis using True by simp
next
  case False
  moreover have "0 \<le> y mod n" "y mod n < n" using assms by simp_all
  ultimately have "(y mod n - 1) div n = 0" by (intro div_pos_pos_trivial) linarith+
  moreover have "y - 1 = (y mod n - 1) + y div n * n" by simp
  then have "(y - 1) div n = ((y mod n - 1) + y div n * n) div n" by (rule arg_cong)
  ultimately show ?thesis using assms False by simp
qed

lemma leap_sum:
  fixes a b c :: int
  assumes "R \<longrightarrow> Q" and "Q \<longrightarrow> P"
  shows "(a + (if P then 1 else 0)) - (b + (if Q then 1 else 0)) + (c + (if R then 1 else 0)) =
    a - b + c + (if P \<and> (\<not> Q \<or> R) then 1 else 0)"
  using assms by (cases P; cases Q; cases R) simp_all

lemma days_before_next_year: "days_before_year (y + 1) = days_before_year y + year_length y"
proof -
  have "400 dvd y \<Longrightarrow> 100 dvd y" "100 dvd y \<Longrightarrow> 4 dvd y"
    using dvd_trans [of 100 400 y] dvd_trans [of 4 100 y] by simp_all
  then have R: "y mod 400 = 0 \<longrightarrow> y mod 100 = 0" and Q: "y mod 100 = 0 \<longrightarrow> y mod 4 = 0"
    by (simp_all add: mod_eq_0_iff_dvd)
  have "y div 4 - y div 100 + y div 400 =
      (y - 1) div 4 - (y - 1) div 100 + (y - 1) div 400 + (if leap y then 1 else 0)"
    unfolding leap_def leap_sum [OF R Q, symmetric]
    by (simp only: div_pred [of 4 y, simplified, symmetric] div_pred [of 100 y, simplified, symmetric]
        div_pred [of 400 y, simplified, symmetric])
  then have "days_before_year (y + 1) = 365 * (y + 1 - 1970) +
      ((y - 1) div 4 - (y - 1) div 100 + (y - 1) div 400 + (if leap y then 1 else 0)) - 477"
    unfolding days_before_year_def by (simp only: add_diff_cancel_right')
  also have "\<dots> = days_before_year y + year_length y"
    unfolding days_before_year_def year_length_def by (cases "leap y") simp_all
  finally show ?thesis .
qed

lemma year_of_day_range: "year_of_day y d = (y', d') \<Longrightarrow>
    0 \<le> d' \<and> d' < year_length y' \<and> days_before_year y' + d' = days_before_year y + d"
proof (induction y d rule: year_of_day.induct)
  case (1 y d)
  consider "d < 0" | "0 \<le> d" "d < year_length y" | "0 \<le> d" "\<not> d < year_length y" by linarith
  then show ?case
  proof cases
    case 1
    then have "year_of_day (y - 1) (d + year_length (y - 1)) = (y', d')"
      using "1.prems" year_of_day.simps [of y d] by simp
    from "1.IH"(1) [OF 1 this] show ?thesis using days_before_next_year [of "y - 1"] by simp
  next
    case 2
    then show ?thesis using "1.prems" year_of_day.simps [of y d] by simp
  next
    case 3
    then have "year_of_day (y + 1) (d - year_length y) = (y', d')"
      using "1.prems" year_of_day.simps [of y d] by simp
    from "1.IH"(2) [OF _ 3(2) this] show ?thesis using days_before_next_year [of y] 3 by simp
  qed
qed

lemma month_of_day_range:
  "month_of_day ls d = (m, d') \<Longrightarrow> 0 \<le> d \<Longrightarrow> d < sum_list ls \<Longrightarrow>
    0 \<le> m \<and> nat m < length ls \<and> 0 \<le> d' \<and> d' < ls ! nat m \<and> sum_list (take (nat m) ls) + d' = d"
proof (induction ls arbitrary: d m d')
  case (Cons l ls)
  show ?case
  proof (cases "d < l")
    case True
    then show ?thesis using Cons.prems by auto
  next
    case False
    then obtain k where k: "month_of_day ls (d - l) = (k, d')" "m = k + 1"
      using Cons.prems(1) by (auto split: prod.splits)
    have "0 \<le> k \<and> nat k < length ls \<and> 0 \<le> d' \<and> d' < ls ! nat k \<and> sum_list (take (nat k) ls) + d' = d - l"
      using Cons.IH [OF k(1)] Cons.prems False by auto
    then show ?thesis using k(2) by (auto simp: nat_add_distrib)
  qed
qed simp

lemma sum_month_lengths: "sum_list (month_lengths y) = year_length y"
  by (simp add: month_lengths_def year_length_def)

lemma day_parts:
  fixes r :: int
  assumes "0 \<le> r" and "r < 86400"
  shows "r = r div 3600 * 3600 + r mod 3600 div 60 * 60 + r mod 60"
    and "0 \<le> r div 3600" and "r div 3600 < 24"
    and "0 \<le> r mod 3600 div 60" and "r mod 3600 div 60 < 60"
proof -
  have "r mod 3600 mod 60 = r mod 60" by (rule mod_mod_cancel) simp
  then show "r = r div 3600 * 3600 + r mod 3600 div 60 * 60 + r mod 60"
    using div_mult_mod_eq [of r 3600] div_mult_mod_eq [of "r mod 3600" 60] by linarith
  show "0 \<le> r div 3600" "0 \<le> r mod 3600 div 60"
    using assms(1) by (simp_all add: pos_imp_zdiv_nonneg_iff)
  show "r div 3600 < 24" using assms(2) zdiv_mono1 [of r 86399 3600] by simp
  show "r mod 3600 div 60 < 60" using zdiv_mono1 [of "r mod 3600" 3599 60] by simp
qed

text \<open>\<open>gmtime\<close> inverts the closed form, with every member in its range.\<close>

lemma timegm_gmtime:
  "timegm (gmtime s) = s \<and> 0 \<le> tm_mon (gmtime s) \<and> tm_mon (gmtime s) < 12 \<and>
    1 \<le> tm_mday (gmtime s) \<and> tm_mday (gmtime s) \<le> 31 \<and> 0 \<le> tm_hour (gmtime s) \<and> tm_hour (gmtime s) < 24 \<and>
    0 \<le> tm_min (gmtime s) \<and> tm_min (gmtime s) < 60 \<and> 0 \<le> tm_sec (gmtime s) \<and> tm_sec (gmtime s) < 60"
proof -
  obtain y yd where y: "year_of_day 1970 (s div 86400) = (y, yd)" by force
  obtain m d where m: "month_of_day (month_lengths y) yd = (m, d)" by force
  note yr = year_of_day_range [OF y]
  have mr: "0 \<le> m" "nat m < 12" "0 \<le> d" "d < month_lengths y ! nat m"
      "sum_list (take (nat m) (month_lengths y)) + d = yd"
    using month_of_day_range [OF m] yr by (auto simp: sum_month_lengths) (simp add: month_lengths_def)
  have "\<forall>l\<in>set (month_lengths y). l \<le> 31" by (simp add: month_lengths_def)
  moreover have "length (month_lengths y) = 12" by (simp add: month_lengths_def)
  ultimately have m31: "month_lengths y ! nat m \<le> 31" using mr(2) by auto
  define r hh mi ss where "r = s mod 86400" and "hh = r div 3600" and "mi = r mod 3600 div 60"
    and "ss = r mod 60"
  have r: "0 \<le> r" "r < 86400" by (simp_all add: r_def)
  have t: "r = hh * 3600 + mi * 60 + ss" "0 \<le> hh" "hh < 24" "0 \<le> mi" "mi < 60"
    unfolding hh_def mi_def ss_def by (rule day_parts [OF r])+
  have ss: "0 \<le> ss" "ss < 60" by (simp_all add: ss_def)
  have "days_before_year y + yd = s div 86400" using yr by (simp add: days_before_year_def [of 1970])
  then have s: "s = (days_before_year y + yd) * 86400 + r" by (simp add: r_def)
  have "gmtime s = \<lparr>tm_year = y - 1900, tm_mon = m, tm_mday = d + 1, tm_hour = hh, tm_min = mi, tm_sec = ss\<rparr>"
    by (simp only: gmtime_def y m Let_def prod.case hh_def mi_def ss_def flip: r_def)
  then show ?thesis using mr m31 t ss s by (simp add: timegm_def)
qed

section \<open>Logging\<close>

text \<open>
  The singleton, with what it has printed. A macro formats into 1024 bytes, sets the level and calls
  \<open>log\<close>; \<open>LOG_FATAL\<close> then exits.
\<close>

definition INFO :: int where "INFO = 0"
definition ERROR :: int where "ERROR = 1"
definition FATAL :: int where "FATAL = 2"
definition DEBUG :: int where "DEBUG = 3"

lemmas log_levels = INFO_def ERROR_def FATAL_def DEBUG_def

record logger =
  logLevel :: int
  log_lines :: "string list"

definition setLogLevel :: "int \<Rightarrow> logger \<Rightarrow> logger" where
  "setLogLevel level lg = lg\<lparr>logLevel := level\<rparr>"

definition level_prefix :: "int \<Rightarrow> string" where
  "level_prefix level =
     (if level = INFO then ''[INFO]'' else if level = ERROR then ''[ERROR]''
      else if level = FATAL then ''[FATAL]'' else if level = DEBUG then ''[DEBUG]'' else [])"

definition Logger_log :: "timestamp \<Rightarrow> string \<Rightarrow> logger \<Rightarrow> logger" where
  "Logger_log now msg lg =
     lg\<lparr>log_lines := log_lines lg @
       [level_prefix (logLevel lg) @ Timestamp_toFormattedString now @ '' : '' @ msg]\<rparr>"

definition LOG_line :: "int \<Rightarrow> timestamp \<Rightarrow> string \<Rightarrow> logger \<Rightarrow> logger" where
  "LOG_line level now text lg = Logger_log now (take 1023 text) (setLogLevel level lg)"

lemma LOG_line_prefix:
  "log_lines (LOG_line level now text lg) = log_lines lg @
    [level_prefix level @ Timestamp_toFormattedString now @ '' : '' @ take 1023 text]"
  by (simp add: LOG_line_def Logger_log_def setLogLevel_def)

text \<open>
  The level is shared by all threads: when another one sets its own between the two calls of a macro,
  the line gets the wrong prefix.
\<close>

lemma level_overwritten:
  "log_lines (Logger_log now msg (setLogLevel ERROR (setLogLevel INFO lg))) = log_lines lg @
    [''[ERROR]'' @ Timestamp_toFormattedString now @ '' : '' @ msg]"
  by (simp add: Logger_log_def setLogLevel_def level_prefix_def log_levels)

section \<open>Reading back\<close>

text \<open>What \<open>toString\<close> prints of a valid timestamp can be read back: seconds, point, six digits.\<close>

definition parse_toString :: "string \<Rightarrow> int" where
  "parse_toString s = int (undecimal (takeWhile (\<lambda>c. c \<noteq> CHR ''.'') s)) * kMicroSecondsPerSecond +
     int (undecimal (drop 1 (dropWhile (\<lambda>c. c \<noteq> CHR ''.'') s)))"

lemma decimal_no_point: "CHR ''.'' \<notin> set (decimal n)"
proof (induction n rule: decimal.induct)
  case (1 n)
  have "(char_of (48 + k) :: char) \<noteq> CHR ''.''" if "k < 10" for k :: nat
  proof
    assume "(char_of (48 + k) :: char) = CHR ''.''"
    then have "of_char (char_of (48 + k) :: char) = (of_char CHR ''.'' :: nat)" by simp
    then show False using that by simp
  qed
  then have "n < 10 \<Longrightarrow> CHR ''.'' \<noteq> char_of (48 + n)" "CHR ''.'' \<noteq> char_of (48 + n mod 10)"
    by (metis, metis mod_less_divisor zero_less_numeral)
  then show ?case using 1 by (subst decimal.simps) simp
qed

lemma toString_roundtrip:
  assumes "0 \<le> sint (microSecondsSinceEpoch t)"
  shows "parse_toString (Timestamp_toString t) = sint (microSecondsSinceEpoch t)"
proof -
  define us where "us = sint (microSecondsSinceEpoch t)"
  have us: "0 \<le> us" "us < 2 ^ 63" using assms sint_lt [of "microSecondsSinceEpoch t"] by (simp_all add: us_def)
  define q r where "q = us div 1000000" and "r = us mod 1000000"
  have qr: "0 \<le> q" "q < 10 ^ 19" "0 \<le> r" "r < 10 ^ 6" "q * 1000000 + r = us"
    using us by (simp_all add: q_def r_def)
  have "us sdiv kMicroSecondsPerSecond = q" "us smod kMicroSecondsPerSecond = r"
    using us(1) by (cases "us = 0"; simp add: signed_divide_int_def signed_modulo_int_def
        kMicroSecondsPerSecond_def q_def r_def sgn_if)+
  then have "Timestamp_toString t = take 31 (decimal (nat q) @ ''.'' @ zero_padded 6 r)"
    using qr(1) by (simp add: Timestamp_toString_def Let_def decimal_int_def flip: us_def)
  moreover have "length (decimal (nat q)) \<le> 19" using length_decimal [of 19 "nat q"] qr by (simp add: nat_less_iff)
  moreover have "length (zero_padded 6 r) = 6" using length_zero_padded [of 6 r] qr by simp
  ultimately have "Timestamp_toString t = decimal (nat q) @ CHR ''.'' # zero_padded 6 r" by simp
  moreover have "takeWhile (\<lambda>c. c \<noteq> CHR ''.'') (decimal (nat q) @ CHR ''.'' # zero_padded 6 r) = decimal (nat q)"
    "dropWhile (\<lambda>c. c \<noteq> CHR ''.'') (decimal (nat q) @ CHR ''.'' # zero_padded 6 r) = CHR ''.'' # zero_padded 6 r"
    using decimal_no_point [of "nat q"] by (auto simp: takeWhile_append dropWhile_append)
  ultimately show ?thesis using qr
    by (simp add: parse_toString_def undecimal_decimal undecimal_zero_padded kMicroSecondsPerSecond_def
        flip: us_def)
qed

text \<open>
  The formatted string has fields of fixed width up to the year 9999, so it can be read back too; the
  spaces in front of a short year count as nothing.
\<close>

lemma undecimal_space_padded: "0 \<le> k \<Longrightarrow> undecimal (space_padded w k) = nat k"
proof -
  assume "0 \<le> k"
  moreover have "undecimal (replicate n CHR '' '') = 0" for n
    by (induction n) (simp_all add: undecimal_def)
  ultimately show ?thesis
    by (simp add: space_padded_def decimal_int_def undecimal_append undecimal_decimal)
qed

lemma length_space_padded: "0 < w \<Longrightarrow> 0 \<le> k \<Longrightarrow> k < 10 ^ w \<Longrightarrow> length (space_padded w k) = w"
  using length_decimal [of w "nat k"] by (simp add: space_padded_def decimal_int_def nat_less_iff)

definition parse_formatted :: "string \<Rightarrow> int" where
  "parse_formatted s =
     (let n = (\<lambda>i k. int (undecimal (take k (drop i s)))) in
      timegm \<lparr>tm_year = n 0 4 - 1900, tm_mon = n 5 2 - 1, tm_mday = n 8 2, tm_hour = n 11 2,
        tm_min = n 14 2, tm_sec = n 17 2\<rparr> * kMicroSecondsPerSecond + n 20 6)"

lemma days_before_year_mono: "y \<le> z \<Longrightarrow> days_before_year y \<le> days_before_year z"
proof (induction z rule: int_ge_induct)
  case (step z)
  then show ?case using days_before_next_year [of z] by (simp add: year_length_def split: if_splits)
qed simp

lemma gmtime_year:
  assumes "0 \<le> s" and "s < days_before_year 10000 * 86400"
  shows "1970 \<le> tm_year (gmtime s) + 1900 \<and> tm_year (gmtime s) + 1900 < 10000"
proof -
  obtain y yd where y: "year_of_day 1970 (s div 86400) = (y, yd)" by force
  have day: "0 \<le> s div 86400" "s div 86400 < days_before_year 10000"
    using assms by (simp_all add: pos_imp_zdiv_nonneg_iff div_less_iff_less_mult)
  have "days_before_year 1970 = 0" by (simp add: days_before_year_def)
  then have "days_before_year y \<le> s div 86400" "s div 86400 < days_before_year (y + 1)"
    using year_of_day_range [OF y] days_before_next_year [of y] by simp_all
  then have "y < 10000" "1970 < y + 1"
    using day days_before_year_mono [of 10000 y] days_before_year_mono [of "y + 1" 1970]
      \<open>days_before_year 1970 = 0\<close> by linarith+
  then show ?thesis by (simp add: gmtime_def y Let_def split: prod.split)
qed

lemma formatted_roundtrip:
  assumes "0 \<le> sint (microSecondsSinceEpoch t)"
    and "sint (microSecondsSinceEpoch t) < days_before_year 10000 * 86400 * 1000000"
  shows "parse_formatted (Timestamp_toFormattedString t) = sint (microSecondsSinceEpoch t)"
proof -
  define us where "us = sint (microSecondsSinceEpoch t)"
  define q r where "q = us div 1000000" and "r = us mod 1000000"
  have us: "0 \<le> us" using assms(1) by (simp add: us_def)
  have qr: "0 \<le> q" "0 \<le> r" "r < 10 ^ 6" "q * 1000000 + r = us"
    using us by (simp_all add: q_def r_def pos_imp_zdiv_nonneg_iff)
  have "us < days_before_year 10000 * 86400 * 1000000" using assms(2) by (simp add: us_def)
  then have "q < days_before_year 10000 * 86400" by (simp add: q_def div_less_iff_less_mult)
  note g = timegm_gmtime [of q] gmtime_year [OF qr(1) this]
  define tm where "tm = gmtime q"
  have div: "us sdiv kMicroSecondsPerSecond = q" "us smod kMicroSecondsPerSecond = r"
    using us by (cases "us = 0"; simp add: signed_divide_int_def signed_modulo_int_def
        kMicroSecondsPerSecond_def q_def r_def sgn_if)+
  define Y M D where "Y = space_padded 4 (tm_year tm + 1900)" and "M = zero_padded 2 (tm_mon tm + 1)"
    and "D = zero_padded 2 (tm_mday tm)"
  define h m s where "h = zero_padded 2 (tm_hour tm)" and "m = zero_padded 2 (tm_min tm)"
    and "s = zero_padded 2 (tm_sec tm)"
  define u where "u = zero_padded 6 r"
  have len: "length Y = 4" "length M = 2" "length D = 2" "length h = 2" "length m = 2" "length s = 2"
      "length u = 6"
    unfolding Y_def M_def D_def h_def m_def s_def u_def
    by (rule length_space_padded length_zero_padded; use g qr in \<open>simp add: tm_def\<close>)+
  have val: "int (undecimal Y) = tm_year tm + 1900" "int (undecimal M) = tm_mon tm + 1"
      "int (undecimal D) = tm_mday tm" "int (undecimal h) = tm_hour tm" "int (undecimal m) = tm_min tm"
      "int (undecimal s) = tm_sec tm" "int (undecimal u) = r"
    using g qr by (simp_all add: Y_def M_def D_def h_def m_def s_def u_def tm_def
        undecimal_space_padded undecimal_zero_padded)
  have eta: "\<lparr>tm_year = tm_year tm, tm_mon = tm_mon tm, tm_mday = tm_mday tm, tm_hour = tm_hour tm,
      tm_min = tm_min tm, tm_sec = tm_sec tm\<rparr> = tm" by (cases tm) simp
  have "Timestamp_toFormattedString t = Y @ ''/'' @ M @ ''/'' @ D @ '' '' @ h @ '':'' @ m @ '':'' @ s @ ''.'' @ u"
    using len by (simp add: Timestamp_toFormattedString_def Let_def div flip: us_def tm_def Y_def M_def
        D_def h_def m_def s_def u_def)
  then have "parse_formatted (Timestamp_toFormattedString t) = timegm tm * kMicroSecondsPerSecond + r"
    using len val by (simp add: parse_formatted_def Let_def eta)
  then show ?thesis using g qr by (simp add: kMicroSecondsPerSecond_def tm_def us_def)
qed

end
