(* ===== verification/Addresses.thy ===== *)
theory Addresses
  imports Texts
begin

text \<open>
  Internet addresses (InetAddress.h, InetAddress.cpp), in memory as on a little-endian machine.
\<close>

unbundle bit_operations_syntax

section \<open>InetAddress\<close>

record sockaddr_in =
  sin_family :: "16 word"
  sin_port :: "16 word"
  sin_addr :: "32 word"

definition AF_INET :: "16 word" where "AF_INET = 2"

definition htons :: "16 word \<Rightarrow> 16 word" where
  "htons x = push_bit 8 x OR drop_bit 8 x"

definition InetAddress_port :: "16 word \<Rightarrow> sockaddr_in" where
  "InetAddress_port port = \<lparr>sin_family = AF_INET, sin_port = htons port, sin_addr = 0\<rparr>"

definition toPort :: "sockaddr_in \<Rightarrow> 16 word" where
  "toPort a = htons (sin_port a)"

text \<open>\<open>inet_ntop\<close> writes the four bytes in memory order.\<close>

definition toIp :: "sockaddr_in \<Rightarrow> string" where
  "toIp a = (let b = (\<lambda>i. decimal (unat (drop_bit (8 * i) (sin_addr a) AND 0xFF))) in
     b 0 @ ''.'' @ b 1 @ ''.'' @ b 2 @ ''.'' @ b 3)"

definition toIpPort :: "sockaddr_in \<Rightarrow> string" where
  "toIpPort a = toIp a @ '':'' @ decimal (unat (toPort a))"

lemma toPort_InetAddress: "toPort (InetAddress_port port) = port"
proof -
  have "htons (htons port) = port"
    unfolding htons_def by (rule bit_word_eqI) (auto simp: bit_simps)
  then show ?thesis by (simp add: toPort_def InetAddress_port_def)
qed

end
