(* ===== verification/Tcp_Connection.thy ===== *)
theory Tcp_Connection
  imports Codec Event_Loop Addresses
begin

text \<open>
  The class \<open>TcpConnection\<close> (TcpConnection.h, TcpConnection.cpp): the connection's state, its two
  buffers, and its handlers, in a world that adds the connections and what the sockets have done.
  The answers of \<open>write(2)\<close> and \<open>readv(2)\<close> are streams that the environment fixes; the user's
  callbacks are arguments.
\<close>

section \<open>State\<close>

datatype conn_state = kConnecting | kConnected | kDisconnecting | kDisconnected

text \<open>
  Of the application's callbacks, the members say which are set; what they do, and what the owner's
  close callbacks do, is in \<open>conn_code\<close>.
\<close>

record conn =
  conn_loop :: loop_ptr
  conn_channel :: channel_ptr
  conn_name :: string
  state :: conn_state
  inputBuffer :: buffer
  outputBuffer :: buffer
  connCb :: bool
  messaCb :: bool
  closeCb :: "close_callback option"
  wriComCb :: bool
  highCb :: bool
  conn_localAddr :: sockaddr_in
  conn_peerAddr :: sockaddr_in

record conn_world = loops_world +
  conns :: "conn_ptr \<rightharpoonup> conn"
  sent :: "int \<Rightarrow> byte list"
  wr_shut :: "int set"
  closed_fds :: "int list"
  write_answers :: "nat \<Rightarrow> int"
  read_answers :: "nat \<Rightarrow> int + byte list"

record 'w conn_code =
  connection_cb :: "conn_ptr \<Rightarrow> 'w \<Rightarrow> 'w result"
  message_cb :: "conn_ptr \<Rightarrow> timestamp \<Rightarrow> 'w \<Rightarrow> 'w result"
  close_cb :: "close_callback \<Rightarrow> conn_ptr \<Rightarrow> 'w \<Rightarrow> 'w result"
  write_complete_cb :: "conn_ptr \<Rightarrow> 'w \<Rightarrow> 'w result"

definition modify_conn ::
    "conn_ptr \<Rightarrow> (conn \<Rightarrow> conn) \<Rightarrow> 'a conn_world_scheme \<Rightarrow> 'a conn_world_scheme result" where
  "modify_conn c f w = rbind (deref (conns w) c) (\<lambda>x. Inr (w\<lparr>conns := (conns w)(c \<mapsto> f x)\<rparr>))"

text \<open>The setters; the argument says whether the given \<open>std::function\<close> is callable.\<close>

definition setConnectionCallback ::
    "bool \<Rightarrow> conn_ptr \<Rightarrow> 'a conn_world_scheme \<Rightarrow> 'a conn_world_scheme result" where
  "setConnectionCallback b c = modify_conn c (\<lambda>x. x\<lparr>connCb := b\<rparr>)"

definition setMessageCallback ::
    "bool \<Rightarrow> conn_ptr \<Rightarrow> 'a conn_world_scheme \<Rightarrow> 'a conn_world_scheme result" where
  "setMessageCallback b c = modify_conn c (\<lambda>x. x\<lparr>messaCb := b\<rparr>)"

definition setCloseCallback ::
    "close_callback option \<Rightarrow> conn_ptr \<Rightarrow> 'a conn_world_scheme \<Rightarrow> 'a conn_world_scheme result" where
  "setCloseCallback b c = modify_conn c (\<lambda>x. x\<lparr>closeCb := b\<rparr>)"

definition setWriteCompleteCallback ::
    "bool \<Rightarrow> conn_ptr \<Rightarrow> 'a conn_world_scheme \<Rightarrow> 'a conn_world_scheme result" where
  "setWriteCompleteCallback b c = modify_conn c (\<lambda>x. x\<lparr>wriComCb := b\<rparr>)"

definition setHighWaterMarkCallback ::
    "bool \<Rightarrow> conn_ptr \<Rightarrow> 'a conn_world_scheme \<Rightarrow> 'a conn_world_scheme result" where
  "setHighWaterMarkCallback b c = modify_conn c (\<lambda>x. x\<lparr>highCb := b\<rparr>)"

definition connected :: "conn \<Rightarrow> bool" where
  "connected x \<longleftrightarrow> state x = kConnected"

text \<open>
  The constructor. It sets the channel's read and close callbacks and no others.
\<close>

definition new_TcpConnection ::
    "loop_ptr \<Rightarrow> string \<Rightarrow> conn_ptr \<Rightarrow> channel_ptr \<Rightarrow> int \<Rightarrow> sockaddr_in \<Rightarrow> sockaddr_in \<Rightarrow>
     'a conn_world_scheme \<Rightarrow> 'a conn_world_scheme" where
  "new_TcpConnection l name c chan fd local peer w =
     w\<lparr>conns := (conns w)(c \<mapsto> \<lparr>conn_loop = l, conn_channel = chan, conn_name = name,
         state = kConnecting, inputBuffer = new_Buffer, outputBuffer = new_Buffer,
         connCb = False, messaCb = False, closeCb = None, wriComCb = False,
         highCb = False, conn_localAddr = local, conn_peerAddr = peer\<rparr>),
       channels := (channels w)(chan \<mapsto>
         Channel_setCloseCallback (Cb_TcpConnection_handleClose c)
           (Channel_setReadCallback (Cb_TcpConnection_handleRead c) (new_Channel l fd)))\<rparr>"

text \<open>
  The end of the last \<open>shared_ptr\<close>: the channel's destructor asserts that it is not handling an
  event, the socket's closes the descriptor.
\<close>

definition delete_TcpConnection ::
    "conn_ptr \<Rightarrow> 'a conn_world_scheme \<Rightarrow> 'a conn_world_scheme result" where
  "delete_TcpConnection c w =
     rbind (deref (conns w) c) (\<lambda>x.
     rbind (deref (channels w) (conn_channel x)) (\<lambda>ch.
     rbind (delete_Channel (conn_channel x) w) (\<lambda>w.
       Inr (w\<lparr>conns := (conns w)(c := None), closed_fds := closed_fds w @ [ch_fd ch]\<rparr>))))"

section \<open>System calls\<close>

text \<open>\<open>write(2)\<close> takes at most what it is given; a negative answer is an error.\<close>

definition sys_write ::
    "int \<Rightarrow> byte list \<Rightarrow> 'a conn_world_scheme \<Rightarrow> int \<times> 'a conn_world_scheme" where
  "sys_write fd d w =
     (let a = write_answers w 0; n = (if a < 0 then -1 else min a (int (length d))) in
      (n, w\<lparr>write_answers := \<lambda>i. write_answers w (Suc i),
             sent := (sent w)(fd := sent w fd @ take (nat n) d)\<rparr>))"

definition sys_readv ::
    "'a conn_world_scheme \<Rightarrow> (int + byte list) \<times> 'a conn_world_scheme" where
  "sys_readv w = (read_answers w 0, w\<lparr>read_answers := \<lambda>i. read_answers w (Suc i)\<rparr>)"

definition shutdownWrite :: "int \<Rightarrow> 'a conn_world_scheme \<Rightarrow> 'a conn_world_scheme" where
  "shutdownWrite fd w = w\<lparr>wr_shut := insert fd (wr_shut w)\<rparr>"

section \<open>Operations\<close>

definition with_conn ::
    "conn_ptr \<Rightarrow> 'a conn_world_scheme \<Rightarrow> (conn \<Rightarrow> channel \<Rightarrow> 'b result) \<Rightarrow> 'b result" where
  "with_conn c w k =
     rbind (deref (conns w) c) (\<lambda>x. rbind (deref (channels w) (conn_channel x)) (\<lambda>ch. k x ch))"

definition shutdownInLoop ::
    "conn_ptr \<Rightarrow> 'a conn_world_scheme \<Rightarrow> 'a conn_world_scheme result" where
  "shutdownInLoop c w =
     with_conn c w (\<lambda>x ch. assertInLoopThread (conn_loop x) w
       (if \<not> isWriting ch then Inr (shutdownWrite (ch_fd ch) w) else Inr w))"

text \<open>
  \<open>sendInLoop\<close>: a direct write when nothing is waiting, then whatever is left goes to the output
  buffer. A failed write counts as one that took nothing.
\<close>

definition write_now ::
    "conn_ptr \<Rightarrow> byte list \<Rightarrow> 'a conn_world_scheme \<Rightarrow> (int \<times> 'a conn_world_scheme) result" where
  "write_now c data w =
     with_conn c w (\<lambda>x ch.
       if \<not> isWriting ch \<and> readableBytes (outputBuffer x) = 0 then
         (case sys_write (ch_fd ch) data w of (n, w) \<Rightarrow>
           if n < 0 then Inr (0, w)
           else if n < int (length data) then Inr (n, w)
           else if wriComCb x
           then rbind (queueInLoop (conn_loop x) (Fn_writeComplete c) w) (\<lambda>w. Inr (n, w))
           else Inr (n, w))
       else Inr (0, w))"

definition sendInLoop ::
    "conn_ptr \<Rightarrow> byte list \<Rightarrow> 'a conn_world_scheme \<Rightarrow> 'a conn_world_scheme result" where
  "sendInLoop c data w =
     with_conn c w (\<lambda>x ch. assertInLoopThread (conn_loop x) w
       (rbind (write_now c data w) (\<lambda>(n, w).
        cpp_assert (n \<ge> 0)
          (if n < int (length data) then
             with_conn c w (\<lambda>x ch.
             rbind (append_bytes (drop (nat n) data) (outputBuffer x)) (\<lambda>b.
             rbind (modify_conn c (\<lambda>x. x\<lparr>outputBuffer := b\<rparr>) w) (\<lambda>w.
             if \<not> isWriting ch then enableWriting (conn_channel x) w else Inr w)))
           else Inr w))))"

definition send ::
    "conn_ptr \<Rightarrow> byte list \<Rightarrow> 'a conn_world_scheme \<Rightarrow> 'a conn_world_scheme result" where
  "send c message w =
     rbind (deref (conns w) c) (\<lambda>x.
       if state x = kConnected then
         rbind (isInLoopThread (conn_loop x) w) (\<lambda>b.
           if b then sendInLoop c message w
           else runInLoop (conn_loop x) (Fn_sendInLoop c message) (sendInLoop c message) w)
       else Inr w)"

text \<open>The overload for raw memory, of which \<open>p\<close> is what is there to read.\<close>

definition send_data ::
    "conn_ptr \<Rightarrow> byte list \<Rightarrow> size_t \<Rightarrow> 'a conn_world_scheme \<Rightarrow> 'a conn_world_scheme result" where
  "send_data c p len w = rbind (vec_read p 0 len) (\<lambda>message. send c message w)"

text \<open>The overload that takes a buffer empties it, when the connection is up.\<close>

definition send_buffer ::
    "conn_ptr \<Rightarrow> buffer \<Rightarrow> 'a conn_world_scheme \<Rightarrow> (buffer \<times> 'a conn_world_scheme) result" where
  "send_buffer c b w =
     rbind (deref (conns w) c) (\<lambda>x.
       if state x = kConnected then
         rbind (isInLoopThread (conn_loop x) w) (\<lambda>inloop.
         rbind (retrieveAsString b) (\<lambda>(message, b').
         rbind (if inloop then sendInLoop c message w
                else runInLoop (conn_loop x) (Fn_sendInLoop c message) (sendInLoop c message) w)
           (\<lambda>w. Inr (b', w))))
       else Inr (b, w))"

definition shutdown ::
    "conn_ptr \<Rightarrow> 'a conn_world_scheme \<Rightarrow> 'a conn_world_scheme result" where
  "shutdown c w =
     rbind (deref (conns w) c) (\<lambda>x.
       if state x = kConnected then
         rbind (modify_conn c (\<lambda>x. x\<lparr>state := kDisconnecting\<rparr>) w)
           (runInLoop (conn_loop x) (Fn_shutdownInLoop c) (shutdownInLoop c))
       else Inr w)"

definition forceClose ::
    "conn_ptr \<Rightarrow> 'a conn_world_scheme \<Rightarrow> 'a conn_world_scheme result" where
  "forceClose c w =
     rbind (deref (conns w) c) (\<lambda>x.
       if state x = kConnected \<or> state x = kDisconnecting then
         rbind (modify_conn c (\<lambda>x. x\<lparr>state := kDisconnecting\<rparr>) w)
           (queueInLoop (conn_loop x) (Fn_forceCloseInLoop c))
       else Inr w)"

definition forceCloseWithDelay ::
    "timer_ptr \<Rightarrow> conn_ptr \<Rightarrow> double \<Rightarrow> 'a conn_world_scheme \<Rightarrow> 'a conn_world_scheme result" where
  "forceCloseWithDelay p c seconds w =
     rbind (deref (conns w) c) (\<lambda>x.
       if state x = kConnected \<or> state x = kDisconnecting then
         rbind (modify_conn c (\<lambda>x. x\<lparr>state := kDisconnecting\<rparr>) w) (\<lambda>w.
         rbind (runAfter (conn_loop x) p seconds (Fn_forceClose c) w) (\<lambda>(_, w). Inr w))
       else Inr w)"

section \<open>Handlers\<close>

text \<open>Calling an empty \<open>std::function\<close> throws \<open>std::bad_function_call\<close>.\<close>

definition call_if_set :: "bool \<Rightarrow> 'b result \<Rightarrow> 'b result" where
  "call_if_set b k = (if b then k else Inl BadFunctionCall)"

definition handleClose ::
    "'a conn_world_scheme conn_code \<Rightarrow> conn_ptr \<Rightarrow> 'a conn_world_scheme \<Rightarrow> 'a conn_world_scheme result" where
  "handleClose code c w =
     rbind (deref (conns w) c) (\<lambda>x. assertInLoopThread (conn_loop x) w
       (cpp_assert (state x = kConnected \<or> state x = kDisconnecting)
         (rbind (disableAll (conn_channel x) w) (\<lambda>w.
         rbind (deref (conns w) c) (\<lambda>x. 
           case closeCb x of None \<Rightarrow> Inl BadFunctionCall | Some k \<Rightarrow> close_cb code k c w)))))"

text \<open>\<open>handleError\<close> reads the socket's error and logs it.\<close>

definition handleError ::
    "conn_ptr \<Rightarrow> 'a conn_world_scheme \<Rightarrow> 'a conn_world_scheme result" where
  "handleError c w = with_conn c w (\<lambda>x ch. Inr w)"

definition handleRead ::
    "'a conn_world_scheme conn_code \<Rightarrow> conn_ptr \<Rightarrow> timestamp \<Rightarrow> 'a conn_world_scheme \<Rightarrow>
     'a conn_world_scheme result" where
  "handleRead code c receiveTime w =
     with_conn c w (\<lambda>x ch.
       (case sys_readv w of (rv, w) \<Rightarrow>
        rbind (readFd rv (inputBuffer x)) (\<lambda>(b, n, _).
        rbind (modify_conn c (\<lambda>x. x\<lparr>inputBuffer := b\<rparr>) w) (\<lambda>w.
          if n > 0 then call_if_set (messaCb x) (message_cb code c receiveTime w)
          else if n = 0 then handleClose code c w
          else handleError c w))))"

definition handleWrite ::
    "conn_ptr \<Rightarrow> 'a conn_world_scheme \<Rightarrow> 'a conn_world_scheme result" where
  "handleWrite c w =
     with_conn c w (\<lambda>x ch. assertInLoopThread (conn_loop x) w
       (if isWriting ch then
          rbind (peek_bytes (readableBytes (outputBuffer x)) (outputBuffer x)) (\<lambda>d.
          (case sys_write (ch_fd ch) d w of (n, w) \<Rightarrow>
            if n > 0 then
              rbind (retrieve (word_of_int n) (outputBuffer x)) (\<lambda>b.
              rbind (modify_conn c (\<lambda>x. x\<lparr>outputBuffer := b\<rparr>) w) (\<lambda>w.
              if readableBytes b = 0 then
                rbind (disableWriting (conn_channel x) w) (\<lambda>w.
                rbind (if wriComCb x then queueInLoop (conn_loop x) (Fn_writeComplete c) w else Inr w) (\<lambda>w.
                if state x = kDisconnecting then shutdownInLoop c w else Inr w))
              else Inr w))
            else Inr w))
        else Inr w))"

definition forceCloseInLoop ::
    "'a conn_world_scheme conn_code \<Rightarrow> conn_ptr \<Rightarrow> 'a conn_world_scheme \<Rightarrow> 'a conn_world_scheme result" where
  "forceCloseInLoop code c w =
     rbind (deref (conns w) c) (\<lambda>x. assertInLoopThread (conn_loop x) w
       (if state x = kConnected \<or> state x = kDisconnecting then handleClose code c w else Inr w))"

definition connEstablished ::
    "'a conn_world_scheme conn_code \<Rightarrow> conn_ptr \<Rightarrow> 'a conn_world_scheme \<Rightarrow> 'a conn_world_scheme result" where
  "connEstablished code c w =
     rbind (deref (conns w) c) (\<lambda>x. assertInLoopThread (conn_loop x) w
       (cpp_assert (state x = kConnecting)
         (rbind (modify_conn c (\<lambda>x. x\<lparr>state := kConnected\<rparr>) w) (\<lambda>w.
         rbind (enableReading (conn_channel x) w) (\<lambda>w.
         call_if_set (connCb x) (connection_cb code c w))))))"

definition connDestroyed ::
    "'a conn_world_scheme conn_code \<Rightarrow> conn_ptr \<Rightarrow> 'a conn_world_scheme \<Rightarrow> 'a conn_world_scheme result" where
  "connDestroyed code c w =
     rbind (deref (conns w) c) (\<lambda>x. assertInLoopThread (conn_loop x) w
       (cpp_assert (state x = kConnected \<or> state x = kDisconnecting)
         (rbind (modify_conn c (\<lambda>x. x\<lparr>state := kDisconnected\<rparr>) w) (\<lambda>w.
         rbind (disableAll (conn_channel x) w) (\<lambda>w.
         rbind (call_if_set (connCb x) (connection_cb code c w)) (\<lambda>w.
         removeChannel (conn_loop x) (conn_channel x) w))))))"

text \<open>The closures that connections put in a loop's queue.\<close>

fun conn_functor ::
    "'a conn_world_scheme conn_code \<Rightarrow> loop_functor \<Rightarrow> 'a conn_world_scheme \<Rightarrow> 'a conn_world_scheme result" where
  "conn_functor code (Fn_sendInLoop c d) w = sendInLoop c d w"
| "conn_functor code (Fn_shutdownInLoop c) w = shutdownInLoop c w"
| "conn_functor code (Fn_forceClose c) w = forceClose c w"
| "conn_functor code (Fn_forceCloseInLoop c) w = forceCloseInLoop code c w"
| "conn_functor code (Fn_connEstablished c) w = connEstablished code c w"
| "conn_functor code (Fn_connDestroyed c) w = connDestroyed code c w"
| "conn_functor code (Fn_writeComplete c) w = write_complete_cb code c w"
| "conn_functor code (Fn_setCloseCallback c k) w = setCloseCallback (Some k) c w"
| "conn_functor code _ w = Inr w"

text \<open>The callbacks that a connection gives to its channel.\<close>

fun conn_callback ::
    "'a conn_world_scheme conn_code \<Rightarrow> channel_callback \<Rightarrow> timestamp \<Rightarrow> 'a conn_world_scheme \<Rightarrow>
     'a conn_world_scheme result" where
  "conn_callback code (Cb_TcpConnection_handleRead c) now w = handleRead code c now w"
| "conn_callback code (Cb_TcpConnection_handleClose c) now w = handleClose code c w"
| "conn_callback code _ now w = Inr w"

end
