(* ===== verification/Tcp_Session.thy ===== *)
theory Tcp_Session
  imports Tcp_Connection
begin

text \<open>
  What an established connection does with its output, in its loop's thread: the bytes that the
  socket took followed by those in the output buffer are the messages given to \<open>send\<close>, and the
  half close waits for the buffer to drain.
\<close>

section \<open>A connection in its loop\<close>

definition conn_at ::
    "loop_ptr \<Rightarrow> conn_ptr \<Rightarrow> int \<Rightarrow> conn \<Rightarrow> channel \<Rightarrow> event_loop \<Rightarrow> epoll_poller \<Rightarrow>
     'a conn_world_scheme \<Rightarrow> bool" where
  "conn_at l c fd x ch e p w \<longleftrightarrow> epoll_loop l e p w \<and> conns w c = Some x \<and> conn_loop x = l \<and>
     channels w (conn_channel x) = Some ch \<and> ch_loop ch = l \<and> ch_fd ch = fd \<and> index ch \<noteq> kNew"

lemma conn_atD:
  assumes "conn_at l c fd x ch e p w"
  shows "epoll_loop l e p w" "conns w c = Some x" "conn_loop x = l"
    "channels w (conn_channel x) = Some ch" "ch_loop ch = l" "ch_fd ch = fd" "index ch \<noteq> kNew"
    "loops w l = Some e" "threadId e = this_thread w"
  using assms by (simp_all add: conn_at_def epoll_loop_def)

lemma conn_at_simps:
  assumes "conn_at l c fd x ch e p w"
  shows "with_conn c w k = k x ch"
    and "assertInLoopThread l w r = r"
    and "isInLoopThread l w = Inr True"
  using conn_atD [OF assms]
  by (simp_all add: with_conn_def assertInLoopThread_def isInLoopThread_def)

lemma epoll_loop_frame:
  "channels w' = channels w \<Longrightarrow> loops w' l = Some e' \<Longrightarrow> loop_poller e' = loop_poller e \<Longrightarrow>
    threadId e' = threadId e \<Longrightarrow> this_thread w' = this_thread w \<Longrightarrow> epoll_loop l e p w \<Longrightarrow>
    epoll_loop l e' p w'"
  by (simp add: epoll_loop_def)

lemma store_channel_conn [simp]:
  "conns (store_channel l e p c ch w) = conns w"
  "sent (store_channel l e p c ch w) = sent w"
  "wr_shut (store_channel l e p c ch w) = wr_shut w"
  "closed_fds (store_channel l e p c ch w) = closed_fds w"
  "write_answers (store_channel l e p c ch w) = write_answers w"
  by (simp_all add: store_channel_def)

lemma queue_functor_keeps [simp]:
  "loop_poller (queue_functor b f e) = loop_poller e"
  "threadId (queue_functor b f e) = threadId e"
  "pendingFunctors (queue_functor b f e) = pendingFunctors e @ [f]"
  by (simp_all add: queue_functor_def push_functor_def wakeup_def Let_def)

lemma queueInLoop_at:
  fixes f :: loop_functor
  assumes "conn_at l c fd x ch e p w"
  defines "w' \<equiv> w\<lparr>loops := (loops w)(l \<mapsto> queue_functor True f e)\<rparr>"
  shows "queueInLoop l f w = Inr w'" and "conn_at l c fd x ch (queue_functor True f e) p w'"
proof -
  note d = conn_atD [OF assms(1)]
  show "queueInLoop l f w = Inr w'"
    using d by (simp add: queueInLoop_def conn_at_simps [OF assms(1)] on_loop_def w'_def)
  show "conn_at l c fd x ch (queue_functor True f e) p w'"
    using assms(1) by (simp add: conn_at_def epoll_loop_def w'_def)
qed

lemma modify_conn_at:
  assumes "conn_at l c fd x ch e p w" and "conn_loop x' = l" and "conn_channel x' = conn_channel x"
  shows "conn_at l c fd x' ch e p (w\<lparr>conns := (conns w)(c \<mapsto> x')\<rparr>)"
  using assms by (simp add: conn_at_def epoll_loop_def)

text \<open>The write interest of the channel, switched on and off.\<close>

lemma write_bit:
  "isWriting (with_writing ch)" "\<not> isWriting (without_writing ch)"
proof -
  have "(events ch OR 4) AND 4 = 4" by (rule bit_word_eqI) (auto simp: bit_simps)
  then show "isWriting (with_writing ch)" by (simp add: isWriting_def with_writing_def event_masks)
  have "(events ch AND NOT 4) AND 4 = 0" by (rule bit_word_eqI) (auto simp: bit_simps)
  then show "\<not> isWriting (without_writing ch)"
    by (simp add: isWriting_def without_writing_def event_masks)
qed

lemma change_events_at:
  assumes at: "conn_at l c fd x ch e p w" and f: "f ch = ch\<lparr>events := ev\<rparr>"
  shows "\<exists>p' ch'. change_events f (conn_channel x) w =
      Inr (store_channel l e p' (conn_channel x) ch' w) \<and>
    conn_at l c fd x ch' (e\<lparr>loop_poller := Epoll p'\<rparr>) p' (store_channel l e p' (conn_channel x) ch' w) \<and>
    events ch' = ev \<and> same_dispatch ch ch'"
proof -
  note d = conn_atD [OF at]
  obtain p' where "change_events f (conn_channel x) w = Inr (store_channel l e p' (conn_channel x)
        (ch\<lparr>events := ev, index := (if index ch = kAdded \<and> ev = 0 then kDeleted else kAdded)\<rparr>) w)"
      "epoll_loop l (e\<lparr>loop_poller := Epoll p'\<rparr>) p' (store_channel l e p' (conn_channel x)
        (ch\<lparr>events := ev, index := (if index ch = kAdded \<and> ev = 0 then kDeleted else kAdded)\<rparr>) w)"
    using change_events_ok [where f = f, OF d(1,4,5) f] d(7) by blast
  then show ?thesis using at
    by (intro exI [of _ p'] exI [of _ "ch\<lparr>events := ev,
        index := (if index ch = kAdded \<and> ev = 0 then kDeleted else kAdded)\<rparr>"])
      (simp add: conn_at_def index_values same_dispatch_def)
qed

lemma isWriting_events: "events ch' = events ch \<Longrightarrow> isWriting ch' = isWriting ch"
  by (simp add: isWriting_def)

lemma enableWriting_at:
  assumes at: "conn_at l c fd x ch e p w"
  shows "\<exists>p' ch'. enableWriting (conn_channel x) w = Inr (store_channel l e p' (conn_channel x) ch' w) \<and>
    conn_at l c fd x ch' (e\<lparr>loop_poller := Epoll p'\<rparr>) p' (store_channel l e p' (conn_channel x) ch' w) \<and>
    isWriting ch' \<and> same_dispatch ch ch'"
proof -
  obtain p' ch' where "change_events with_writing (conn_channel x) w =
        Inr (store_channel l e p' (conn_channel x) ch' w)"
      "conn_at l c fd x ch' (e\<lparr>loop_poller := Epoll p'\<rparr>) p' (store_channel l e p' (conn_channel x) ch' w)"
      "events ch' = events (with_writing ch)" "same_dispatch ch ch'"
    using change_events_at [OF at, of with_writing "events ch OR kWriteEvent"] by (auto simp: with_writing_def)
  moreover from this(3) have "isWriting ch'" using write_bit(1) [of ch] by (simp add: isWriting_def)
  ultimately show ?thesis unfolding enableWriting_def by blast
qed

lemma disableWriting_at:
  assumes at: "conn_at l c fd x ch e p w"
  shows "\<exists>p' ch'. disableWriting (conn_channel x) w = Inr (store_channel l e p' (conn_channel x) ch' w) \<and>
    conn_at l c fd x ch' (e\<lparr>loop_poller := Epoll p'\<rparr>) p' (store_channel l e p' (conn_channel x) ch' w) \<and>
    \<not> isWriting ch'"
proof -
  obtain p' ch' where "change_events without_writing (conn_channel x) w =
        Inr (store_channel l e p' (conn_channel x) ch' w)"
      "conn_at l c fd x ch' (e\<lparr>loop_poller := Epoll p'\<rparr>) p' (store_channel l e p' (conn_channel x) ch' w)"
      "events ch' = events (without_writing ch)"
    using change_events_at [OF at, of without_writing "events ch AND NOT kWriteEvent"] by (auto simp: without_writing_def)
  moreover from this(3) have "\<not> isWriting ch'" using write_bit(2) [of ch] by (simp add: isWriting_def)
  ultimately show ?thesis unfolding disableWriting_def by blast
qed

lemma readable_empty: "buffer_ok b \<Longrightarrow> readableBytes b = 0 \<longleftrightarrow> contents b = []"
  using buffer_okD(5) [of b] by (auto simp: unat_eq_0 [symmetric])

section \<open>Sending\<close>

text \<open>What an operation on one connection leaves alone.\<close>

definition only_conn ::
    "conn_ptr \<Rightarrow> channel_ptr \<Rightarrow> int \<Rightarrow> 'a conn_world_scheme \<Rightarrow> 'a conn_world_scheme \<Rightarrow> bool" where
  "only_conn c chan fd w w' \<longleftrightarrow> (\<forall>k. k \<noteq> c \<longrightarrow> conns w' k = conns w k) \<and>
     (\<forall>k. k \<noteq> chan \<longrightarrow> channels w' k = channels w k) \<and>
     rel_option same_dispatch (channels w chan) (channels w' chan) \<and> (\<forall>k. k \<noteq> fd \<longrightarrow> sent w' k = sent w k) \<and>
     conn_world.more w' = conn_world.more w"

lemma same_option_trans:
  "rel_option same_dispatch a b \<Longrightarrow> rel_option same_dispatch b c \<Longrightarrow> rel_option same_dispatch a c"
  by (cases a; cases b; cases c) (auto intro: same_dispatch_trans)

lemma only_conn_refl [simp]: "only_conn c chan fd w w"
  by (simp add: only_conn_def option.rel_refl)

lemma only_conn_trans:
  "only_conn c chan fd w w1 \<Longrightarrow> only_conn c chan fd w1 w2 \<Longrightarrow> only_conn c chan fd w w2"
  by (auto simp: only_conn_def intro: same_option_trans)

lemma only_conn_channel:
  "only_conn c chan fd w w' \<Longrightarrow> rel_option same_dispatch (channels w k) (channels w' k)"
  by (cases "k = chan") (simp_all add: only_conn_def option.rel_refl)

lemma only_conn_steps:
  "channels w chan = Some ch0 \<Longrightarrow> same_dispatch ch0 ch \<Longrightarrow> only_conn c chan fd w (store_channel l e p chan ch w)"
  "only_conn c chan fd w (w\<lparr>conns := (conns w)(c \<mapsto> x)\<rparr>)"
  "only_conn c chan fd w (w\<lparr>loops := ls\<rparr>)"
  "sys_write fd d w = (n, w1) \<Longrightarrow> only_conn c chan fd w w1"
  by (auto simp: only_conn_def store_channel_def sys_write_def Let_def option.rel_refl)

lemma sys_write_at:
  assumes at: "conn_at l c fd x ch e p w" and wr: "sys_write fd d w = (n, w1)"
  shows "conn_at l c fd x ch e p w1" and "sent w1 = (sent w)(fd := sent w fd @ take (nat n) d)"
    and "wr_shut w1 = wr_shut w" and "n \<le> int (length d)" and "0 \<le> n \<or> n = -1"
    and "n = (if write_answers w 0 < 0 then -1 else min (write_answers w 0) (int (length d)))"
    and "write_answers w1 = (\<lambda>i. write_answers w (Suc i))"
  using assms by (auto simp: sys_write_def Let_def conn_at_def epoll_loop_def)

lemma write_now_at:
  assumes at: "conn_at l c fd x ch e p w" and ok: "buffer_ok (outputBuffer x)"
    and writing: "isWriting ch \<longleftrightarrow> contents (outputBuffer x) \<noteq> []"
  shows "\<exists>n w1 e1. write_now c d w = Inr (n, w1) \<and> conn_at l c fd x ch e1 p w1 \<and> 0 \<le> n \<and>
    n \<le> int (length d) \<and> sent w1 = (sent w)(fd := sent w fd @ take (nat n) d) \<and>
    wr_shut w1 = wr_shut w \<and> (contents (outputBuffer x) \<noteq> [] \<longrightarrow> n = 0) \<and>
    only_conn c (conn_channel x) fd w w1"
proof (cases "contents (outputBuffer x) = []")
  case False
  then have "write_now c d w = Inr (0, w)"
    using writing by (simp add: write_now_def conn_at_simps [OF at])
  then show ?thesis using at by (intro exI [of _ 0] exI [of _ w] exI [of _ e]) simp
next
  case True
  obtain n w1 where wr: "sys_write fd d w = (n, w1)" by force
  note s = sys_write_at [OF at wr] and only = only_conn_steps(4) [OF wr, of c "conn_channel x"]
  have eq: "write_now c d w =
     (if n < 0 then Inr (0, w1) else if n < int (length d) then Inr (n, w1)
      else if wriComCb x then rbind (queueInLoop l (Fn_writeComplete c) w1) (\<lambda>w. Inr (n, w))
      else Inr (n, w1))"
    using True writing readable_empty [OF ok] conn_atD(3,6) [OF at] wr
    by (simp add: write_now_def conn_at_simps [OF at])
  show ?thesis
  proof (cases "n < 0")
    case neg: True
    then have "sent w1 = (sent w)(fd := sent w fd @ take (nat 0) d)" using s(2,5) by simp
    then show ?thesis using eq neg s(1,3) True only
      by (intro exI [of _ 0] exI [of _ w1] exI [of _ e]) simp
  next
    case pos: False
    show ?thesis
    proof (cases "n < int (length d) \<or> \<not> wriComCb x")
      case True
      then have "write_now c d w = Inr (n, w1)" using eq pos by auto
      then show ?thesis using pos s \<open>contents (outputBuffer x) = []\<close> only
        by (intro exI [of _ n] exI [of _ w1] exI [of _ e]) simp
    next
      case False
      define w2 where "w2 = w1\<lparr>loops := (loops w1)(l \<mapsto> queue_functor True (Fn_writeComplete c) e)\<rparr>"
      have "write_now c d w = Inr (n, w2)" using eq pos False queueInLoop_at(1) [OF s(1)]
        by (simp add: w2_def)
      moreover have "conn_at l c fd x ch (queue_functor True (Fn_writeComplete c) e) p w2"
        using queueInLoop_at(2) [OF s(1)] by (simp add: w2_def)
      moreover have "sent w2 = sent w1" "wr_shut w2 = wr_shut w1" by (simp_all add: w2_def)
      moreover have "only_conn c (conn_channel x) fd w w2"
        unfolding w2_def by (rule only_conn_trans [OF only only_conn_steps(3)])
      ultimately show ?thesis using pos s \<open>contents (outputBuffer x) = []\<close>
        by (intro exI [of _ n] exI [of _ w2] exI [of _ "queue_functor True (Fn_writeComplete c) e"])
          simp
    qed
  qed
qed

lemma sendInLoop_at:
  assumes at: "conn_at l c fd x ch e p w" and ok: "buffer_ok (outputBuffer x)"
    and writing: "isWriting ch \<longleftrightarrow> contents (outputBuffer x) \<noteq> []"
    and run: "sendInLoop c d w = Inr w'"
  shows "\<exists>b ch' e' p'. conn_at l c fd (x\<lparr>outputBuffer := b\<rparr>) ch' e' p' w' \<and> buffer_ok b \<and>
    (isWriting ch' \<longleftrightarrow> contents b \<noteq> []) \<and> sent w' fd @ contents b =
      sent w fd @ contents (outputBuffer x) @ d \<and> wr_shut w' = wr_shut w \<and>
    only_conn c (conn_channel x) fd w w'"
proof -
  obtain n w1 e1 where w1: "write_now c d w = Inr (n, w1)" "conn_at l c fd x ch e1 p w1" "0 \<le> n"
      "n \<le> int (length d)" "sent w1 = (sent w)(fd := sent w fd @ take (nat n) d)"
      "wr_shut w1 = wr_shut w" "contents (outputBuffer x) \<noteq> [] \<longrightarrow> n = 0"
      "only_conn c (conn_channel x) fd w w1"
    using write_now_at [OF at ok writing, of d] by blast
  have stream: "sent w1 fd @ contents (outputBuffer x) @ drop (nat n) d =
      sent w fd @ contents (outputBuffer x) @ d"
    using w1(5,7) by (cases "contents (outputBuffer x) = []") simp_all
  have l: "conn_loop x = l" using conn_atD(3) [OF at] .
  have eq: "sendInLoop c d w = (if n < int (length d) then
      rbind (append_bytes (drop (nat n) d) (outputBuffer x)) (\<lambda>b.
      rbind (modify_conn c (\<lambda>x. x\<lparr>outputBuffer := b\<rparr>) w1) (\<lambda>w.
      if \<not> isWriting ch then enableWriting (conn_channel x) w else Inr w)) else Inr w1)"
    using w1(1,3) by (simp add: sendInLoop_def conn_at_simps [OF at] conn_at_simps [OF w1(2)] l)
  show ?thesis
  proof (cases "n < int (length d)")
    case False
    then have "drop (nat n) d = []" by simp
    moreover have "w' = w1" using eq run False by simp
    ultimately show ?thesis using w1(2,6,8) ok writing stream
      by (intro exI [of _ "outputBuffer x"] exI [of _ ch] exI [of _ e1] exI [of _ p]) simp
  next
    case True
    obtain b where b: "append_bytes (drop (nat n) d) (outputBuffer x) = Inr b"
      using run eq True by (cases "append_bytes (drop (nat n) d) (outputBuffer x)") auto
    then have bok: "buffer_ok b" "contents b = contents (outputBuffer x) @ drop (nat n) d"
      using append_InrD [OF ok b] by auto
    have "nat n < length d" using True w1(3) by linarith
    then have ne: "contents b \<noteq> []" using bok(2) by simp
    define w2 where "w2 = w1\<lparr>conns := (conns w1)(c \<mapsto> x\<lparr>outputBuffer := b\<rparr>)\<rparr>"
    have at2: "conn_at l c fd (x\<lparr>outputBuffer := b\<rparr>) ch e1 p w2"
      unfolding w2_def by (rule modify_conn_at [OF w1(2)]) (simp_all add: l)
    have same: "sent w2 = sent w1" "wr_shut w2 = wr_shut w1" by (simp_all add: w2_def)
    have only: "only_conn c (conn_channel x) fd w w2"
      unfolding w2_def by (rule only_conn_trans [OF w1(8) only_conn_steps(2)])
    have eq2: "sendInLoop c d w = (if \<not> isWriting ch then enableWriting (conn_channel x) w2 else Inr w2)"
      using eq True b conn_atD(2) [OF w1(2)] by (simp add: modify_conn_def w2_def)
    show ?thesis
    proof (cases "isWriting ch")
      case True
      then show ?thesis using eq2 run at2 bok ne same stream w1(6) only
        by (intro exI [of _ b] exI [of _ ch] exI [of _ e1] exI [of _ p]) auto
    next
      case False
      obtain p' ch' where "enableWriting (conn_channel x) w2 =
            Inr (store_channel l e1 p' (conn_channel x) ch' w2)"
          "conn_at l c fd (x\<lparr>outputBuffer := b\<rparr>) ch' (e1\<lparr>loop_poller := Epoll p'\<rparr>) p'
            (store_channel l e1 p' (conn_channel x) ch' w2)"
          "isWriting ch'" "same_dispatch ch ch'"
        using enableWriting_at [OF at2] by auto
      moreover from this(4) have "only_conn c (conn_channel x) fd w
          (store_channel l e1 p' (conn_channel x) ch' w2)"
        using conn_atD(4) [OF at2] by (intro only_conn_trans [OF only only_conn_steps(1)]) simp_all
      ultimately show ?thesis using eq2 run False bok ne same stream w1(6)
        by (intro exI [of _ b] exI [of _ ch'] exI [of _ "e1\<lparr>loop_poller := Epoll p'\<rparr>"] exI [of _ p'])
          auto
    qed
  qed
qed


lemma send_at:
  assumes at: "conn_at l c fd x ch e p w"
  shows "send c d w = (if state x = kConnected then sendInLoop c d w else Inr w)"
  using conn_atD(2,3) [OF at] conn_at_simps(3) [OF at] by (simp add: send_def)

section \<open>Half close\<close>

lemma shutdownInLoop_at:
  assumes at: "conn_at l c fd x ch e p w"
  shows "shutdownInLoop c w = Inr (if isWriting ch then w else shutdownWrite fd w)"
  using conn_atD(3,6) [OF at] by (simp add: shutdownInLoop_def conn_at_simps [OF at])

lemma shutdownWrite_at:
  "conn_at l c fd x ch e p w \<Longrightarrow> conn_at l c fd x ch e p (shutdownWrite fd' w)"
  by (simp add: conn_at_def epoll_loop_def shutdownWrite_def)

lemma shutdown_at:
  assumes at: "conn_at l c fd x ch e p w"
  shows "\<exists>w'. shutdown c w = Inr w' \<and>
    (state x \<noteq> kConnected \<longrightarrow> w' = w) \<and>
    (state x = kConnected \<longrightarrow> conn_at l c fd (x\<lparr>state := kDisconnecting\<rparr>) ch e p w' \<and>
       sent w' = sent w \<and> wr_shut w' = (if isWriting ch then wr_shut w else insert fd (wr_shut w)))"
proof (cases "state x = kConnected")
  case False
  then show ?thesis using conn_atD(2) [OF at] by (simp add: shutdown_def)
next
  case True
  define w1 where "w1 = w\<lparr>conns := (conns w)(c \<mapsto> x\<lparr>state := kDisconnecting\<rparr>)\<rparr>"
  have at1: "conn_at l c fd (x\<lparr>state := kDisconnecting\<rparr>) ch e p w1"
    unfolding w1_def using conn_atD(3) [OF at] by (intro modify_conn_at [OF at]) simp_all
  have "shutdown c w = runInLoop l (Fn_shutdownInLoop c) (shutdownInLoop c) w1"
    using True conn_atD(2,3) [OF at] by (simp add: shutdown_def modify_conn_def w1_def)
  also have "\<dots> = Inr (if isWriting ch then w1 else shutdownWrite fd w1)"
    using conn_at_simps(3) [OF at1] shutdownInLoop_at [OF at1] by (simp add: runInLoop_def)
  finally show ?thesis using True at1 shutdownWrite_at [OF at1, of fd]
    by (simp add: w1_def shutdownWrite_def)
qed

section \<open>A writable socket\<close>

lemma drained_at:
  assumes at: "conn_at l c fd x ch e p w"
  shows "\<exists>w' ch' e' p'. rbind (disableWriting (conn_channel x) w) (\<lambda>w.
      rbind (if wriComCb x then queueInLoop l (Fn_writeComplete c) w else Inr w) (\<lambda>w.
      if state x = kDisconnecting then shutdownInLoop c w else Inr w)) = Inr w' \<and>
    conn_at l c fd x ch' e' p' w' \<and> \<not> isWriting ch' \<and> sent w' = sent w \<and>
    write_answers w' = write_answers w \<and>
    wr_shut w' = (if state x = kDisconnecting then insert fd (wr_shut w) else wr_shut w)"
proof -
  obtain p1 ch1 where dis: "disableWriting (conn_channel x) w =
          Inr (store_channel l e p1 (conn_channel x) ch1 w)"
      "conn_at l c fd x ch1 (e\<lparr>loop_poller := Epoll p1\<rparr>) p1 (store_channel l e p1 (conn_channel x) ch1 w)"
      "\<not> isWriting ch1"
    using disableWriting_at [OF at] by blast
  let ?w1 = "store_channel l e p1 (conn_channel x) ch1 w"
  obtain w2 e2 where w2: "(if wriComCb x then queueInLoop l (Fn_writeComplete c) ?w1 else Inr ?w1) = Inr w2"
      "conn_at l c fd x ch1 e2 p1 w2" "sent w2 = sent w" "write_answers w2 = write_answers w"
      "wr_shut w2 = wr_shut w"
    using queueInLoop_at [OF dis(2), of "Fn_writeComplete c"] dis(2) by (cases "wriComCb x") auto
  have "(if state x = kDisconnecting then shutdownInLoop c w2 else Inr w2) =
      Inr (if state x = kDisconnecting then shutdownWrite fd w2 else w2)"
    using shutdownInLoop_at [OF w2(2)] dis(3) by simp
  then show ?thesis using dis w2 shutdownWrite_at [OF w2(2), of fd]
    by (intro exI [of _ "if state x = kDisconnecting then shutdownWrite fd w2 else w2"] exI [of _ ch1]
        exI [of _ e2] exI [of _ p1]) (simp add: shutdownWrite_def)
qed

lemma handleWrite_at:
  assumes at: "conn_at l c fd x ch e p w" and ok: "buffer_ok (outputBuffer x)"
    and writing: "isWriting ch \<longleftrightarrow> contents (outputBuffer x) \<noteq> []"
  shows "\<exists>w' b ch' e' p'. handleWrite c w = Inr w' \<and>
    conn_at l c fd (x\<lparr>outputBuffer := b\<rparr>) ch' e' p' w' \<and> buffer_ok b \<and>
    (isWriting ch' \<longleftrightarrow> contents b \<noteq> []) \<and>
    sent w' fd @ contents b = sent w fd @ contents (outputBuffer x) \<and>
    contents b = drop (nat (write_answers w 0)) (contents (outputBuffer x)) \<and>
    wr_shut w' = (if contents (outputBuffer x) \<noteq> [] \<and> contents b = [] \<and> state x = kDisconnecting
      then insert fd (wr_shut w) else wr_shut w) \<and>
    write_answers w' = (if contents (outputBuffer x) = [] then write_answers w
      else (\<lambda>i. write_answers w (Suc i)))"
proof (cases "contents (outputBuffer x) = []")
  case True
  then have "handleWrite c w = Inr w"
    using writing conn_atD(3) [OF at] by (simp add: handleWrite_def conn_at_simps [OF at])
  then show ?thesis using True at ok writing
    by (intro exI [of _ w] exI [of _ "outputBuffer x"] exI [of _ ch] exI [of _ e] exI [of _ p]) simp
next
  case False
  let ?d = "contents (outputBuffer x)"
  obtain n w1 where wr: "sys_write fd ?d w = (n, w1)" by force
  note s = sys_write_at [OF at wr]
  note l = conn_atD(3) [OF at]
  note n = s(6)
  have eq: "handleWrite c w = (if n > 0 then
        rbind (retrieve (word_of_int n) (outputBuffer x)) (\<lambda>b.
        rbind (modify_conn c (\<lambda>x. x\<lparr>outputBuffer := b\<rparr>) w1) (\<lambda>w.
        if readableBytes b = 0 then
          rbind (disableWriting (conn_channel x) w) (\<lambda>w.
          rbind (if wriComCb x then queueInLoop l (Fn_writeComplete c) w else Inr w) (\<lambda>w.
          if state x = kDisconnecting then shutdownInLoop c w else Inr w))
        else Inr w)) else Inr w1)"
    using False writing l conn_atD(6) [OF at] wr peek_front [OF ok, of "readableBytes (outputBuffer x)"] buffer_okD(5) [OF ok]
    by (simp cong: if_cong add: handleWrite_def conn_at_simps [OF at])
  show ?thesis
  proof (cases "n > 0")
    case False
    then have "nat (write_answers w 0) = 0" "nat n = 0"
      using n \<open>?d \<noteq> []\<close> by (auto split: if_splits)
    then show ?thesis using eq False s \<open>?d \<noteq> []\<close> ok writing
      by (intro exI [of _ w1] exI [of _ "outputBuffer x"] exI [of _ ch] exI [of _ e] exI [of _ p]) simp
  next
    case pos: True
    then have a: "n = min (write_answers w 0) (int (length ?d))" using n by (auto split: if_splits)
    have "unat (readableBytes (outputBuffer x)) < 2 ^ LENGTH(64)" by (rule unsigned_less)
    then have un: "unat (word_of_int n :: size_t) = nat n"
      using pos s(4) buffer_okD(5) [OF ok]
      by (intro unat_word_of_int_small) simp_all
    have "nat n \<le> length ?d" using s(4) by linarith
    then obtain b where b: "retrieve (word_of_int n) (outputBuffer x) = Inr b" "buffer_ok b"
        "contents b = drop (nat n) ?d"
      using retrieve_front [OF ok, of "word_of_int n"] un by auto
    have drop: "contents b = drop (nat (write_answers w 0)) ?d"
      using b(3) a pos by (simp add: min_def split: if_splits)
    have stream: "sent w1 fd @ contents b = sent w fd @ ?d" using s(2) b(3) by simp
    define w2 where "w2 = w1\<lparr>conns := (conns w1)(c \<mapsto> x\<lparr>outputBuffer := b\<rparr>)\<rparr>"
    have at2: "conn_at l c fd (x\<lparr>outputBuffer := b\<rparr>) ch e p w2"
      unfolding w2_def by (rule modify_conn_at [OF s(1)]) (simp_all add: l)
    have same: "sent w2 = sent w1" "wr_shut w2 = wr_shut w1" "write_answers w2 = write_answers w1"
      by (simp_all add: w2_def)
    have eq2: "handleWrite c w = (if readableBytes b = 0 then
          rbind (disableWriting (conn_channel x) w2) (\<lambda>w.
          rbind (if wriComCb x then queueInLoop l (Fn_writeComplete c) w else Inr w) (\<lambda>w.
          if state x = kDisconnecting then shutdownInLoop c w else Inr w)) else Inr w2)"
      using eq pos b(1) conn_atD(2) [OF s(1)] by (simp add: modify_conn_def w2_def)
    show ?thesis
    proof (cases "contents b = []")
      case False
      then have "handleWrite c w = Inr w2" using eq2 readable_empty [OF b(2)] by simp
      then show ?thesis using at2 b(2) False writing \<open>?d \<noteq> []\<close> stream drop same s(3,7)
        by (intro exI [of _ w2] exI [of _ b] exI [of _ ch] exI [of _ e] exI [of _ p]) simp
    next
      case True
      then have "\<exists>w' ch' e' p'. handleWrite c w = Inr w' \<and>
          conn_at l c fd (x\<lparr>outputBuffer := b\<rparr>) ch' e' p' w' \<and> \<not> isWriting ch' \<and> sent w' = sent w1 \<and>
          write_answers w' = write_answers w1 \<and>
          wr_shut w' = (if state x = kDisconnecting then insert fd (wr_shut w) else wr_shut w)"
        using drained_at [OF at2] eq2 readable_empty [OF b(2)] same s(3)
        by (simp split del: if_split cong: if_cong)
      then show ?thesis using True b(2) stream drop s(7) \<open>?d \<noteq> []\<close> by fastforce
    qed
  qed
qed


section \<open>The stream of a session\<close>

text \<open>
  What the loop's thread asks of a connection: the user's \<open>send\<close> and \<open>shutdown\<close>, and the channel's
  write event. The abstract session accepts messages until it is closing.
\<close>

datatype session_op = Op_send "byte list" | Op_shutdown | Op_writable

fun conn_op ::
    "conn_ptr \<Rightarrow> session_op \<Rightarrow> 'a conn_world_scheme \<Rightarrow> 'a conn_world_scheme result" where
  "conn_op c (Op_send d) w = send c d w"
| "conn_op c Op_shutdown w = shutdown c w"
| "conn_op c Op_writable w = handleWrite c w"

definition conn_ops ::
    "conn_ptr \<Rightarrow> session_op list \<Rightarrow> 'a conn_world_scheme \<Rightarrow> 'a conn_world_scheme result" where
  "conn_ops c = rfold (conn_op c)"

record session =
  accepted :: "byte list"
  closing :: bool

fun session_step :: "session_op \<Rightarrow> session \<Rightarrow> session" where
  "session_step (Op_send d) s = (if closing s then s else s\<lparr>accepted := accepted s @ d\<rparr>)"
| "session_step Op_shutdown s = s\<lparr>closing := True\<rparr>"
| "session_step Op_writable s = s"

definition session_ok ::
    "loop_ptr \<Rightarrow> conn_ptr \<Rightarrow> int \<Rightarrow> session \<Rightarrow> 'a conn_world_scheme \<Rightarrow> bool" where
  "session_ok l c fd s w \<longleftrightarrow> (\<exists>x ch e p. conn_at l c fd x ch e p w \<and> buffer_ok (outputBuffer x) \<and>
     (isWriting ch \<longleftrightarrow> contents (outputBuffer x) \<noteq> []) \<and>
     state x = (if closing s then kDisconnecting else kConnected) \<and>
     sent w fd @ contents (outputBuffer x) = accepted s \<and>
     (fd \<in> wr_shut w \<longleftrightarrow> closing s \<and> contents (outputBuffer x) = []))"

lemma session_okI:
  "conn_at l c fd x ch e p w \<Longrightarrow> buffer_ok (outputBuffer x) \<Longrightarrow>
    (isWriting ch \<longleftrightarrow> contents (outputBuffer x) \<noteq> []) \<Longrightarrow>
    state x = (if closing s then kDisconnecting else kConnected) \<Longrightarrow>
    sent w fd @ contents (outputBuffer x) = accepted s \<Longrightarrow>
    (fd \<in> wr_shut w \<longleftrightarrow> closing s \<and> contents (outputBuffer x) = []) \<Longrightarrow> session_ok l c fd s w"
  unfolding session_ok_def by blast

lemma session_okE:
  assumes "session_ok l c fd s w"
  obtains x ch e p where "conn_at l c fd x ch e p w" "buffer_ok (outputBuffer x)"
    "isWriting ch \<longleftrightarrow> contents (outputBuffer x) \<noteq> []"
    "state x = (if closing s then kDisconnecting else kConnected)"
    "sent w fd @ contents (outputBuffer x) = accepted s"
    "fd \<in> wr_shut w \<longleftrightarrow> closing s \<and> contents (outputBuffer x) = []"
  using assms unfolding session_ok_def by blast

lemma session_writable:
  assumes "session_ok l c fd s w"
  shows "\<exists>w'. handleWrite c w = Inr w' \<and> session_ok l c fd s w' \<and>
    ((\<forall>i. 0 < write_answers w i) \<longrightarrow> (\<forall>i. 0 < write_answers w' i) \<and>
       (length (accepted s) \<le> Suc n + length (sent w fd) \<longrightarrow> length (accepted s) \<le> n + length (sent w' fd)))"
proof -
  obtain x ch e p where s: "conn_at l c fd x ch e p w" "buffer_ok (outputBuffer x)"
    "isWriting ch \<longleftrightarrow> contents (outputBuffer x) \<noteq> []"
    "state x = (if closing s then kDisconnecting else kConnected)"
    "sent w fd @ contents (outputBuffer x) = accepted s"
    "fd \<in> wr_shut w \<longleftrightarrow> closing s \<and> contents (outputBuffer x) = []"
    using session_okE [OF assms] by metis
  obtain w' b ch' e' p' where h: "handleWrite c w = Inr w'"
      "conn_at l c fd (x\<lparr>outputBuffer := b\<rparr>) ch' e' p' w'" "buffer_ok b"
      "isWriting ch' \<longleftrightarrow> contents b \<noteq> []"
      "sent w' fd @ contents b = sent w fd @ contents (outputBuffer x)"
      "contents b = drop (nat (write_answers w 0)) (contents (outputBuffer x))"
      "wr_shut w' = (if contents (outputBuffer x) \<noteq> [] \<and> contents b = [] \<and> state x = kDisconnecting
        then insert fd (wr_shut w) else wr_shut w)"
      "write_answers w' = (if contents (outputBuffer x) = [] then write_answers w
        else (\<lambda>i. write_answers w (Suc i)))"
    using handleWrite_at [OF s(1-3)] by blast
  have "fd \<in> wr_shut w' \<longleftrightarrow> closing s \<and> contents b = []"
    using h(6,7) s(4,6) by (cases "contents (outputBuffer x) = []") auto
  then have ok: "session_ok l c fd s w'" using h(3-5) s(4,5) by (intro session_okI [OF h(2)]) simp_all
  have len: "length (sent w fd) + length (contents (outputBuffer x)) = length (accepted s)"
      "length (sent w' fd) + length (contents b) = length (accepted s)"
    using h(5) s(5) by (metis length_append)+
  have "length (accepted s) \<le> n + length (sent w' fd)"
    if pos: "0 < write_answers w 0" and n: "length (accepted s) \<le> Suc n + length (sent w fd)"
  proof -
    have "0 < nat (write_answers w 0)" using pos by simp
    moreover have "length (contents b) = length (contents (outputBuffer x)) - nat (write_answers w 0)"
      using h(6) by simp
    ultimately show ?thesis using n len by linarith
  qed
  then show ?thesis using h(1,8) ok by auto
qed

lemma session_shutdown:
  assumes "session_ok l c fd s w"
  shows "\<exists>w'. shutdown c w = Inr w' \<and> session_ok l c fd (s\<lparr>closing := True\<rparr>) w'"
proof -
  obtain x ch e p where s: "conn_at l c fd x ch e p w" "buffer_ok (outputBuffer x)"
    "isWriting ch \<longleftrightarrow> contents (outputBuffer x) \<noteq> []"
    "state x = (if closing s then kDisconnecting else kConnected)"
    "sent w fd @ contents (outputBuffer x) = accepted s"
    "fd \<in> wr_shut w \<longleftrightarrow> closing s \<and> contents (outputBuffer x) = []"
    using session_okE [OF assms] by metis
  obtain w' where w': "shutdown c w = Inr w'" "state x \<noteq> kConnected \<longrightarrow> w' = w"
      "state x = kConnected \<longrightarrow> conn_at l c fd (x\<lparr>state := kDisconnecting\<rparr>) ch e p w' \<and>
        sent w' = sent w \<and> wr_shut w' = (if isWriting ch then wr_shut w else insert fd (wr_shut w))"
    using shutdown_at [OF s(1)] by blast
  show ?thesis
  proof (cases "closing s")
    case True
    then have "w' = w" "s\<lparr>closing := True\<rparr> = s" using w'(2) s(4) by simp_all
    then show ?thesis using w'(1) assms by simp
  next
    case False
    then have "session_ok l c fd (s\<lparr>closing := True\<rparr>) w'"
      using w'(3) s by (intro session_okI [where x = "x\<lparr>state := kDisconnecting\<rparr>"]) auto
    then show ?thesis using w'(1) by blast
  qed
qed

lemma session_send:
  assumes "session_ok l c fd s w" and run: "send c d w = Inr w'"
  shows "session_ok l c fd (session_step (Op_send d) s) w'"
proof -
  obtain x ch e p where s: "conn_at l c fd x ch e p w" "buffer_ok (outputBuffer x)"
    "isWriting ch \<longleftrightarrow> contents (outputBuffer x) \<noteq> []"
    "state x = (if closing s then kDisconnecting else kConnected)"
    "sent w fd @ contents (outputBuffer x) = accepted s"
    "fd \<in> wr_shut w \<longleftrightarrow> closing s \<and> contents (outputBuffer x) = []"
    using session_okE [OF assms(1)] by metis
  show ?thesis
  proof (cases "closing s")
    case True
    then show ?thesis using assms s(4) send_at [OF s(1)] by simp
  next
    case False
    then have "sendInLoop c d w = Inr w'" using run s(4) send_at [OF s(1)] by simp
    from sendInLoop_at [OF s(1-3) this] obtain b ch' e' p' where
        "conn_at l c fd (x\<lparr>outputBuffer := b\<rparr>) ch' e' p' w'" "buffer_ok b"
        "isWriting ch' \<longleftrightarrow> contents b \<noteq> []"
        "sent w' fd @ contents b = sent w fd @ contents (outputBuffer x) @ d" "wr_shut w' = wr_shut w"
      by blast
    then show ?thesis using False s(4-6)
      by (intro session_okI [where x = "x\<lparr>outputBuffer := b\<rparr>"]) (simp_all flip: append_assoc)
  qed
qed

text \<open>
  Sending on one connection of a loop leaves the sessions of the others as they are, and the rest of
  the world.
\<close>

lemma session_send_frame:
  assumes "session_ok l c fd s w" and run: "send c d w = Inr w'"
  shows "\<exists>chan. (\<exists>x. conns w c = Some x \<and> conn_channel x = chan) \<and> only_conn c chan fd w w' \<and>
    wr_shut w' = wr_shut w \<and> (\<exists>e p. epoll_loop l e p w')"
proof -
  obtain x ch e p where s: "conn_at l c fd x ch e p w" "buffer_ok (outputBuffer x)"
    "isWriting ch \<longleftrightarrow> contents (outputBuffer x) \<noteq> []"
    using assms(1) by (elim session_okE) (rule that)
  show ?thesis
  proof (cases "state x = kConnected")
    case False
    then show ?thesis using run s(1) send_at [OF s(1)] by (auto simp: conn_at_def)
  next
    case True
    then have "sendInLoop c d w = Inr w'" using run send_at [OF s(1)] by simp
    from sendInLoop_at [OF s this] obtain b ch' e' p' where
        "conn_at l c fd (x\<lparr>outputBuffer := b\<rparr>) ch' e' p' w'" "wr_shut w' = wr_shut w"
        "only_conn c (conn_channel x) fd w w'"
      by blast
    then show ?thesis using conn_atD(1,2) [OF s(1)] conn_atD(1) by blast
  qed
qed

lemma session_shutdown_frame:
  assumes "session_ok l c fd s w" and run: "shutdown c w = Inr w'"
  shows "\<exists>chan. (\<exists>x. conns w c = Some x \<and> conn_channel x = chan) \<and> only_conn c chan fd w w' \<and>
    wr_shut w' - {fd} = wr_shut w - {fd} \<and> (\<exists>e p. epoll_loop l e p w')"
proof -
  obtain x ch e p where s: "conn_at l c fd x ch e p w"
    using assms(1) by (elim session_okE) (rule that)
  note d = conn_atD [OF s]
  show ?thesis
  proof (cases "state x = kConnected")
    case False
    then show ?thesis using run d by (auto simp: shutdown_def)
  next
    case True
    define w1 where "w1 = w\<lparr>conns := (conns w)(c \<mapsto> x\<lparr>state := kDisconnecting\<rparr>)\<rparr>"
    have at1: "conn_at l c fd (x\<lparr>state := kDisconnecting\<rparr>) ch e p w1"
      unfolding w1_def using d(3) by (intro modify_conn_at [OF s]) simp_all
    have "shutdown c w = Inr (if isWriting ch then w1 else shutdownWrite fd w1)"
      using True d(2,3) conn_at_simps(3) [OF at1] shutdownInLoop_at [OF at1]
      by (simp add: shutdown_def modify_conn_def runInLoop_def flip: w1_def)
    then have w': "w' = (if isWriting ch then w1 else shutdownWrite fd w1)" using run by simp
    then have "epoll_loop l e p w'"
      using conn_atD(1) [OF at1] conn_atD(1) [OF shutdownWrite_at [OF at1]] by simp
    moreover have "only_conn c (conn_channel x) fd w w'" "wr_shut w' - {fd} = wr_shut w - {fd}"
      unfolding w' by (auto simp: only_conn_def w1_def shutdownWrite_def option.rel_refl)
    ultimately show ?thesis using d(2) by blast
  qed
qed

lemma session_other:
  assumes s1: "session_ok l c fd s w" and s2: "session_ok l c' fd' s' w" and ne: "fd' \<noteq> fd"
    and frame: "\<exists>chan. (\<exists>x. conns w c = Some x \<and> conn_channel x = chan) \<and> only_conn c chan fd w w' \<and>
      wr_shut w' - {fd} = wr_shut w - {fd} \<and> (\<exists>e p. epoll_loop l e p w')"
  shows "session_ok l c' fd' s' w'"
proof -
  obtain x ch e p where s: "conn_at l c fd x ch e p w" using s1 by (elim session_okE) (rule that)
  obtain y cy ey py where t: "conn_at l c' fd' y cy ey py w" "buffer_ok (outputBuffer y)"
    "isWriting cy \<longleftrightarrow> contents (outputBuffer y) \<noteq> []"
    "state y = (if closing s' then kDisconnecting else kConnected)"
    "sent w fd' @ contents (outputBuffer y) = accepted s'"
    "fd' \<in> wr_shut w \<longleftrightarrow> closing s' \<and> contents (outputBuffer y) = []"
    using s2 by (elim session_okE) (rule that)
  note d = conn_atD [OF s] and d' = conn_atD [OF t(1)]
  have apart: "c' \<noteq> c" "conn_channel y \<noteq> conn_channel x" using d d' ne by auto
  obtain e' p' where w': "only_conn c (conn_channel x) fd w w'" "wr_shut w' - {fd} = wr_shut w - {fd}"
      "epoll_loop l e' p' w'"
    using frame d(2) by auto
  have "conn_at l c' fd' y cy e' p' w'"
    using w'(1,3) t(1) apart by (simp add: conn_at_def only_conn_def)
  moreover have "sent w' fd' = sent w fd'" using w'(1) ne by (simp add: only_conn_def)
  moreover have "fd' \<in> wr_shut w' \<longleftrightarrow> fd' \<in> wr_shut w" using w'(2) ne by blast
  ultimately show ?thesis using t by (intro session_okI) simp_all
qed

text \<open>
  Steps that touch no output: they may write the input buffers, and of a channel what is not its
  registration.
\<close>

definition same_registration :: "channel \<Rightarrow> channel \<Rightarrow> bool" where
  "same_registration a b \<longleftrightarrow> ch_loop a = ch_loop b \<and> ch_fd a = ch_fd b \<and> index a = index b \<and> events a = events b"

lemma session_frame:
  assumes s: "session_ok l c fd s w" and loop: "epoll_loop l e' p' w'"
    and conn: "\<And>y. conns w c = Some y \<Longrightarrow> \<exists>b. conns w' c = Some (y\<lparr>inputBuffer := b\<rparr>)"
    and chan: "\<And>k ch. channels w k = Some ch \<Longrightarrow> \<exists>ch'. channels w' k = Some ch' \<and> same_registration ch ch'"
    and out: "sent w' fd = sent w fd" "fd \<in> wr_shut w' \<longleftrightarrow> fd \<in> wr_shut w"
  shows "session_ok l c fd s w'"
proof -
  obtain y ch e p where t: "conn_at l c fd y ch e p w" "buffer_ok (outputBuffer y)"
    "isWriting ch \<longleftrightarrow> contents (outputBuffer y) \<noteq> []"
    "state y = (if closing s then kDisconnecting else kConnected)"
    "sent w fd @ contents (outputBuffer y) = accepted s"
    "fd \<in> wr_shut w \<longleftrightarrow> closing s \<and> contents (outputBuffer y) = []"
    using s by (elim session_okE) (rule that)
  note d = conn_atD [OF t(1)]
  obtain b where b: "conns w' c = Some (y\<lparr>inputBuffer := b\<rparr>)" using conn [OF d(2)] by blast
  obtain ch' where ch': "channels w' (conn_channel y) = Some ch'" "same_registration ch ch'"
    using chan [OF d(4)] by blast
  have "conn_at l c fd (y\<lparr>inputBuffer := b\<rparr>) ch' e' p' w'"
    using d b ch' loop by (simp add: conn_at_def same_registration_def)
  moreover have "isWriting ch' = isWriting ch"
    using ch'(2) by (intro isWriting_events) (simp add: same_registration_def)
  ultimately show ?thesis using t(2-6) out
    by (intro session_okI [where x = "y\<lparr>inputBuffer := b\<rparr>"]) simp_all
qed

lemma session_op:
  assumes "session_ok l c fd s w" and "conn_op c q w = Inr w'"
  shows "session_ok l c fd (session_step q s) w'"
  using assms session_writable [OF assms(1)] session_shutdown [OF assms(1)] session_send [OF assms(1)]
  by (cases q) auto

lemma session_ops:
  "session_ok l c fd s w \<Longrightarrow> conn_ops c qs w = Inr w' \<Longrightarrow>
    session_ok l c fd (fold session_step qs s) w'"
proof (induction qs arbitrary: s w)
  case (Cons q qs)
  then show ?case using session_op [OF Cons.prems(1)] by (auto simp: conn_ops_def rbind_Inr_iff)
qed (simp add: conn_ops_def)

text \<open>The messages that a fresh session accepts: those sent before the first \<open>shutdown\<close>.\<close>

definition before_shutdown :: "session_op list \<Rightarrow> byte list" where
  "before_shutdown qs = concat [d. Op_send d \<leftarrow> takeWhile (\<lambda>q. q \<noteq> Op_shutdown) qs]"

lemma fold_session_closed:
  "closing s \<Longrightarrow> fold session_step qs s = s"
proof (induction qs arbitrary: s)
  case (Cons q qs)
  then have "session_step q s = s" by (cases q) simp_all
  then show ?case using Cons by simp
qed simp

lemma fold_session_step:
  "\<not> closing s \<Longrightarrow> fold session_step qs s =
    s\<lparr>accepted := accepted s @ before_shutdown qs, closing := Op_shutdown \<in> set qs\<rparr>"
proof (induction qs arbitrary: s)
  case (Cons q qs)
  then show ?case by (cases q) (auto simp: before_shutdown_def fold_session_closed)
qed (simp add: before_shutdown_def)


text \<open>
  C3. The stream of a connection. From an established connection that has sent nothing, any
  sequence of \<open>send\<close>, \<open>shutdown\<close> and write events that its loop's thread executes leaves the bytes
  handed to the socket followed by the output buffer equal to the messages sent before the first
  \<open>shutdown\<close>, in order and without loss, whatever the socket took of each write; and the write side
  is shut down exactly when \<open>shutdown\<close> was called and nothing is left in the buffer.
\<close>

theorem connection_stream:
  assumes at: "conn_at l c fd x ch e p w" and up: "state x = kConnected"
    and buf: "buffer_ok (outputBuffer x)" "contents (outputBuffer x) = []"
    and idle: "\<not> isWriting ch" "sent w fd = []" "fd \<notin> wr_shut w"
    and run: "conn_ops c qs w = Inr w'"
  shows "\<exists>x'. conns w' c = Some x' \<and>
    sent w' fd @ contents (outputBuffer x') = before_shutdown qs \<and>
    (fd \<in> wr_shut w' \<longleftrightarrow> Op_shutdown \<in> set qs \<and> contents (outputBuffer x') = [])"
proof -
  have "session_ok l c fd \<lparr>accepted = [], closing = False\<rparr> w"
    using up buf idle by (intro session_okI [OF at]) simp_all
  from session_ops [OF this run] obtain x' ch' e' p' where
      "conn_at l c fd x' ch' e' p' w'" "sent w' fd @ contents (outputBuffer x') = before_shutdown qs"
      "fd \<in> wr_shut w' \<longleftrightarrow> Op_shutdown \<in> set qs \<and> contents (outputBuffer x') = []"
    by (elim session_okE) (simp add: fold_session_step)
  then show ?thesis using conn_atD(2) by blast
qed

text \<open>
  A connection on descriptor 5, in thread 1's loop, with the given events, state and output buffer;
  the socket takes two bytes of each write.
\<close>

definition demo_channel :: "event_mask \<Rightarrow> channel" where
  "demo_channel ev = (new_Channel 0 5)\<lparr>events := ev, index := 1,
     readCallback := Some (Cb_TcpConnection_handleRead 7),
     closeCallback := Some (Cb_TcpConnection_handleClose 7)\<rparr>"

definition demo_poller :: "event_mask \<Rightarrow> epoll_poller" where
  "demo_poller ev = new_EpollPoller\<lparr>ep_channels := [5 \<mapsto> 20],
     ep_ctl := [\<lparr>ctl_operation = EPOLL_CTL_ADD, ctl_fd = 5, ctl_events = ev, ctl_ptr = 20\<rparr>]\<rparr>"

definition demo_conn :: "conn_state \<Rightarrow> buffer \<Rightarrow> conn" where
  "demo_conn st b = \<lparr>conn_loop = 0, conn_channel = 20, conn_name = ''demo'', state = st,
     inputBuffer = new_Buffer, outputBuffer = b, connCb = True, messaCb = True,
     closeCb = Some Cl_TcpServer_removeConnection, wriComCb = False,
     highCb = False, conn_localAddr = InetAddress_port 80,
     conn_peerAddr = InetAddress_port 4000\<rparr>"

definition demo_loop :: "event_mask \<Rightarrow> event_loop" where
  "demo_loop ev = small_loop\<lparr>loop_poller := Epoll (demo_poller ev), pendingFunctors := []\<rparr>"

definition demo_world :: "event_mask \<Rightarrow> conn_state \<Rightarrow> buffer \<Rightarrow> conn_world" where
  "demo_world ev st b = \<lparr>channels = [20 \<mapsto> demo_channel ev], queues = Map.empty,
     clock = clock empty_world, timer_seq = 0, loops = [0 \<mapsto> demo_loop ev], this_thread = 1,
     loopInThread = [1 \<mapsto> 0], conns = [7 \<mapsto> demo_conn st b], sent = (\<lambda>_. []), wr_shut = {},
     closed_fds = [], write_answers = (\<lambda>_. 2), read_answers = (\<lambda>_. Inl 11)\<rparr>"

lemma demo_at:
  "conn_at 0 7 5 (demo_conn st b) (demo_channel ev) (demo_loop ev) (demo_poller ev) (demo_world ev st b)"
  by (auto simp: conn_at_def epoll_loop_def epoll_ok_def demo_world_def demo_conn_def demo_channel_def
      demo_loop_def demo_poller_def small_loop_def index_values epoll_watch_def new_EpollPoller_def
      new_Channel_def interest_def ctl_step_def fun_eq_iff split: if_splits)

lemma demo_simps [simp]:
  "state (demo_conn st b) = st" "outputBuffer (demo_conn st b) = b" "conn_loop (demo_conn st b) = 0"
  "wriComCb (demo_conn st b) = False" "ch_fd (demo_channel ev) = 5"
  "sent (demo_world ev st b) = (\<lambda>_. [])" "wr_shut (demo_world ev st b) = {}"
  "write_answers (demo_world ev st b) = (\<lambda>_. 2)"
  "isWriting (demo_channel 3) = False" "isWriting (demo_channel 7) = True"
  by (simp_all add: demo_channel_def demo_conn_def demo_world_def isWriting_def event_masks new_Channel_def)

lemma demo_session: "session_ok 0 7 5 \<lparr>accepted = [], closing = False\<rparr> (demo_world 3 kConnected new_Buffer)"
  using new_Buffer_ok by (intro session_okI [OF demo_at]) simp_all

text \<open>The same connection with three bytes waiting and half closed.\<close>

definition demo_waiting :: buffer where
  "demo_waiting = \<lparr>buf = replicate 8 0 @ [1, 2, 3], readIndex = 8, writeIndex = 11\<rparr>"

lemma demo_waiting: "buffer_ok demo_waiting" "contents demo_waiting = [1, 2, 3]"
  by (simp_all add: buffer_ok_def contents_def demo_waiting_def)

lemma demo_busy_session:
  "session_ok 0 7 5 \<lparr>accepted = [1, 2, 3], closing = True\<rparr> (demo_world 7 kDisconnecting demo_waiting)"
  using demo_waiting by (intro session_okI [OF demo_at]) simp_all

theorem connection_stream_witness:
  "\<exists>w' x'. conn_ops 7 [Op_send [1, 2], Op_shutdown, Op_writable] (demo_world 3 kConnected new_Buffer) = Inr w' \<and>
    conns w' 7 = Some x' \<and> sent w' 5 @ contents (outputBuffer x') = [1, 2] \<and>
    (5 \<in> wr_shut w' \<longleftrightarrow> contents (outputBuffer x') = [])"
proof -
  let ?w = "demo_world 3 kConnected new_Buffer"
  note at = demo_at [of kConnected new_Buffer 3]
  define w1 where "w1 = ?w\<lparr>sent := (sent ?w)(5 := [1, 2])\<rparr>"
  have "sys_write 5 [1, 2] ?w = (2, w1)" by (simp add: sys_write_def demo_world_def w1_def)
  then have "write_now 7 [1, 2] ?w = Inr (2, w1)"
    using readable_empty new_Buffer_ok by (simp add: write_now_def conn_at_simps [OF at])
  then have send: "send 7 [1, 2] ?w = Inr w1"
    by (simp add: send_at [OF at] sendInLoop_def conn_at_simps [OF at])
  from session_send [OF demo_session this] obtain w2 w3 where "shutdown 7 w1 = Inr w2"
      "handleWrite 7 w2 = Inr w3"
    using session_shutdown session_writable by (metis (no_types, lifting))
  then have run: "conn_ops 7 [Op_send [1, 2], Op_shutdown, Op_writable] ?w = Inr w3"
    using send by (simp add: conn_ops_def)
  show ?thesis
    using connection_stream [OF at _ _ _ _ _ _ run] new_Buffer_ok run
    by (auto simp: before_shutdown_def)
qed

text \<open>
  C12. Progress of the member function \<open>TcpConnection::handleWrite\<close>, called directly. When the socket
  takes at least one byte of every write, as many calls of \<open>handleWrite\<close> as bytes are missing hand
  over everything that the connection accepted, and none of them fails; the write side is then shut
  down exactly when the session is closing. This is the contract that the member would meet as the
  write callback of the channel. The code as it stands never installs it: no write event leads to
  these calls, and what \<open>send\<close> could not write at once stays in the buffer (C35).
\<close>

theorem connection_drains:
  assumes "session_ok l c fd s w" and "\<forall>i. 0 < write_answers w i"
    and "length (accepted s) \<le> n + length (sent w fd)"
  shows "\<exists>w'. rfold (\<lambda>_. handleWrite c) (replicate n ()) w = Inr w' \<and> sent w' fd = accepted s \<and>
    (fd \<in> wr_shut w' \<longleftrightarrow> closing s)"
  using assms
proof (induction n arbitrary: w)
  case 0
  from 0(1) obtain x :: conn where "sent w fd @ contents (outputBuffer x) = accepted s"
      "fd \<in> wr_shut w \<longleftrightarrow> closing s \<and> contents (outputBuffer x) = []"
    by (elim session_okE) blast
  moreover from this(1) have "length (sent w fd) + length (contents (outputBuffer x)) = length (accepted s)"
    by (metis length_append)
  then have "contents (outputBuffer x) = []" using 0(3) by (simp flip: length_0_conv)
  ultimately show ?case by simp
next
  case (Suc n)
  obtain w1 where "handleWrite c w = Inr w1" "session_ok l c fd s w1" "\<forall>i. 0 < write_answers w1 i"
      "length (accepted s) \<le> n + length (sent w1 fd)"
    using session_writable [OF Suc.prems(1), of n] Suc.prems(2,3) by auto
  then show ?case using Suc.IH by simp
qed

theorem connection_drains_witness:
  "\<exists>w'. rfold (\<lambda>_. handleWrite 7) (replicate 3 ()) (demo_world 7 kDisconnecting demo_waiting) = Inr w' \<and>
    sent w' 5 = [1, 2, 3] \<and> 5 \<in> wr_shut w'"
  using connection_drains [OF demo_busy_session, of 3] by auto

end
