(* ===== verification/Tcp_Lifecycle.thy ===== *)
theory Tcp_Lifecycle
  imports Tcp_Session
begin

text \<open>
  The life of a connection in a loop that uses epoll: construction and \<open>connEstablished\<close> register
  its descriptor, \<open>handleRead\<close> sorts the outcomes of a read, \<open>connDestroyed\<close> takes the descriptor
  back, and no operation moves the state backwards. The last section shows what the missing write
  callback of the constructor means for buffered output.
\<close>

section \<open>Registration\<close>

lemma connEstablished_at:
  assumes lp: "epoll_loop l e p w" and x: "conns w c = Some x" "conn_loop x = l" "state x = kConnecting" "connCb x"
    and ch: "channels w (conn_channel x) = Some ch" "ch_loop ch = l" "index ch = kNew" "events ch = 0"
      "ep_channels p (ch_fd ch) = None"
  defines "ch' \<equiv> ch\<lparr>events := kReadEvent, index := kAdded\<rparr>" and "x' \<equiv> x\<lparr>state := kConnected\<rparr>"
  shows "\<exists>p' w'. w' = store_channel l e p' (conn_channel x) ch' (w\<lparr>conns := (conns w)(c \<mapsto> x')\<rparr>) \<and>
    connEstablished code c w = connection_cb code c w' \<and>
    conn_at l c (ch_fd ch) x' ch' (e\<lparr>loop_poller := Epoll p'\<rparr>) p' w' \<and> \<not> isWriting ch' \<and>
    epoll_watch (channels w') p' = (epoll_watch (channels w) p)(ch_fd ch \<mapsto> (kReadEvent, conn_channel x))"
proof -
  define w1 where "w1 = w\<lparr>conns := (conns w)(c \<mapsto> x')\<rparr>"
  have lp1: "epoll_loop l e p w1" and ch1: "channels w1 (conn_channel x) = Some ch"
    using lp ch(1) by (simp_all add: epoll_loop_def w1_def)
  obtain p' where p': "enableReading (conn_channel x) w1 = Inr (store_channel l e p' (conn_channel x) ch' w1)"
      "epoll_loop l (e\<lparr>loop_poller := Epoll p'\<rparr>) p' (store_channel l e p' (conn_channel x) ch' w1)"
      "epoll_watch ((channels w1)(conn_channel x \<mapsto> ch')) p' =
        (epoll_watch (channels w1) p)(ch_fd ch \<mapsto> (kReadEvent, conn_channel x))"
    using enableReading_new [OF lp1 ch1 ch(2-5)] unfolding ch'_def [symmetric] by blast
  have "connEstablished code c w = connection_cb code c (store_channel l e p' (conn_channel x) ch' w1)"
    using lp x p'(1) by (simp add: connEstablished_def modify_conn_def call_if_set_def
        assertInLoopThread_def isInLoopThread_def epoll_loop_def x'_def w1_def)
  then show ?thesis using p'(2,3) x(2) ch(2)
    by (intro exI [of _ p'] exI [of _ "store_channel l e p' (conn_channel x) ch' w1"])
      (simp add: conn_at_def x'_def ch'_def w1_def index_values isWriting_def event_masks)
qed

text \<open>
  C29. Establishing a new connection. On a descriptor that the loop's poller does not know, the
  constructor and \<open>connEstablished\<close>, in the loop's thread, leave a connected connection with empty
  buffers whose descriptor the kernel watches for reading, next to what it watched before; then,
  and only then, the connection callback runs.
\<close>

theorem connection_established:
  assumes lp: "epoll_loop l e p w" and new: "channels w chan = None" "ep_channels p fd = None"
    and w1: "setConnectionCallback True c (new_TcpConnection l name c chan fd local peer w) = Inr w1"
  shows "\<exists>w2 x ch e' p'. connEstablished code c w1 = connection_cb code c w2 \<and>
    conn_at l c fd x ch e' p' w2 \<and> connected x \<and> buffer_ok (outputBuffer x) \<and>
    contents (inputBuffer x) = [] \<and> contents (outputBuffer x) = [] \<and> \<not> isWriting ch \<and>
    kernel_watch p' = Some ((nonzero_watch (epoll_watch (channels w) p))(fd \<mapsto> kReadEvent))"
proof -
  define x where "x = \<lparr>conn_loop = l, conn_channel = chan, conn_name = name, state = kConnecting,
     inputBuffer = new_Buffer, outputBuffer = new_Buffer, connCb = True, messaCb = False,
     closeCb = None, wriComCb = False, highCb = False, conn_localAddr = local, conn_peerAddr = peer\<rparr>"
  define ch where "ch = (new_Channel l fd)\<lparr>readCallback := Some (Cb_TcpConnection_handleRead c),
     closeCallback := Some (Cb_TcpConnection_handleClose c)\<rparr>"
  have w1_eq: "w1 = w\<lparr>conns := (conns w)(c \<mapsto> x), channels := (channels w)(chan \<mapsto> ch)\<rparr>"
    using w1 by (auto simp: setConnectionCallback_def modify_conn_def new_TcpConnection_def x_def ch_def)
  have i: "index ch = kNew" "ch_loop ch = l" "ch_fd ch = fd" "events ch = 0"
    by (simp_all add: ch_def new_Channel_def index_values)
  note fresh = epoll_loop_new_channel [OF lp new(1) i(1)]
  have lp1: "epoll_loop l e p w1" using lp fresh(2) by (simp add: epoll_loop_def w1_eq)
  have x1: "conns w1 c = Some x" "conn_loop x = l" "state x = kConnecting" "connCb x" "conn_channel x = chan"
      "channels w1 (conn_channel x) = Some ch" "ep_channels p (ch_fd ch) = None"
    using new(2) i(3) by (simp_all add: w1_eq x_def)
  obtain ch' p' w2 where w2: "connEstablished code c w1 = connection_cb code c w2" "\<not> isWriting ch'"
      "conn_at l c fd (x\<lparr>state := kConnected\<rparr>) ch' (e\<lparr>loop_poller := Epoll p'\<rparr>) p' w2"
      "epoll_watch (channels w2) p' = (epoll_watch (channels w1) p)(fd \<mapsto> (kReadEvent, chan))"
    using connEstablished_at [OF lp1 x1(1-4,6) i(2,1,4) x1(7), of code] unfolding i(3) x1(5) by blast
  have "kernel_watch p' = Some ((nonzero_watch (epoll_watch (channels w) p))(fd \<mapsto> kReadEvent))"
    using kernel_watch_epoll_loop [OF conn_atD(1) [OF w2(3)]] w2(4) fresh(1) by (simp add: w1_eq event_masks)
  moreover have "connected (x\<lparr>state := kConnected\<rparr>)" "buffer_ok (outputBuffer x)"
      "contents (inputBuffer x) = []" "contents (outputBuffer x) = []"
    using new_Buffer_ok by (simp_all add: connected_def x_def)
  ultimately show ?thesis using w2(1-3)
    by (intro exI [of _ w2] exI [of _ "x\<lparr>state := kConnected\<rparr>"] exI [of _ ch']
        exI [of _ "e\<lparr>loop_poller := Epoll p'\<rparr>"] exI [of _ p']) simp
qed


text \<open>A loop of thread 1 with nothing registered, and an application that does nothing.\<close>

definition bare_world :: conn_world where
  "bare_world = (demo_world 3 kConnected new_Buffer)\<lparr>channels := Map.empty, conns := Map.empty,
     loops := [0 \<mapsto> small_loop]\<rparr>"

definition quiet_code :: "conn_world conn_code" where
  "quiet_code = \<lparr>connection_cb = \<lambda>c w. Inr w, message_cb = \<lambda>c t w. Inr w, close_cb = \<lambda>k c w. Inr w,
     write_complete_cb = \<lambda>c w. Inr w\<rparr>"

lemma bare_loop: "epoll_loop 0 small_loop new_EpollPoller bare_world"
  by (simp add: epoll_loop_def bare_world_def demo_world_def small_loop_def epoll_ok_def
      new_EpollPoller_def epoll_watch_def fun_eq_iff)

theorem connection_established_witness:
  "\<exists>w1 w2 x. setConnectionCallback True 7 (new_TcpConnection 0 ''demo'' 7 20 5 (InetAddress_port 80)
    (InetAddress_port 4000) bare_world) = Inr w1 \<and>
    connEstablished quiet_code 7 w1 = Inr w2 \<and> conns w2 7 = Some x \<and> connected x"
proof -
  obtain w1 where w1: "setConnectionCallback True 7 (new_TcpConnection 0 ''demo'' 7 20 5 (InetAddress_port 80)
    (InetAddress_port 4000) bare_world) = Inr w1"
    by (simp add: setConnectionCallback_def modify_conn_def new_TcpConnection_def)
  have "channels bare_world 20 = None" "ep_channels new_EpollPoller 5 = None"
    by (simp_all add: bare_world_def new_EpollPoller_def)
  from connection_established [OF bare_loop this w1, of quiet_code] obtain w2 x where
      "connEstablished quiet_code 7 w1 = Inr w2" "conns w2 7 = Some x" "connected x"
    using conn_atD(2) by (fastforce simp: quiet_code_def)
  then show ?thesis using w1 by blast
qed

lemma connDestroyed_at:
  assumes at: "conn_at l c fd x ch e p w" and up: "state x = kConnected \<or> state x = kDisconnecting"
    and cb: "connCb x" "\<And>w1. conns w1 c = Some (x\<lparr>state := kDisconnected\<rparr>) \<Longrightarrow>
      \<exists>w2. connection_cb code c w1 = Inr w2 \<and> channels w2 = channels w1 \<and>
      loops w2 = loops w1 \<and> conns w2 = conns w1 \<and> this_thread w2 = this_thread w1"
  shows "\<exists>p1 ch1 w2 p'. connection_cb code c (store_channel l e p1 (conn_channel x) ch1
        (w\<lparr>conns := (conns w)(c \<mapsto> x\<lparr>state := kDisconnected\<rparr>)\<rparr>)) = Inr w2 \<and>
    connDestroyed code c w = Inr (store_channel l e p' (conn_channel x) (ch1\<lparr>index := kNew\<rparr>) w2) \<and>
    epoll_loop l (e\<lparr>loop_poller := Epoll p'\<rparr>) p'
      (store_channel l e p' (conn_channel x) (ch1\<lparr>index := kNew\<rparr>) w2) \<and>
    conns w2 = (conns w)(c \<mapsto> x\<lparr>state := kDisconnected\<rparr>) \<and>
    ep_channels p' = (ep_channels p)(fd := None) \<and>
    kernel_watch p' = Some ((nonzero_watch (epoll_watch (channels w) p))(fd := None))"
proof -
  note d = conn_atD [OF at]
  let ?c = "conn_channel x"
  define w1 where "w1 = w\<lparr>conns := (conns w)(c \<mapsto> x\<lparr>state := kDisconnected\<rparr>)\<rparr>"
  have lp1: "epoll_loop l e p w1" using d(1) by (simp add: epoll_loop_def w1_def)
  have reg: "ep_channels p fd = Some ?c"
    using d(1,4-7) epoll_okD(2) by (fastforce simp: epoll_loop_def)
  define ch1 where
    "ch1 = ch\<lparr>events := 0, index := (if index ch = kAdded \<and> (0::event_mask) = 0 then kDeleted else kAdded)\<rparr>"
  have f: "without_events ch = ch\<lparr>events := 0\<rparr>" by (simp add: without_events_def event_masks)
  have ch_w1: "channels w1 ?c = Some ch" using d(4) by (simp add: w1_def)
  obtain p1 where p1: "disableAll ?c w1 = Inr (store_channel l e p1 ?c ch1 w1)"
      "epoll_loop l (e\<lparr>loop_poller := Epoll p1\<rparr>) p1 (store_channel l e p1 ?c ch1 w1)"
      "ep_channels p1 = (ep_channels p)(fd \<mapsto> ?c)"
      "nonzero_watch (epoll_watch ((channels w1)(?c \<mapsto> ch1)) p1) =
        (nonzero_watch (epoll_watch (channels w1) p))(fd := None)"
    using change_events_ok [where f = without_events, OF lp1 ch_w1 d(5) f, folded ch1_def] d(6,7)
    by (auto simp: disableAll_def split: if_splits)
  obtain w3 where w3: "connection_cb code c (store_channel l e p1 ?c ch1 w1) = Inr w3"
      "channels w3 = (channels w1)(?c \<mapsto> ch1)" "loops w3 = (loops w1)(l \<mapsto> e\<lparr>loop_poller := Epoll p1\<rparr>)"
      "conns w3 = conns w1" "this_thread w3 = this_thread w1"
    using cb(2) [of "store_channel l e p1 ?c ch1 w1"] by (auto simp: w1_def)
  have lp3: "epoll_loop l (e\<lparr>loop_poller := Epoll p1\<rparr>) p1 w3"
    using p1(2) w3 by (simp add: epoll_loop_def)
  have ch3: "channels w3 ?c = Some ch1" "ch_loop ch1 = l" "ch_fd ch1 = fd" "events ch1 = 0"
    using w3(2) d(5,6) by (simp_all add: ch1_def)
  have "ep_channels p1 (ch_fd ch1) = Some ?c" using p1(3) ch3(3) by simp
  from Channel_remove_ok [OF lp3 ch3(1,2) this ch3(4)] obtain p4 where p4:
      "Channel_remove ?c w3 = Inr (store_channel l (e\<lparr>loop_poller := Epoll p1\<rparr>) p4 ?c (ch1\<lparr>index := kNew\<rparr>) w3)"
      "epoll_loop l (e\<lparr>loop_poller := Epoll p4\<rparr>) p4
        (store_channel l (e\<lparr>loop_poller := Epoll p1\<rparr>) p4 ?c (ch1\<lparr>index := kNew\<rparr>) w3)"
      "ep_channels p4 = (ep_channels p1)(fd := None)"
      "epoll_watch ((channels w3)(?c \<mapsto> ch1\<lparr>index := kNew\<rparr>)) p4 = (epoll_watch (channels w3) p1)(fd := None)"
    unfolding ch3(3) by auto
  have store: "store_channel l (e\<lparr>loop_poller := Epoll p1\<rparr>) p4 ?c (ch1\<lparr>index := kNew\<rparr>) w3 =
      store_channel l e p4 ?c (ch1\<lparr>index := kNew\<rparr>) w3"
    by (simp add: store_channel_def)
  have "connDestroyed code c w = Inr (store_channel l e p4 ?c (ch1\<lparr>index := kNew\<rparr>) w3)"
    using d(2,3) up p1(1) w3(1) cb(1) p4(1) ch3(1,2)
    by (simp add: connDestroyed_def conn_at_simps(2) [OF at] modify_conn_def w1_def [symmetric]
        call_if_set_def Channel_remove_def store)
  moreover have "kernel_watch p4 = Some ((nonzero_watch (epoll_watch (channels w) p))(fd := None))"
    using kernel_watch_epoll_loop [OF p4(2)] p4(4) p1(4) w3(2) by (simp add: w1_def)
  moreover have "ep_channels p4 = (ep_channels p)(fd := None)" using p4(3) p1(3) by (simp add: fun_eq_iff)
  moreover have "conns w3 = (conns w)(c \<mapsto> x\<lparr>state := kDisconnected\<rparr>)" using w3(4) by (simp add: w1_def)
  ultimately show ?thesis using p4(2) w3(1) unfolding store w1_def by blast
qed

text \<open>
  Destroying a connection. When the connection callback leaves the loop's objects alone,
  \<open>connDestroyed\<close> on a connection that is up or half closed marks it disconnected, calls that
  callback and takes the descriptor out of the poller and of the kernel's list, and nothing else
  out of either.
\<close>

lemma connection_destroyed:
  assumes at: "conn_at l c fd x ch e p w" and up: "state x = kConnected \<or> state x = kDisconnecting"
    and cb: "connCb x" "\<And>w1. \<exists>w2. connection_cb code c w1 = Inr w2 \<and> channels w2 = channels w1 \<and>
      loops w2 = loops w1 \<and> conns w2 = conns w1 \<and> this_thread w2 = this_thread w1"
  shows "\<exists>w' p' e'. connDestroyed code c w = Inr w' \<and> epoll_loop l e' p' w' \<and>
    map_option state (conns w' c) = Some kDisconnected \<and>
    map_option index (channels w' (conn_channel x)) = Some kNew \<and>
    ep_channels p' = (ep_channels p)(fd := None) \<and>
    kernel_watch p' = Some ((nonzero_watch (epoll_watch (channels w) p))(fd := None))"
proof -
  obtain p1 ch1 w2 p' where w2: "connDestroyed code c w =
        Inr (store_channel l e p' (conn_channel x) (ch1\<lparr>index := kNew\<rparr>) w2)"
      "epoll_loop l (e\<lparr>loop_poller := Epoll p'\<rparr>) p' (store_channel l e p' (conn_channel x) (ch1\<lparr>index := kNew\<rparr>) w2)"
      "conns w2 = (conns w)(c \<mapsto> x\<lparr>state := kDisconnected\<rparr>)" "ep_channels p' = (ep_channels p)(fd := None)"
      "kernel_watch p' = Some ((nonzero_watch (epoll_watch (channels w) p))(fd := None))"
    using connDestroyed_at [OF at up cb] by blast
  then show ?thesis
    by (intro exI [of _ "store_channel l e p' (conn_channel x) (ch1\<lparr>index := kNew\<rparr>) w2"] exI [of _ p']
        exI [of _ "e\<lparr>loop_poller := Epoll p'\<rparr>"]) simp
qed

lemma connection_destroyed_witness:
  "\<exists>w' p' e'. connDestroyed quiet_code 7 (demo_world 3 kDisconnecting new_Buffer) = Inr w' \<and>
    epoll_loop 0 e' p' w' \<and> map_option state (conns w' 7) = Some kDisconnected \<and>
    ep_channels p' = Map.empty \<and> kernel_watch p' = Some Map.empty"
proof -
  have z: "(nonzero_watch (epoll_watch (channels (demo_world 3 kDisconnecting new_Buffer)) (demo_poller 3)))
        (5 := None) = Map.empty" "(ep_channels (demo_poller 3))(5 := None) = Map.empty"
    by (simp_all add: epoll_watch_def demo_poller_def demo_world_def demo_channel_def index_values
        nonzero_watch_def new_EpollPoller_def fun_eq_iff)
  have "connCb (demo_conn kDisconnecting new_Buffer)" by (simp add: demo_conn_def)
  from connection_destroyed [OF demo_at _ this, of quiet_code 3] show ?thesis
    by (fastforce simp: quiet_code_def z)
qed


section \<open>Closing\<close>

lemma disableAll_at:
  assumes at: "conn_at l c fd x ch e p w"
  shows "\<exists>p' ch'. disableAll (conn_channel x) w = Inr (store_channel l e p' (conn_channel x) ch' w) \<and>
    conn_at l c fd x ch' (e\<lparr>loop_poller := Epoll p'\<rparr>) p' (store_channel l e p' (conn_channel x) ch' w) \<and>
    same_dispatch ch ch'"
proof -
  note d = conn_atD [OF at]
  define i where "i = (if index ch = kAdded \<and> (0::event_mask) = 0 then kDeleted else kAdded)"
  have f: "without_events ch = ch\<lparr>events := 0\<rparr>" by (simp add: without_events_def event_masks)
  obtain p' where "disableAll (conn_channel x) w = Inr (store_channel l e p' (conn_channel x)
        (ch\<lparr>events := 0, index := i\<rparr>) w)"
      "epoll_loop l (e\<lparr>loop_poller := Epoll p'\<rparr>) p' (store_channel l e p' (conn_channel x)
        (ch\<lparr>events := 0, index := i\<rparr>) w)"
    using change_events_ok [where f = without_events, OF d(1,4,5) f, folded i_def] d(7)
    by (auto simp: disableAll_def)
  then show ?thesis using at
    by (intro exI [of _ p'] exI [of _ "ch\<lparr>events := 0, index := i\<rparr>"])
      (simp add: conn_at_def index_values i_def same_dispatch_def)
qed

lemma handleClose_at:
  assumes at: "conn_at l c fd x ch e p w" and up: "state x = kConnected \<or> state x = kDisconnecting"
    and cb: "closeCb x = Some k"
  shows "\<exists>w1 ch' e' p'. handleClose code c w = close_cb code k c w1 \<and>
    conn_at l c fd x ch' e' p' w1 \<and> same_dispatch ch ch' \<and> conn_world.more w1 = conn_world.more w \<and>
    read_answers w1 = read_answers w \<and> pendingFunctors e' = pendingFunctors e"
proof -
  obtain p' ch' where d: "disableAll (conn_channel x) w =
          Inr (store_channel l e p' (conn_channel x) ch' w)"
      "conn_at l c fd x ch' (e\<lparr>loop_poller := Epoll p'\<rparr>) p' (store_channel l e p' (conn_channel x) ch' w)"
      "same_dispatch ch ch'"
    using disableAll_at [OF at] by blast
  have "handleClose code c w = close_cb code k c (store_channel l e p' (conn_channel x) ch' w)"
    using conn_atD(2,3) [OF at] conn_atD(2) [OF d(2)] up cb d(1)
    by (simp add: handleClose_def conn_at_simps(2) [OF at] call_if_set_def)
  moreover have "conn_world.more (store_channel l e p' (conn_channel x) ch' w) = conn_world.more w"
      "read_answers (store_channel l e p' (conn_channel x) ch' w) = read_answers w"
    by (simp_all add: store_channel_def)
  ultimately show ?thesis using d(2,3)
    by (intro exI [of _ "store_channel l e p' (conn_channel x) ch' w"] exI [of _ ch']
        exI [of _ "e\<lparr>loop_poller := Epoll p'\<rparr>"] exI [of _ p']) simp
qed

section \<open>Reading\<close>

lemma sys_readv_at:
  "conn_at l c fd x ch e p w \<Longrightarrow> conn_at l c fd x ch e p (snd (sys_readv w))"
  by (simp add: sys_readv_def conn_at_def epoll_loop_def)

lemma handleRead_fits:
  assumes at: "conn_at l c fd x ch e p w" and ok: "buffer_ok (inputBuffer x)"
    and rd: "read_answers w 0 = Inr d"
    and room: "unat (writeIndex (inputBuffer x)) + length d \<le> length (buf (inputBuffer x))"
  shows "\<exists>b w1. buffer_ok b \<and> contents b = contents (inputBuffer x) @ d \<and>
    w1 = (snd (sys_readv w))\<lparr>conns := (conns w)(c \<mapsto> x\<lparr>inputBuffer := b\<rparr>)\<rparr> \<and>
    handleRead code c now w =
      (if d = [] then handleClose code c w1
       else if messaCb x then message_cb code c now w1 else Inl BadFunctionCall)"
proof -
  define w1 where "w1 = snd (sys_readv w)"
  have w1: "sys_readv w = (Inr d, w1)" "conns w1 = conns w" by (simp_all add: sys_readv_def w1_def rd)
  obtain b where b: "readFd (Inr d) (inputBuffer x) = Inr (b, int (length d), None)"
      "buffer_ok b" "contents b = contents (inputBuffer x) @ d"
    using readFd_fits [OF ok room] by blast
  define w2 where "w2 = w1\<lparr>conns := (conns w)(c \<mapsto> x\<lparr>inputBuffer := b\<rparr>)\<rparr>"
  have "handleRead code c now w = (if d = [] then handleClose code c w2
      else if messaCb x then message_cb code c now w2 else Inl BadFunctionCall)"
    by (simp add: handleRead_def conn_at_simps [OF at] w1 b(1) modify_conn_def conn_atD(2) [OF at]
        call_if_set_def w2_def)
  then show ?thesis using b(2,3) w2_def unfolding w1_def by blast
qed

text \<open>
  The outcomes of \<open>handleRead\<close>, by the answer of \<open>readv\<close>. Bytes that fit behind the write index
  are appended to the input buffer, and then the message callback runs; an end of file runs
  \<open>handleClose\<close>; an error changes nothing, the connection stays as it was and no callback runs.
  A connection without a message callback ends the program with \<open>std::bad_function_call\<close>.
\<close>

lemma handleRead_outcomes:
  assumes at: "conn_at l c fd x ch e p w" and ok: "buffer_ok (inputBuffer x)"
  shows "case read_answers w 0 of
      Inl err \<Rightarrow> handleRead code c now w = Inr (snd (sys_readv w))
    | Inr d \<Rightarrow> unat (writeIndex (inputBuffer x)) + length d \<le> length (buf (inputBuffer x)) \<longrightarrow>
        (\<exists>b w1. buffer_ok b \<and> contents b = contents (inputBuffer x) @ d \<and>
          w1 = (snd (sys_readv w))\<lparr>conns := (conns w)(c \<mapsto> x\<lparr>inputBuffer := b\<rparr>)\<rparr> \<and>
          handleRead code c now w =
            (if d = [] then handleClose code c w1
             else if messaCb x then message_cb code c now w1 else Inl BadFunctionCall))"
proof -
  note d = conn_atD [OF at]
  define w1 where "w1 = snd (sys_readv w)"
  have w1: "sys_readv w = (read_answers w 0, w1)" "conns w1 = conns w"
    by (simp_all add: sys_readv_def w1_def)
  have at1: "conn_at l c fd x ch e p w1" using sys_readv_at [OF at] by (simp add: w1_def)
  show ?thesis
  proof (cases "read_answers w 0")
    case (Inl err)
    have "handleRead code c now w = handleError c
        (w1\<lparr>conns := (conns w1)(c \<mapsto> x)\<rparr>)"
      by (simp add: handleRead_def conn_at_simps [OF at] w1(1) Inl readFd_def modify_conn_def w1(2) d(2))
    also have "(conns w1)(c \<mapsto> x) = conns w1"
      using d(2) w1(2) by (simp add: map_upd_triv)
    finally have "handleRead code c now w = Inr w1" by (simp add: handleError_def conn_at_simps(1) [OF at1])
    then show ?thesis using Inl by (simp add: w1_def)
  next
    case (Inr dd)
    show ?thesis
      using handleRead_fits [OF at ok Inr] Inr by auto
  qed
qed

lemma handleRead_outcomes_witness:
  "handleRead quiet_code 7 (Timestamp 0) (demo_world 3 kConnected new_Buffer) =
    Inr (snd (sys_readv (demo_world 3 kConnected new_Buffer)))"
proof -
  have "buffer_ok (inputBuffer (demo_conn kConnected new_Buffer))"
    using new_Buffer_ok by (simp add: demo_conn_def)
  from handleRead_outcomes [OF demo_at this, where code = quiet_code and now = "Timestamp 0"] show ?thesis
    by (simp add: demo_world_def)
qed

section \<open>Writable, and nobody told\<close>

text \<open>
  C35. The constructor of \<open>TcpConnection\<close> gives the channel no write callback. However often the
  poller reports that the socket is writable (and nothing else), the channel runs no handler: the
  connections, what the sockets have sent and the half closes stay as they are. So bytes that
  \<open>sendInLoop\<close> left in the output buffer are never sent, and a half close that waits for them never
  happens, although \<open>handleWrite\<close> exists for that.
\<close>

theorem pollout_runs_nothing:
  assumes ch0: "channels (new_TcpConnection l name c chan fd local peer w0) chan = Some ch0"
    and ch: "channels w chan = Some ch" "same_dispatch (ch0\<lparr>revents := POLLOUT\<rparr>) ch"
      "tied ch = tied ch0"
  shows "\<exists>w'. rfold (\<lambda>_. handleEvent alive (conn_callback code) now chan) (replicate n ()) w = Inr w' \<and>
    conns w' = conns w \<and> sent w' = sent w \<and> wr_shut w' = wr_shut w"
  using ch
proof (induction n arbitrary: w ch)
  case (Suc n)
  have ch0_eq: "ch0 = (new_Channel l fd)\<lparr>readCallback := Some (Cb_TcpConnection_handleRead c),
      closeCallback := Some (Cb_TcpConnection_handleClose c)\<rparr>"
    using ch0 by (simp add: new_TcpConnection_def)
  have cb: "revents ch = POLLOUT" "errorCallback ch = None" "writeCallback ch = None" "\<not> tied ch"
    using Suc.prems(2,3) by (simp_all add: same_dispatch_def ch0_eq new_Channel_def)
  define ch' where "ch' = ch\<lparr>eventHandling := False\<rparr>"
  define w1 where "w1 = w\<lparr>channels := (channels w)(chan \<mapsto> ch')\<rparr>"
  have "handleEvent alive (conn_callback code) now chan w = Inr w1"
    using Suc.prems(1) cb by (simp add: handleEvent_def handleEventWithGuard_def modify_channel_def
        dispatch_def error_guard_def close_guard_def read_guard_def write_guard_def event_masks
        w1_def ch'_def)
  moreover have "channels w1 chan = Some ch'" "same_dispatch (ch0\<lparr>revents := POLLOUT\<rparr>) ch'"
      "tied ch' = tied ch0"
    using Suc.prems(2,3) by (simp_all add: w1_def ch'_def same_dispatch_def)
  ultimately show ?case using Suc.IH [of w1 ch'] by (simp add: w1_def)
qed simp

theorem pollout_runs_nothing_witness:
  "\<exists>w'. rfold (\<lambda>_. handleEvent (\<lambda>_ _. True) (conn_callback quiet_code) (Timestamp 0) 20) (replicate 1000 ())
      ((demo_world 7 kDisconnecting demo_waiting)\<lparr>channels :=
        [20 \<mapsto> (demo_channel 7)\<lparr>revents := POLLOUT\<rparr>]\<rparr>) = Inr w' \<and>
    conns w' 7 = Some (demo_conn kDisconnecting demo_waiting) \<and> sent w' 5 = [] \<and> 5 \<notin> wr_shut w'"
proof -
  have "\<exists>w'. rfold (\<lambda>_. handleEvent (\<lambda>_ _. True) (conn_callback quiet_code) (Timestamp 0) 20) (replicate 1000 ())
      ((demo_world 7 kDisconnecting demo_waiting)\<lparr>channels :=
        [20 \<mapsto> (demo_channel 7)\<lparr>revents := POLLOUT\<rparr>]\<rparr>) = Inr w' \<and>
    conns w' = conns (demo_world 7 kDisconnecting demo_waiting) \<and>
    sent w' = sent (demo_world 7 kDisconnecting demo_waiting) \<and>
    wr_shut w' = wr_shut (demo_world 7 kDisconnecting demo_waiting)"
    using pollout_runs_nothing [where l = 0 and name = "''demo''" and c = 7 and chan = 20 and fd = 5
        and ?w0.0 = bare_world and ch = "(demo_channel 7)\<lparr>revents := POLLOUT\<rparr>"
        and w = "(demo_world 7 kDisconnecting demo_waiting)\<lparr>channels :=
          [20 \<mapsto> (demo_channel 7)\<lparr>revents := POLLOUT\<rparr>]\<rparr>"]
    by (simp add: new_TcpConnection_def same_dispatch_def demo_channel_def new_Channel_def)
  then show ?thesis by (auto simp: demo_world_def)
qed


section \<open>The state moves forward\<close>

fun state_rank :: "conn_state \<Rightarrow> nat" where
  "state_rank kConnecting = 0"
| "state_rank kConnected = 1"
| "state_rank kDisconnecting = 2"
| "state_rank kDisconnected = 3"

definition forward :: "'a conn_world_scheme \<Rightarrow> 'a conn_world_scheme \<Rightarrow> bool" where
  "forward w w' \<longleftrightarrow> (\<forall>c x. conns w c = Some x \<longrightarrow>
     (\<exists>x'. conns w' c = Some x' \<and> state_rank (state x) \<le> state_rank (state x')))"

lemma forward_refl [intro]: "conns w' = conns w \<Longrightarrow> forward w w'"
  by (simp add: forward_def)

lemma forward_trans: "forward w w1 \<Longrightarrow> forward w1 w2 \<Longrightarrow> forward w w2"
  unfolding forward_def by (meson le_trans)

text \<open>\<open>fwd w r\<close>: if the operation \<open>r\<close>, started from \<open>w\<close>, returns, the states have moved forward.\<close>

definition fwd :: "'a conn_world_scheme \<Rightarrow> 'a conn_world_scheme result \<Rightarrow> bool" where
  "fwd w r \<longleftrightarrow> (\<forall>w'. r = Inr w' \<longrightarrow> forward w w')"

lemma fwd_simps [simp]:
  "fwd w (Inl err)"
  "fwd w (Inr w') \<longleftrightarrow> forward w w'"
  "fwd w (cpp_assert P r) \<longleftrightarrow> (P \<longrightarrow> fwd w r)"
  "fwd w (call_if_set P r) \<longleftrightarrow> (P \<longrightarrow> fwd w r)"
  by (auto simp: fwd_def cpp_assert_def call_if_set_def)

lemma fwd_bind: "(\<And>y. r = Inr y \<Longrightarrow> fwd w (k y)) \<Longrightarrow> fwd w (rbind r k)"
  by (cases r) simp_all

lemma fwd_then: "fwd w r \<Longrightarrow> (\<And>w1. forward w w1 \<Longrightarrow> fwd w (k w1)) \<Longrightarrow> fwd w (rbind r k)"
  by (cases r) simp_all

lemma fwd_after: "forward w w1 \<Longrightarrow> fwd w1 r \<Longrightarrow> fwd w r"
  unfolding fwd_def using forward_trans by blast

lemma fwd_if: "(P \<Longrightarrow> fwd w r) \<Longrightarrow> (\<not> P \<Longrightarrow> fwd w r') \<Longrightarrow> fwd w (if P then r else r')"
  by simp

lemma fwd_in_loop: "fwd w r \<Longrightarrow> fwd w (assertInLoopThread l w1 r)"
  by (auto simp: assertInLoopThread_def intro: fwd_bind)

lemma fwd_conn:
  "(\<And>x ch. conns w1 c = Some x \<Longrightarrow> channels w1 (conn_channel x) = Some ch \<Longrightarrow> fwd w (k x ch)) \<Longrightarrow>
    fwd w (with_conn c w1 k)"
  by (auto simp: with_conn_def deref_Inr_iff intro!: fwd_bind)

lemma fwd_modify:
  "(\<And>x. conns w c = Some x \<Longrightarrow> state_rank (state x) \<le> state_rank (state (f x))) \<Longrightarrow>
    fwd w (modify_conn c f w)"
  by (auto simp: modify_conn_def forward_def deref_Inr_iff intro!: fwd_bind)

lemma same_conns:
  "change_events f chan w = Inr w' \<Longrightarrow> conns w' = conns w"
  "removeChannel l chan w = Inr w' \<Longrightarrow> conns w' = conns w"
  "queueInLoop l fn w = Inr w' \<Longrightarrow> conns w' = conns w"
  "on_queue l g w = Inr w' \<Longrightarrow> conns w' = conns w"
  by (auto simp: change_events_def modify_channel_def updateChannel_def removeChannel_def
      assertInLoopThread_def isInLoopThread_def with_poller_def queueInLoop_def on_loop_def
      on_queue_def rbind_Inr_iff cpp_assert_Inr_iff split: prod.splits if_splits)

lemma runAfter_conns:
  assumes "runAfter l p secs fn w = Inr (t, w')"
  shows "conns w' = conns w"
proof -
  obtain w1 where w1: "on_queue l (\<lambda>q. Inr (q\<lparr>objs := (objs q)(p \<mapsto> new_Timer (addTime (clock w 0) secs) fn 0
        (timer_seq w))\<rparr>)) (w\<lparr>clock := \<lambda>i. clock w (Suc i)\<rparr>) = Inr w1"
      "runInLoop l (Fn_addTimerInLoop p) (\<lambda>w. assertInLoopThread l w (addTimerInLoop_at l p w))
        (w1\<lparr>timer_seq := timer_seq w + 1\<rparr>) = Inr w'"
    using assms by (auto simp: runAfter_def runAt_def addTimer_def allocate_timer_def read_clock_def
        rbind_Inr_iff)
  have "conns w' = conns w1"
    using w1(2) same_conns(3,4) by (fastforce simp: runInLoop_def assertInLoopThread_def
        addTimerInLoop_at_def read_clock_def rbind_Inr_iff split: if_splits)
  then show ?thesis using same_conns(4) [OF w1(1)] by simp
qed

text \<open>The calls that other code makes on a connection.\<close>

datatype connection_call =
    Call_send "byte list"
  | Call_shutdown
  | Call_forceClose
  | Call_forceCloseWithDelay timer_ptr double
  | Call_connEstablished
  | Call_connDestroyed
  | Call_forceCloseInLoop
  | Call_handleRead timestamp
  | Call_handleWrite
  | Call_handleClose

fun conn_call ::
    "'a conn_world_scheme conn_code \<Rightarrow> conn_ptr \<times> connection_call \<Rightarrow> 'a conn_world_scheme \<Rightarrow>
     'a conn_world_scheme result" where
  "conn_call code (c, Call_send d) w = send c d w"
| "conn_call code (c, Call_shutdown) w = shutdown c w"
| "conn_call code (c, Call_forceClose) w = forceClose c w"
| "conn_call code (c, Call_forceCloseWithDelay p s) w = forceCloseWithDelay p c s w"
| "conn_call code (c, Call_connEstablished) w = connEstablished code c w"
| "conn_call code (c, Call_connDestroyed) w = connDestroyed code c w"
| "conn_call code (c, Call_forceCloseInLoop) w = forceCloseInLoop code c w"
| "conn_call code (c, Call_handleRead now) w = handleRead code c now w"
| "conn_call code (c, Call_handleWrite) w = handleWrite c w"
| "conn_call code (c, Call_handleClose) w = handleClose code c w"

definition callbacks_forward :: "'a conn_world_scheme conn_code \<Rightarrow> bool" where
  "callbacks_forward code \<longleftrightarrow> (\<forall>k c now w w'.
     (connection_cb code c w = Inr w' \<or> message_cb code c now w = Inr w' \<or> close_cb code k c w = Inr w')
     \<longrightarrow> forward w w')"

lemmas result_simps = rbind_Inr_iff cpp_assert_Inr_iff assertInLoopThread_def isInLoopThread_def
  deref_Inr_iff with_conn_def call_if_set_def

lemma fwd_same: "(\<And>w'. r = Inr w' \<Longrightarrow> conns w' = conns w1) \<Longrightarrow> forward w w1 \<Longrightarrow> fwd w r"
  by (auto simp: fwd_def forward_def)

lemma fwd_frame:
  "forward w w1 \<Longrightarrow> fwd w (change_events f chan w1)"
  "forward w w1 \<Longrightarrow> fwd w (queueInLoop l fn w1)"
  "forward w w1 \<Longrightarrow> fwd w (removeChannel l chan w1)"
  by (rule fwd_same, erule same_conns(1), assumption)
    (rule fwd_same, erule same_conns(3), assumption, rule fwd_same, erule same_conns(2), assumption)

lemma fwd_channel_ops:
  assumes "forward w w1"
  shows "fwd w (enableReading chan w1)" "fwd w (enableWriting chan w1)"
    "fwd w (disableWriting chan w1)" "fwd w (disableAll chan w1)"
  unfolding enableReading_def enableWriting_def disableWriting_def disableAll_def
  by (rule fwd_frame(1) [OF assms])+

lemma shutdownInLoop_fwd: "forward w w1 \<Longrightarrow> fwd w (shutdownInLoop c w1)"
  unfolding shutdownInLoop_def
  by (intro fwd_after [of w w1] fwd_conn fwd_in_loop) (simp_all add: forward_refl shutdownWrite_def)

lemma write_now_conns: "write_now c d w = Inr (n, w') \<Longrightarrow> conns w' = conns w"
  using same_conns(3) by (fastforce simp: write_now_def sys_write_def result_simps Let_def
      split: if_splits prod.splits)

lemma fwd_set_output:
  "forward w w1 \<Longrightarrow> (\<And>w2. forward w w2 \<Longrightarrow> fwd w (k w2)) \<Longrightarrow>
    fwd w (rbind (modify_conn c (\<lambda>x. x\<lparr>outputBuffer := b\<rparr>) w1) k)"
  by (rule fwd_then, rule fwd_after, assumption, rule fwd_modify) simp_all

lemma sendInLoop_fwd:
  assumes "forward w w0"
  shows "fwd w (sendInLoop c d w0)"
  unfolding sendInLoop_def
proof (intro fwd_after [OF assms] fwd_conn fwd_in_loop fwd_bind, goal_cases)
  case (1 x ch y)
  then have w1: "forward w0 (snd y)" by (cases y) (auto dest: write_now_conns)
  have "fwd w0 (if fst y < int (length d) then with_conn c (snd y) (\<lambda>x ch.
      rbind (append_bytes (drop (nat (fst y)) d) (outputBuffer x)) (\<lambda>b.
      rbind (modify_conn c (\<lambda>x. x\<lparr>outputBuffer := b\<rparr>) (snd y)) (\<lambda>w.
      if \<not> isWriting ch then enableWriting (conn_channel x) w else Inr w))) else Inr (snd y))"
    by (rule fwd_if, rule fwd_conn, rule fwd_bind, rule fwd_set_output [OF w1])
      (auto simp: w1 intro: fwd_channel_ops)
  then show ?case by (simp add: split_def)
qed

lemma handleWrite_fwd: "fwd w (handleWrite c w)"
  unfolding handleWrite_def
proof (intro fwd_conn fwd_in_loop fwd_if fwd_bind, goal_cases)
  case (1 x ch d)
  obtain n w1 where w1: "sys_write (ch_fd ch) d w = (n, w1)" by force
  then have "conns w1 = conns w" by (auto simp: sys_write_def Let_def)
  then have f: "forward w w1" by (rule forward_refl)
  have "fwd w (if 0 < n then rbind (retrieve (word_of_int n) (outputBuffer x)) (\<lambda>b.
        rbind (modify_conn c (\<lambda>x. x\<lparr>outputBuffer := b\<rparr>) w1) (\<lambda>w.
        if readableBytes b = 0 then
          rbind (disableWriting (conn_channel x) w) (\<lambda>w.
          rbind (if wriComCb x then queueInLoop (conn_loop x) (Fn_writeComplete c) w else Inr w) (\<lambda>w.
          if state x = kDisconnecting then shutdownInLoop c w else Inr w))
        else Inr w)) else Inr w1)"
    by (rule fwd_if, rule fwd_bind, rule fwd_set_output [OF f])
      (auto simp: f intro!: fwd_then fwd_channel_ops fwd_frame(2) shutdownInLoop_fwd)
  then show ?case using w1 by simp
qed (simp add: forward_refl)


lemma handleClose_fwd:
  assumes "callbacks_forward code" and "forward w w0"
  shows "fwd w (handleClose code c w0)"
proof -
  have cb: "fwd w (close_cb code k c w1)" if "forward w w1" for w1 k
    using assms(1) that by (auto simp: fwd_def callbacks_forward_def intro: forward_trans)
  show ?thesis
    unfolding handleClose_def
    by (rule fwd_bind, rule fwd_in_loop)
      (auto simp: assms(2) intro!: fwd_then fwd_channel_ops fwd_bind [where r = "deref _ _"] cb
          split: option.split)
qed


lemma fwd_set_state:
  "\<forall>x. conns w c = Some x \<longrightarrow> state_rank (state x) \<le> state_rank st \<Longrightarrow>
    fwd w (modify_conn c (\<lambda>x. x\<lparr>state := st\<rparr>) w)"
  by (intro fwd_modify) simp

lemma connEstablished_fwd:
  assumes "callbacks_forward code"
  shows "fwd w (connEstablished code c w)"
proof -
  have cb: "fwd w (connection_cb code c w1)" if "forward w w1" for w1
    using assms that by (auto simp: fwd_def callbacks_forward_def intro: forward_trans)
  show ?thesis
    unfolding connEstablished_def
    by (rule fwd_bind, rule fwd_in_loop)
      (auto simp: deref_Inr_iff intro!: fwd_then fwd_set_state fwd_channel_ops cb)
qed

lemma connDestroyed_fwd:
  assumes "callbacks_forward code"
  shows "fwd w (connDestroyed code c w)"
proof -
  have cb: "fwd w (connection_cb code c w1)" if "forward w w1" for w1
    using assms that by (auto simp: fwd_def callbacks_forward_def intro: forward_trans)
  show ?thesis
    unfolding connDestroyed_def
    by (rule fwd_bind, rule fwd_in_loop)
      (auto simp: deref_Inr_iff intro!: fwd_then fwd_set_state fwd_channel_ops cb fwd_frame(3))
qed

lemma handleRead_fwd:
  assumes "callbacks_forward code"
  shows "fwd w (handleRead code c now w)"
proof -
  have cb: "fwd w (message_cb code c now w1)" if "forward w w1" for w1
    using assms that by (auto simp: fwd_def callbacks_forward_def intro: forward_trans)
  obtain rv w1 where rv: "sys_readv w = (rv, w1)" by force
  then have f: "forward w w1" by (auto simp: sys_readv_def forward_refl)
  show ?thesis
    unfolding handleRead_def rv prod.case
    by (rule fwd_conn, rule fwd_bind)
      (auto simp: handleError_def f handleClose_fwd [OF assms] intro!: cb fwd_conn
        fwd_then [OF fwd_after [OF f fwd_modify]])
qed

lemma conn_call_fwd:
  assumes "callbacks_forward code"
  shows "fwd w (conn_call code ck w)"
proof (cases "(code, ck, w)" rule: conn_call.cases)
  case (1 code c d w)
  then show ?thesis
    by (auto simp: send_def runInLoop_def sendInLoop_fwd fwd_frame forward_refl intro!: fwd_bind)
next
  case (2 code c w)
  then show ?thesis
    by (auto simp: shutdown_def runInLoop_def forward_refl deref_Inr_iff
        intro!: fwd_bind [where r = "deref _ _"] fwd_bind [where r = "isInLoopThread _ _"] fwd_then fwd_set_state shutdownInLoop_fwd fwd_frame)
next
  case (3 code c w)
  then show ?thesis
    by (auto simp: forceClose_def forward_refl deref_Inr_iff
        intro!: fwd_bind [where r = "deref _ _"] fwd_then fwd_set_state fwd_frame)
next
  case (4 code c p s w)
  have "fwd w (rbind (runAfter l p s (Fn_forceClose c) w1) (\<lambda>(_, w). Inr w))" if "forward w w1" for l w1
    using that runAfter_conns by (fastforce simp: forward_def intro!: fwd_bind)
  then show ?thesis using 4
    by (auto simp: forceCloseWithDelay_def forward_refl deref_Inr_iff
        intro!: fwd_bind [where r = "deref _ _"] fwd_then fwd_set_state)
next
  case (7 code c w)
  then show ?thesis using assms
    by (auto simp: forceCloseInLoop_def forward_refl handleClose_fwd intro!: fwd_bind fwd_in_loop)
qed (use assms handleWrite_fwd handleClose_fwd [OF _ forward_refl [OF refl]] connEstablished_fwd
    connDestroyed_fwd handleRead_fwd in auto)


text \<open>
  C20. The state of a connection only moves forward, from connecting over connected and
  disconnecting to disconnected: no sequence of calls, handlers included, on any connections and in
  any order takes a connection back, and none removes one, when the application's callbacks
  themselves do not. So a disconnected connection stays disconnected.
\<close>

theorem conn_state_forward:
  assumes "callbacks_forward code" and "rfold (conn_call code) calls w = Inr w'"
    and "conns w c = Some x"
  shows "\<exists>x'. conns w' c = Some x' \<and> state_rank (state x) \<le> state_rank (state x') \<and>
    (state x = kDisconnected \<longrightarrow> state x' = kDisconnected)"
proof -
  have "forward w w'"
    by (rule rfold_invariant [OF _ forward_refl [OF refl] assms(2)])
      (use conn_call_fwd [OF assms(1)] forward_trans in \<open>unfold fwd_def, blast\<close>)
  then obtain x' where x': "conns w' c = Some x'" "state_rank (state x) \<le> state_rank (state x')"
    using assms(3) by (auto simp: forward_def)
  then show ?thesis by (cases "state x'") auto
qed

theorem conn_state_forward_witness:
  "\<exists>w' x'. rfold (conn_call quiet_code) [(7, Call_shutdown), (7, Call_shutdown)]
      (demo_world 7 kConnected demo_waiting) = Inr w' \<and> conns w' 7 = Some x' \<and>
    1 \<le> state_rank (state x')"
proof -
  have quiet: "callbacks_forward quiet_code"
    by (auto simp: callbacks_forward_def quiet_code_def forward_refl)
  note at = demo_at [of kConnected demo_waiting 7]
  obtain w1 where w1: "shutdown 7 (demo_world 7 kConnected demo_waiting) = Inr w1"
      "conn_at 0 7 5 ((demo_conn kConnected demo_waiting)\<lparr>state := kDisconnecting\<rparr>) (demo_channel 7)
        (demo_loop 7) (demo_poller 7) w1"
    using shutdown_at [OF at] by auto
  then have "shutdown 7 w1 = Inr w1" using shutdown_at [OF w1(2)] by auto
  then have "rfold (conn_call quiet_code) [(7, Call_shutdown), (7, Call_shutdown)]
      (demo_world 7 kConnected demo_waiting) = Inr w1" using w1(1) by simp
  from conn_state_forward [OF quiet this conn_atD(2) [OF at]] this show ?thesis by auto
qed

end
