(* ===== verification/Sockets.thy ===== *)
theory Sockets
  imports Tcp_Lifecycle Texts
begin

text \<open>
  The socket calls of Socket.h and Socket.cpp, in a world that adds the answers of the system calls,
  each a stream fixed by the environment.
\<close>

section \<open>The world of sockets\<close>

text \<open>
  The calls that create a descriptor answer with it or with \<open>-1\<close>; a call answer is an errno, 0 for success; \<open>new_ptrs\<close> are
  the addresses that \<open>new\<close> returns; \<open>sock_opts\<close> are the calls of setsockopt(2).
\<close>

datatype sock_opt = TCP_NODELAY | SO_REUSEADDR | SO_REUSEPORT | SO_KEEPALIVE

record net_world = conn_world +
  fd_answers :: "nat \<Rightarrow> int"
  call_answers :: "nat \<Rightarrow> int"
  accept_answers :: "nat \<Rightarrow> int + int \<times> sockaddr_in"
  local_addr :: "int \<Rightarrow> sockaddr_in option"
  peer_addr :: "int \<Rightarrow> sockaddr_in option"
  socket_errors :: "nat \<Rightarrow> int"
  listening_fds :: "int set"
  sock_opts :: "(int \<times> sock_opt \<times> bool) list"
  new_ptrs :: "nat \<Rightarrow> nat"

definition alloc :: "'a net_world_scheme \<Rightarrow> nat \<times> 'a net_world_scheme" where
  "alloc w = (new_ptrs w 0, w\<lparr>new_ptrs := \<lambda>i. new_ptrs w (Suc i)\<rparr>)"

definition Socket_createNonblocking :: "'a net_world_scheme \<Rightarrow> int \<times> 'a net_world_scheme" where
  "Socket_createNonblocking w = (fd_answers w 0, w\<lparr>fd_answers := \<lambda>i. fd_answers w (Suc i)\<rparr>)"

text \<open>\<open>open("/dev/null")\<close>\<close>

definition sys_open :: "'a net_world_scheme \<Rightarrow> int \<times> 'a net_world_scheme" where
  "sys_open w = (fd_answers w 0, w\<lparr>fd_answers := \<lambda>i. fd_answers w (Suc i)\<rparr>)"

definition sys_call :: "'a net_world_scheme \<Rightarrow> int \<times> 'a net_world_scheme" where
  "sys_call w = (call_answers w 0, w\<lparr>call_answers := \<lambda>i. call_answers w (Suc i)\<rparr>)"

definition bindAddress ::
    "int \<Rightarrow> sockaddr_in \<Rightarrow> 'a net_world_scheme \<Rightarrow> 'a net_world_scheme result" where
  "bindAddress fd a w = (case sys_call w of (r, w) \<Rightarrow> if r \<noteq> 0 then Inl FatalExit else Inr w)"

definition Socket_listen :: "int \<Rightarrow> 'a net_world_scheme \<Rightarrow> 'a net_world_scheme result" where
  "Socket_listen fd w =
     (case sys_call w of (r, w) \<Rightarrow>
      if r \<noteq> 0 then Inl FatalExit else Inr (w\<lparr>listening_fds := insert fd (listening_fds w)\<rparr>))"

definition Socket_close :: "int \<Rightarrow> 'a conn_world_scheme \<Rightarrow> 'a conn_world_scheme" where
  "Socket_close fd w = w\<lparr>closed_fds := closed_fds w @ [fd]\<rparr>"

definition delete_Socket :: "int \<Rightarrow> 'a conn_world_scheme \<Rightarrow> 'a conn_world_scheme" where
  "delete_Socket sockfd w = Socket_close sockfd w"

text \<open>
  \<open>accept\<close>. A failed \<open>accept4\<close> is logged with \<open>LOG_FATAL\<close> before its errno is looked at; the switch
  behind it would let the errnos of \<open>benign\<close> pass.
\<close>

definition EAGAIN :: int where "EAGAIN = 11"
definition EINTR :: int where "EINTR = 4"
definition EPERM :: int where "EPERM = 1"
definition EPROTO :: int where "EPROTO = 71"
definition ECONNABORTED :: int where "ECONNABORTED = 103"
definition EMFILE :: int where "EMFILE = 24"

definition benign :: "int set" where
  "benign = {EAGAIN, ECONNABORTED, EINTR, EPROTO, EPERM, EMFILE}"

definition LOG_FATAL :: "'a \<Rightarrow> 'a result" where "LOG_FATAL w = Inl FatalExit"

definition sys_accept ::
    "'a net_world_scheme \<Rightarrow> (int + int \<times> sockaddr_in) \<times> 'a net_world_scheme" where
  "sys_accept w = (accept_answers w 0, w\<lparr>accept_answers := \<lambda>i. accept_answers w (Suc i)\<rparr>)"

definition Socket_accept ::
    "'a net_world_scheme \<Rightarrow> ((int + int \<times> sockaddr_in) \<times> 'a net_world_scheme) result" where
  "Socket_accept w =
     (case sys_accept w of
        (Inr conn, w) \<Rightarrow> Inr (Inr conn, w)
      | (Inl savedErrno, w) \<Rightarrow>
          rbind (LOG_FATAL w) (\<lambda>w.
            if savedErrno \<in> benign then Inr (Inl savedErrno, w)
            else rbind (LOG_FATAL w) (\<lambda>w. Inr (Inl savedErrno, w))))"

definition getSocketError :: "'a net_world_scheme \<Rightarrow> int \<times> 'a net_world_scheme" where
  "getSocketError w = (socket_errors w 0, w\<lparr>socket_errors := \<lambda>i. socket_errors w (Suc i)\<rparr>)"

text \<open>When getsockname(2) or getpeername(2) fails, the address stays all zero.\<close>

definition zero_address :: sockaddr_in where
  "zero_address = \<lparr>sin_family = 0, sin_port = 0, sin_addr = 0\<rparr>"

definition Socket_getLocalAddr :: "int \<Rightarrow> 'a net_world_scheme \<Rightarrow> sockaddr_in" where
  "Socket_getLocalAddr fd w = (case local_addr w fd of None \<Rightarrow> zero_address | Some a \<Rightarrow> a)"

definition Socket_getPeerAddr :: "int \<Rightarrow> 'a net_world_scheme \<Rightarrow> sockaddr_in" where
  "Socket_getPeerAddr fd w = (case peer_addr w fd of None \<Rightarrow> zero_address | Some a \<Rightarrow> a)"

definition isSelfConnection :: "int \<Rightarrow> 'a net_world_scheme \<Rightarrow> bool" where
  "isSelfConnection fd w \<longleftrightarrow>
     (let localAddr = Socket_getLocalAddr fd w; peerAddr = Socket_getPeerAddr fd w in
      sin_addr localAddr = sin_addr peerAddr \<and> sin_port localAddr = sin_port peerAddr)"

text \<open>On a socket that is not connected both calls answer the same zero bytes, when both fail.\<close>

lemma unconnected_is_self:
  "local_addr w fd = None \<Longrightarrow> peer_addr w fd = None \<Longrightarrow> isSelfConnection fd w"
  by (simp add: isSelfConnection_def Socket_getLocalAddr_def Socket_getPeerAddr_def)


section \<open>Options\<close>

definition setsockopt ::
    "int \<Rightarrow> sock_opt \<Rightarrow> bool \<Rightarrow> 'a net_world_scheme \<Rightarrow> 'a net_world_scheme" where
  "setsockopt fd opt on w = w\<lparr>sock_opts := sock_opts w @ [(fd, opt, on)]\<rparr>"

definition Socket_setTcpNoDelay :: "int \<Rightarrow> bool \<Rightarrow> 'a net_world_scheme \<Rightarrow> 'a net_world_scheme" where
  "Socket_setTcpNoDelay fd = setsockopt fd TCP_NODELAY"

definition setReuseAddr :: "int \<Rightarrow> bool \<Rightarrow> 'a net_world_scheme \<Rightarrow> 'a net_world_scheme" where
  "setReuseAddr fd = setsockopt fd SO_REUSEADDR"

definition setReusePort :: "int \<Rightarrow> bool \<Rightarrow> 'a net_world_scheme \<Rightarrow> 'a net_world_scheme" where
  "setReusePort fd = setsockopt fd SO_REUSEPORT"

definition Socket_setKeepAlive :: "int \<Rightarrow> bool \<Rightarrow> 'a net_world_scheme \<Rightarrow> 'a net_world_scheme" where
  "Socket_setKeepAlive fd = setsockopt fd SO_KEEPALIVE"

text \<open>The connection's members pass on to its socket, whose descriptor is its channel's.\<close>

definition setTcpNoDelay ::
    "bool \<Rightarrow> conn_ptr \<Rightarrow> 'a net_world_scheme \<Rightarrow> 'a net_world_scheme result" where
  "setTcpNoDelay on c w = with_conn c w (\<lambda>x ch. Inr (Socket_setTcpNoDelay (ch_fd ch) on w))"

definition setKeepAlive ::
    "bool \<Rightarrow> conn_ptr \<Rightarrow> 'a net_world_scheme \<Rightarrow> 'a net_world_scheme result" where
  "setKeepAlive on c w = with_conn c w (\<lambda>x ch. Inr (Socket_setKeepAlive (ch_fd ch) on w))"

end
