(* ===== verification/Threads.thy ===== *)
theory Threads
  imports Muduo_Prelude
begin

text \<open>
  The cache of the thread's id (CurrentThread.h, CurrentThread.cpp), and the class \<open>Thread\<close>
  (Thread.h, Thread.cpp): a \<open>std::thread\<close> that is created by \<open>start\<close>, with two
  flags that say what was done to it. Of the \<open>std::thread\<close> the model keeps whether it is joinable.
\<close>

section \<open>The id of the current thread\<close>

text \<open>The thread's \<open>t_cachedTid\<close> is 0 until the first use; \<open>gettid\<close> is the answer of the system call.\<close>

definition cacheTid :: "int \<Rightarrow> int \<Rightarrow> int" where
  "cacheTid gettid t_cachedTid = (if t_cachedTid = 0 then gettid else t_cachedTid)"

definition tid :: "int \<Rightarrow> int \<Rightarrow> int \<times> int" where
  "tid gettid t_cachedTid =
     (let c = (if t_cachedTid = 0 then cacheTid gettid t_cachedTid else t_cachedTid) in (c, c))"

lemma tid_cached: "c = 0 \<or> c = gettid \<Longrightarrow> tid gettid c = (gettid, gettid)"
  by (auto simp: tid_def cacheTid_def)

section \<open>Threads\<close>

record thread =
  thd_started :: bool
  thd_joined :: bool
  joinable :: bool

definition new_Thread :: thread where
  "new_Thread = \<lparr>thd_started = False, thd_joined = False, joinable = False\<rparr>"

text \<open>Assigning to a joinable \<open>std::thread\<close>, and destroying one, ends the program.\<close>

definition Thread_start :: "thread \<Rightarrow> thread result" where
  "Thread_start t =
     (let t = t\<lparr>thd_started := True\<rparr> in
      if joinable t then Inl Terminated else Inr (t\<lparr>joinable := True\<rparr>))"

definition Thread_join :: "thread \<Rightarrow> thread result" where
  "Thread_join t =
     (let t = t\<lparr>thd_joined := True\<rparr> in
      if joinable t then Inr (t\<lparr>joinable := False\<rparr>) else Inl SystemError)"

text \<open>The destructor is \<open>noexcept\<close>: the exception of \<open>detach\<close> does not leave it.\<close>

definition delete_Thread :: "thread \<Rightarrow> thread result" where
  "delete_Thread t =
     rbind (if thd_started t \<and> \<not> thd_joined t
            then if joinable t then Inr (t\<lparr>joinable := False\<rparr>) else Inl Terminated
            else Inr t) (\<lambda>t.
     if joinable t then Inl Terminated else Inr t)"

section \<open>The flags tell the truth\<close>

definition thread_ok :: "thread \<Rightarrow> bool" where
  "thread_ok t \<longleftrightarrow> (joinable t \<longleftrightarrow> thd_started t \<and> \<not> thd_joined t)"

lemma thread_ok_new [simp]: "thread_ok new_Thread"
  by (simp add: thread_ok_def new_Thread_def)

lemma thread_ok_start:
  "thread_ok t \<Longrightarrow> \<not> thd_started t \<Longrightarrow> \<not> thd_joined t \<Longrightarrow>
    Thread_start t = Inr (t\<lparr>thd_started := True, joinable := True\<rparr>) \<and>
    thread_ok (t\<lparr>thd_started := True, joinable := True\<rparr>)"
  by (simp add: thread_ok_def Thread_start_def)

lemma thread_ok_join:
  "thread_ok t \<Longrightarrow> thd_started t \<Longrightarrow> \<not> thd_joined t \<Longrightarrow>
    Thread_join t = Inr (t\<lparr>thd_joined := True, joinable := False\<rparr>) \<and>
    thread_ok (t\<lparr>thd_joined := True, joinable := False\<rparr>)"
  by (simp add: thread_ok_def Thread_join_def)

lemma thread_ok_delete: "thread_ok t \<Longrightarrow> delete_Thread t = Inr (t\<lparr>joinable := False\<rparr>)"
  by (cases t) (auto simp: thread_ok_def delete_Thread_def)

text \<open>A second \<open>start\<close> is never harmless: it ends the program at once, or in the destructor.\<close>

lemma started_twice:
  assumes "thread_ok t" and "thd_started t"
  shows "rbind (Thread_start t) delete_Thread = Inl Terminated"
  using assms by (auto simp: thread_ok_def Thread_start_def delete_Thread_def)

end
