(* ===== verification/Thread_Pool.thy ===== *)
theory Thread_Pool
  imports Event_Loop Threads "HOL-Library.Multiset"
begin

text \<open>
  The threads that run loops: \<open>EventLoopThread\<close>, which has a \<open>Thread\<close>, and \<open>EventLoopThreadPool\<close>, which
  hands out its loops in turn.
\<close>

section \<open>Threads\<close>

record event_loop_thread =
  thr_loop :: "loop_ptr option"
  exiting :: bool
  thr_thread :: thread

definition new_EventLoopThread :: event_loop_thread where
  "new_EventLoopThread = \<lparr>thr_loop = None, exiting = False, thr_thread = new_Thread\<rparr>"

text \<open>What the system gives to a new thread: its id, and the addresses and descriptors of its loop.\<close>

record spawned =
  sp_thread :: thread_id
  sp_loop :: loop_ptr
  sp_timerChannel :: channel_ptr
  sp_timerfd :: int
  sp_wakeupChannel :: channel_ptr
  sp_wakeupFd :: int

text \<open>
  \<open>threadFunc\<close> up to the notification, in the new thread; then \<open>startLoop\<close>, which waits for that.
  What follows in the new thread is \<open>loop\<close>.
\<close>

definition threadFunc ::
    "bool \<Rightarrow> spawned \<Rightarrow> event_loop_thread \<Rightarrow> 'a loops_world_scheme \<Rightarrow>
     (event_loop_thread \<times> 'a loops_world_scheme) result" where
  "threadFunc use_poll sp t w =
     rbind (new_EventLoop use_poll (sp_loop sp) (sp_timerChannel sp) (sp_timerfd sp)
              (sp_wakeupChannel sp) (sp_wakeupFd sp) (w\<lparr>this_thread := sp_thread sp\<rparr>)) (\<lambda>w'.
     Inr (t\<lparr>thr_loop := Some (sp_loop sp)\<rparr>, w'\<lparr>this_thread := this_thread w\<rparr>))"

definition startLoop ::
    "bool \<Rightarrow> spawned \<Rightarrow> event_loop_thread \<Rightarrow> 'a loops_world_scheme \<Rightarrow>
     (loop_ptr \<times> event_loop_thread \<times> 'a loops_world_scheme) result" where
  "startLoop use_poll sp t w =
     cpp_assert (\<not> thd_started (thr_thread t))
       (rbind (Thread_start (thr_thread t)) (\<lambda>th.
        rbind (threadFunc use_poll sp (t\<lparr>thr_thread := th\<rparr>) w) (\<lambda>(t, w).
        rbind (deref thr_loop t) (\<lambda>l. Inr (l, t, w)))))"

text \<open>
  The end of \<open>threadFunc\<close>: when \<open>loop\<close> has returned, the \<open>EventLoop\<close> goes out of scope. The member
  \<open>loop_\<close> keeps its address.
\<close>

definition threadFunc_end ::
    "spawned \<Rightarrow> 'a loops_world_scheme \<Rightarrow> 'a loops_world_scheme result" where
  "threadFunc_end sp w =
     rbind (delete_EventLoop (sp_loop sp) (w\<lparr>this_thread := sp_thread sp\<rparr>)) (\<lambda>w'.
     Inr (w'\<lparr>this_thread := this_thread w\<rparr>))"

text \<open>The destructor, whose \<open>join\<close> waits for the thread's end, and that of the member \<open>thread_\<close>.\<close>

definition delete_EventLoopThread ::
    "event_loop_thread \<Rightarrow> 'a loops_world_scheme \<Rightarrow> (event_loop_thread \<times> 'a loops_world_scheme) result" where
  "delete_EventLoopThread t w =
     (case thr_loop t of
        None \<Rightarrow> rbind (delete_Thread (thr_thread t)) (\<lambda>th.
          Inr (t\<lparr>exiting := True, thr_thread := th\<rparr>, w))
      | Some l \<Rightarrow> rbind (quit l w) (\<lambda>w.
          rbind (Thread_join (thr_thread t)) (\<lambda>th.
          rbind (delete_Thread th) (\<lambda>th. Inr (t\<lparr>exiting := True, thr_thread := th\<rparr>, w)))))"

definition thread_running :: "event_loop_thread \<Rightarrow> bool" where
  "thread_running t \<longleftrightarrow> thread_ok (thr_thread t) \<and> \<not> thd_joined (thr_thread t) \<and>
     (thr_loop t = None \<longleftrightarrow> \<not> thd_started (thr_thread t))"

lemma startLoop_running:
  assumes "startLoop use_poll sp new_EventLoopThread w = Inr (l, t, w')"
  shows "l = sp_loop sp \<and> thr_loop t = Some l \<and> thread_running t"
  using assms by (auto simp: startLoop_def threadFunc_def new_EventLoopThread_def new_Thread_def
      Thread_start_def thread_running_def thread_ok_def rbind_Inr_iff)

text \<open>While its loop lives, a thread is stopped and joined; a loop that has ended before is used after it was freed.\<close>

lemma delete_EventLoopThread_running:
  assumes "thread_running t"
  shows "delete_EventLoopThread t w = (case thr_loop t of
      None \<Rightarrow> Inr (t\<lparr>exiting := True\<rparr>, w)
    | Some l \<Rightarrow> rbind (quit l w) (\<lambda>w. Inr (t\<lparr>exiting := True,
        thr_thread := (thr_thread t)\<lparr>thd_joined := True, joinable := False\<rparr>\<rparr>, w)))"
  using assms by (cases "thr_thread t")
    (auto simp: delete_EventLoopThread_def thread_running_def thread_ok_def delete_Thread_def
      Thread_join_def split: option.split)

lemma ended_loop_dangles:
  assumes "thr_loop t = Some (sp_loop sp)" and "threadFunc_end sp w = Inr w'"
  shows "delete_EventLoopThread t w' = Inl DanglingPointer"
  using assms by (auto simp: delete_EventLoopThread_def threadFunc_end_def delete_EventLoop_def quit_def
      on_loop_def isInLoopThread_def rbind_Inr_iff cpp_assert_Inr_iff)

section \<open>The pool\<close>

record thread_pool =
  baseLoop :: loop_ptr
  pool_started :: bool
  numThreads :: int
  next_index :: int
  pool_loops :: "loop_ptr list"
  pool_threads :: "event_loop_thread list"

definition new_EventLoopThreadPool :: "loop_ptr \<Rightarrow> thread_pool" where
  "new_EventLoopThreadPool l = \<lparr>baseLoop = l, pool_started = False, numThreads = 0, next_index = 0,
     pool_loops = [], pool_threads = []\<rparr>"

definition setThreadNum :: "int \<Rightarrow> thread_pool \<Rightarrow> thread_pool" where
  "setThreadNum n p = p\<lparr>numThreads := n\<rparr>"

fun start_threads ::
    "bool \<Rightarrow> spawned list \<Rightarrow> thread_pool \<Rightarrow> 'a loops_world_scheme \<Rightarrow>
     (thread_pool \<times> 'a loops_world_scheme) result" where
  "start_threads use_poll [] p w = Inr (p, w)"
| "start_threads use_poll (sp # sps) p w =
     rbind (startLoop use_poll sp new_EventLoopThread w) (\<lambda>(l, t, w).
       start_threads use_poll sps
         (p\<lparr>pool_loops := pool_loops p @ [l], pool_threads := pool_threads p @ [t]\<rparr>) w)"

definition pool_start ::
    "bool \<Rightarrow> (nat \<Rightarrow> spawned) \<Rightarrow> thread_pool \<Rightarrow> 'a loops_world_scheme \<Rightarrow>
     (thread_pool \<times> 'a loops_world_scheme) result" where
  "pool_start use_poll spawn p w =
     cpp_assert (\<not> pool_started p)
       (assertInLoopThread (baseLoop p) w
         (start_threads use_poll (map spawn [0..<nat (numThreads p)]) (p\<lparr>pool_started := True\<rparr>) w))"

definition getNextLoop ::
    "'a loops_world_scheme \<Rightarrow> thread_pool \<Rightarrow> (loop_ptr \<times> thread_pool) result" where
  "getNextLoop w p =
     assertInLoopThread (baseLoop p) w
       (if pool_loops p \<noteq> [] then
          (if 0 \<le> next_index p \<and> next_index p < int (length (pool_loops p)) then
             (let l = pool_loops p ! nat (next_index p); next = next_index p + 1 in
              Inr (l, p\<lparr>next_index := if next \<ge> int (length (pool_loops p)) then 0 else next\<rparr>))
           else Inl OutOfBounds)
        else Inr (baseLoop p, p))"

fun next_loops ::
    "'a loops_world_scheme \<Rightarrow> nat \<Rightarrow> thread_pool \<Rightarrow> (loop_ptr list \<times> thread_pool) result" where
  "next_loops w 0 p = Inr ([], p)"
| "next_loops w (Suc k) p =
     rbind (getNextLoop w p) (\<lambda>(l, p). rbind (next_loops w k p) (\<lambda>(ls, p). Inr (l # ls, p)))"

section \<open>Every loop in turn\<close>

definition pool_ok :: "thread_pool \<Rightarrow> bool" where
  "pool_ok p \<longleftrightarrow> 0 \<le> next_index p \<and> (pool_loops p \<noteq> [] \<longrightarrow> next_index p < int (length (pool_loops p)))"

lemma getNextLoop_ok:
  assumes ok: "pool_ok p" and base: "loops w (baseLoop p) = Some e" "threadId e = this_thread w"
    and ne: "pool_loops p \<noteq> []"
  shows "getNextLoop w p = Inr (pool_loops p ! nat (next_index p),
      p\<lparr>next_index := (next_index p + 1) mod int (length (pool_loops p))\<rparr>)"
proof -
  have "(if next_index p + 1 \<ge> int (length (pool_loops p)) then 0 else next_index p + 1) =
      (next_index p + 1) mod int (length (pool_loops p))"
  proof (cases "next_index p + 1 = int (length (pool_loops p))")
    case False
    then have "next_index p + 1 < int (length (pool_loops p))" using ok ne by (auto simp: pool_ok_def)
    then show ?thesis using ok by (simp add: pool_ok_def)
  qed simp
  then show ?thesis
    using ok ne base by (simp add: getNextLoop_def assertInLoopThread_def isInLoopThread_def
        pool_ok_def Let_def)
qed

lemma next_loops_eq:
  assumes "pool_ok p" and "loops w (baseLoop p) = Some e" "threadId e = this_thread w"
    and "pool_loops p \<noteq> []"
  shows "next_loops w k p =
    Inr (map (\<lambda>i. pool_loops p ! (nat (next_index p + int i) mod length (pool_loops p))) [0..<k],
      p\<lparr>next_index := (next_index p + int k) mod int (length (pool_loops p))\<rparr>)"
  using assms
proof (induction k arbitrary: p)
  case 0
  then show ?case by (simp add: pool_ok_def)
next
  case (Suc k)
  let ?n = "length (pool_loops p)"
  obtain a where a: "next_index p = int a"
    using Suc.prems(1) by (auto simp: pool_ok_def elim: nonneg_int_cases)
  define p1 where "p1 = p\<lparr>next_index := (next_index p + 1) mod int ?n\<rparr>"
  have p1: "pool_ok p1" "baseLoop p1 = baseLoop p" "pool_loops p1 = pool_loops p"
      "next_index p1 = int (Suc a mod ?n)"
    using Suc.prems(4) by (simp_all add: p1_def pool_ok_def a zmod_int add.commute)
  have idx: "nat (next_index p1 + int i) mod ?n = nat (next_index p + int (Suc i)) mod ?n" for i
  proof -
    have "nat (int a + int (Suc i)) = Suc a + i" "nat (int (Suc a mod ?n) + int i) = Suc a mod ?n + i"
      by simp_all
    then show ?thesis using mod_add_left_eq [of "Suc a" ?n i] by (simp only: p1(4) a)
  qed
  have last: "(next_index p1 + int k) mod int ?n = (next_index p + int (Suc k)) mod int ?n"
  proof -
    have "next_index p1 = (next_index p + 1) mod int ?n" by (simp add: p1_def)
    moreover have "next_index p + int (Suc k) = next_index p + 1 + int k" by simp
    ultimately show ?thesis using mod_add_left_eq [of "next_index p + 1" "int ?n" "int k"] by (simp only:)
  qed
  have head: "pool_loops p ! nat (next_index p) = pool_loops p ! (nat (next_index p + int 0) mod ?n)"
    using Suc.prems(1,4) by (simp add: pool_ok_def nat_less_iff)
  have "next_loops w k p1 = Inr (map (\<lambda>i. pool_loops p ! (nat (next_index p + int (Suc i)) mod ?n)) [0..<k],
      p\<lparr>next_index := (next_index p + int (Suc k)) mod int ?n\<rparr>)"
    using Suc.IH [OF p1(1), unfolded p1(2,3) last idx, OF Suc.prems(2-4)] by (simp add: p1_def)
  moreover have "getNextLoop w p = Inr (pool_loops p ! nat (next_index p), p1)"
    using getNextLoop_ok [OF Suc.prems] by (simp add: p1_def)
  ultimately show ?case
    unfolding head by (simp add: upt_conv_Cons map_Suc_upt [symmetric] del: upt_Suc)
qed


lemma one_round:
  assumes "pool_ok p" and "loops w (baseLoop p) = Some e" "threadId e = this_thread w"
    and "pool_loops p \<noteq> []"
  shows "next_loops w (length (pool_loops p)) p = Inr (rotate (nat (next_index p)) (pool_loops p), p)"
proof -
  let ?xs = "pool_loops p"
  have a: "0 \<le> next_index p" "next_index p < int (length ?xs)" using assms(1,4) by (simp_all add: pool_ok_def)
  have "map (\<lambda>i. ?xs ! (nat (next_index p + int i) mod length ?xs)) [0..<length ?xs] =
      rotate (nat (next_index p)) ?xs"
    by (rule nth_equalityI) (use a(1) in \<open>simp_all add: nth_rotate nat_add_distrib\<close>)
  moreover have "(next_index p + int (length ?xs)) mod int (length ?xs) = next_index p" using a by simp
  ultimately show ?thesis using next_loops_eq [OF assms, of "length ?xs"] by simp
qed

lemma next_loops_add:
  "next_loops w (j + k) p =
    rbind (next_loops w j p) (\<lambda>(ls, p). rbind (next_loops w k p) (\<lambda>(ms, p). Inr (ls @ ms, p)))"
proof (induction j arbitrary: p)
  case 0
  show ?case by (cases "next_loops w k p") auto
next
  case (Suc j)
  then show ?case by (cases "getNextLoop w p") (auto simp: rbind_assoc split_def)
qed

lemma mset_rotate: "mset (rotate n xs) = mset xs"
  unfolding rotate_drop_take mset_append
  by (metis append_take_drop_id mset_append add.commute)

text \<open>
  C31. Fair distribution. In the base loop's thread, the pool hands out its loops in turn: any number
  of full rounds gives the same order in each of them, the list of loops from the next index on, and
  leaves the pool as it was, so that every loop is chosen exactly once per round.
\<close>

theorem round_robin:
  assumes "pool_ok p" and "loops w (baseLoop p) = Some e" "threadId e = this_thread w"
    and "pool_loops p \<noteq> []"
  shows "\<exists>ls. next_loops w (k * length (pool_loops p)) p = Inr (ls, p) \<and>
    ls = concat (replicate k (rotate (nat (next_index p)) (pool_loops p))) \<and>
    (\<forall>l. count (mset ls) l = k * count (mset (pool_loops p)) l)"
proof -
  let ?ls = "concat (replicate k (rotate (nat (next_index p)) (pool_loops p)))"
  have "next_loops w (k * length (pool_loops p)) p = Inr (?ls, p)"
    by (induction k) (simp_all add: next_loops_add one_round [OF assms])
  moreover have "count (mset ?ls) l = k * count (mset (pool_loops p)) l" for l
    by (induction k) (simp_all add: mset_rotate)
  ultimately show ?thesis by blast
qed

text \<open>A pool of two threads that the thread of \<open>small_loop\<close> has started.\<close>

definition two_loops :: thread_pool where
  "two_loops = (new_EventLoopThreadPool 0)\<lparr>pool_started := True, numThreads := 2, next_index := 1,
     pool_loops := [4, 9]\<rparr>"

theorem round_robin_witness:
  "next_loops small_world (3 * 2) two_loops = Inr ([9, 4, 9, 4, 9, 4], two_loops)"
proof -
  have "pool_ok two_loops" "loops small_world (baseLoop two_loops) = Some small_loop"
    "threadId small_loop = this_thread small_world" "pool_loops two_loops \<noteq> []"
    by (simp_all add: pool_ok_def two_loops_def new_EventLoopThreadPool_def small_world_def
        small_loop_def empty_world_def)
  from round_robin [OF this, of 3] show ?thesis
    by (simp add: two_loops_def new_EventLoopThreadPool_def numeral_eq_Suc)
qed

end
