(* ===== verification/Tcp_Server.thy ===== *)
theory Tcp_Server
  imports Sockets Thread_Pool
begin

text \<open>
  The server side: \<open>Acceptor\<close> (Acceptor.h, Acceptor.cpp) and \<open>TcpServer\<close> (TcpServer.h,
  TcpServer.cpp), which hands each accepted descriptor to a loop of its pool and keeps the
  connections by name.
\<close>

section \<open>State\<close>

record acceptor =
  acc_loop :: loop_ptr
  acc_fd :: int
  acc_channel :: channel_ptr
  listenning :: bool
  acc_cb :: bool
  idleFd :: int

record tcp_server =
  srv_loop :: loop_ptr
  srv_name :: string
  started :: bool
  srv_acceptor :: acceptor
  threadPool :: thread_pool
  nextConnId :: "32 word"
  connections :: "string \<rightharpoonup> conn_ptr"
  srv_connCb :: bool
  srv_messaCb :: bool
  srv_wriComCb :: bool

record server_world = net_world +
  server :: tcp_server

definition modify_acceptor ::
    "(acceptor \<Rightarrow> acceptor) \<Rightarrow> 'a server_world_scheme \<Rightarrow> 'a server_world_scheme" where
  "modify_acceptor f w = w\<lparr>server := (server w)\<lparr>srv_acceptor := f (srv_acceptor (server w))\<rparr>\<rparr>"

definition Acceptor_setNewConnectionCallback :: "bool \<Rightarrow> acceptor \<Rightarrow> acceptor" where
  "Acceptor_setNewConnectionCallback b a = a\<lparr>acc_cb := b\<rparr>"

text \<open>
  The constructors; the body of the server's gives the acceptor its callback.
\<close>

definition new_Acceptor ::
    "loop_ptr \<Rightarrow> sockaddr_in \<Rightarrow> 'a net_world_scheme \<Rightarrow> (acceptor \<times> 'a net_world_scheme) result" where
  "new_Acceptor l listenAddr w =
     (case Socket_createNonblocking w of (fd, w) \<Rightarrow>
      case alloc w of (chan, w) \<Rightarrow>
      case sys_open w of (idle, w) \<Rightarrow>
      rbind (bindAddress fd listenAddr
          (setReuseAddr fd True (w\<lparr>channels := (channels w)(chan \<mapsto> new_Channel l fd)\<rparr>))) (\<lambda>w.
      rbind (modify_channel chan (Channel_setReadCallback Cb_Acceptor_handleRead) w) (\<lambda>w.
      Inr (\<lparr>acc_loop = l, acc_fd = fd, acc_channel = chan, listenning = False, acc_cb = False,
            idleFd = idle\<rparr>, w))))"

definition new_TcpServer ::
    "loop_ptr \<Rightarrow> sockaddr_in \<Rightarrow> 'a net_world_scheme \<Rightarrow> (tcp_server \<times> 'a net_world_scheme) result" where
  "new_TcpServer l listenAddr w =
     rbind (new_Acceptor l listenAddr w) (\<lambda>(a, w).
     Inr (\<lparr>srv_loop = l, srv_name = toIpPort listenAddr, started = False,
           srv_acceptor = Acceptor_setNewConnectionCallback True a, threadPool = new_EventLoopThreadPool l, nextConnId = 1,
           connections = Map.empty, srv_connCb = False, srv_messaCb = False, srv_wriComCb = False\<rparr>, w))"

text \<open>The setters of \<open>TcpServer\<close>; the callback itself is in \<open>server_code\<close>.\<close>

definition TcpServer_setConnectionCallback :: "bool \<Rightarrow> tcp_server \<Rightarrow> tcp_server" where
  "TcpServer_setConnectionCallback b s = s\<lparr>srv_connCb := b\<rparr>"

definition TcpServer_setMessageCallback :: "bool \<Rightarrow> tcp_server \<Rightarrow> tcp_server" where
  "TcpServer_setMessageCallback b s = s\<lparr>srv_messaCb := b\<rparr>"

definition TcpServer_setWriteCompleteCallback :: "bool \<Rightarrow> tcp_server \<Rightarrow> tcp_server" where
  "TcpServer_setWriteCompleteCallback b s = s\<lparr>srv_wriComCb := b\<rparr>"

definition TcpServer_setThreadNum :: "int \<Rightarrow> tcp_server \<Rightarrow> tcp_server" where
  "TcpServer_setThreadNum n s = s\<lparr>threadPool := setThreadNum n (threadPool s)\<rparr>"

section \<open>Closing\<close>

definition removeConnectionInLoop ::
    "conn_ptr \<Rightarrow> 'a server_world_scheme \<Rightarrow> 'a server_world_scheme result" where
  "removeConnectionInLoop c w =
     assertInLoopThread (srv_loop (server w)) w
       (rbind (deref (conns w) c) (\<lambda>x.
         (let s = server w; n = (if conn_name x \<in> dom (connections s) then 1 else 0 :: int);
              w = w\<lparr>server := s\<lparr>connections := (connections s)(conn_name x := None)\<rparr>\<rparr> in
          cpp_assert (n = 1) (queueInLoop (conn_loop x) (Fn_connDestroyed c) w))))"

definition TcpServer_removeConnection ::
    "conn_ptr \<Rightarrow> 'a server_world_scheme \<Rightarrow> 'a server_world_scheme result" where
  "TcpServer_removeConnection c w =
     runInLoop (srv_loop (server w)) (Fn_removeConnectionInLoop c) (removeConnectionInLoop c) w"

text \<open>The callbacks of a server's connection: the application's, and the close callback.\<close>

definition server_code ::
    "'a server_world_scheme conn_code \<Rightarrow> 'a server_world_scheme conn_code" where
  "server_code user = user\<lparr>close_cb := \<lambda>k. if k = Cl_TcpServer_removeConnection
     then TcpServer_removeConnection else close_cb user k\<rparr>"

section \<open>Accepting\<close>

definition newConnection ::
    "'a server_world_scheme conn_code \<Rightarrow> int \<Rightarrow> sockaddr_in \<Rightarrow> 'a server_world_scheme \<Rightarrow>
     'a server_world_scheme result" where
  "newConnection user sockfd peerAddr w =
     assertInLoopThread (srv_loop (server w)) w
       (let s = server w; name = srv_name s @ ''#'' @ decimal_int (sint (nextConnId s)) in
        rbind (getNextLoop w (threadPool s)) (\<lambda>(ioLoop, pool).
        case alloc (w\<lparr>server := s\<lparr>nextConnId := nextConnId s + 1, threadPool := pool\<rparr>\<rparr>) of (c, w) \<Rightarrow>
        case alloc w of (chan, w) \<Rightarrow>
        (let w = new_TcpConnection ioLoop name c chan sockfd (Socket_getLocalAddr sockfd w) peerAddr w;
             w = w\<lparr>server := (server w)\<lparr>connections := (connections (server w))(name \<mapsto> c)\<rparr>\<rparr> in
         rbind (setConnectionCallback (srv_connCb s) c w) (\<lambda>w.
         rbind (setMessageCallback (srv_messaCb s) c w) (\<lambda>w.
         rbind (setWriteCompleteCallback (srv_wriComCb s) c w) (\<lambda>w.
         rbind (setCloseCallback (Some Cl_TcpServer_removeConnection) c w) (\<lambda>w.
         runInLoop ioLoop (Fn_connEstablished c) (connEstablished (server_code user) c) w)))))))"

definition Acceptor_listen :: "'a server_world_scheme \<Rightarrow> 'a server_world_scheme result" where
  "Acceptor_listen w =
     (let a = srv_acceptor (server w) in
      assertInLoopThread (acc_loop a) w
        (rbind (Socket_listen (acc_fd a) (modify_acceptor (\<lambda>a. a\<lparr>listenning := True\<rparr>) w))
          (enableReading (acc_channel a))))"

text \<open>The spare descriptor is closed, used to accept once more, and opened again.\<close>

definition use_idle_fd :: "'a server_world_scheme \<Rightarrow> 'a server_world_scheme" where
  "use_idle_fd w =
     (case sys_accept (Socket_close (idleFd (srv_acceptor (server w))) w) of (r, w) \<Rightarrow>
      (let fd = (case r of Inl _ \<Rightarrow> -1 | Inr (fd, _) \<Rightarrow> fd) in
       case sys_open (Socket_close fd w) of (fd, w) \<Rightarrow>
         modify_acceptor (\<lambda>a. a\<lparr>idleFd := fd\<rparr>) w))"

definition Acceptor_handleRead ::
    "'a server_world_scheme conn_code \<Rightarrow> 'a server_world_scheme \<Rightarrow> 'a server_world_scheme result" where
  "Acceptor_handleRead user w =
     (let a = srv_acceptor (server w) in
      assertInLoopThread (acc_loop a) w
        (rbind (Socket_accept w) (\<lambda>(r, w).
          case r of
            Inr (connfd, peer) \<Rightarrow>
              if acc_cb a then newConnection user connfd peer w else Inr (Socket_close (acc_fd a) w)
          | Inl errno \<Rightarrow> if errno = EMFILE then Inr (use_idle_fd w) else Inr w)))"

definition TcpServer_start ::
    "bool \<Rightarrow> (nat \<Rightarrow> spawned) \<Rightarrow> 'a server_world_scheme \<Rightarrow> 'a server_world_scheme result" where
  "TcpServer_start use_poll spawn w =
     rbind (if \<not> started (server w) then
              rbind (pool_start use_poll spawn (threadPool (server w))
                  (w\<lparr>server := (server w)\<lparr>started := True\<rparr>\<rparr>)) (\<lambda>(pool, w).
              Inr (w\<lparr>server := (server w)\<lparr>threadPool := pool\<rparr>\<rparr>))
            else Inr w) (\<lambda>w.
     if \<not> listenning (srv_acceptor (server w))
     then runInLoop (srv_loop (server w)) Fn_listen Acceptor_listen w else Inr w)"

text \<open>The destructor of the acceptor, then of its socket, which closes the descriptor again.\<close>

definition delete_Acceptor :: "acceptor \<Rightarrow> 'a net_world_scheme \<Rightarrow> 'a net_world_scheme" where
  "delete_Acceptor a w = delete_Socket (acc_fd a) (Socket_close (idleFd a) (Socket_close (acc_fd a) w))"

text \<open>
  The server's destructor: its body drops the map's references, in the order \<open>order\<close> of the table,
  which ends the connections that nothing else holds (\<open>sole\<close>); then the members are destroyed.
  \<open>connDestroyed\<close> is called for none of them.
\<close>

definition drop_connection ::
    "(conn_ptr \<Rightarrow> bool) \<Rightarrow> string \<Rightarrow> 'a server_world_scheme \<Rightarrow> 'a server_world_scheme result" where
  "drop_connection sole name w =
     (case connections (server w) name of
        None \<Rightarrow> Inr w
      | Some c \<Rightarrow> if sole c then delete_TcpConnection c w else Inr w)"

definition delete_TcpServer ::
    "string list \<Rightarrow> (conn_ptr \<Rightarrow> bool) \<Rightarrow> 'a server_world_scheme \<Rightarrow> 'a server_world_scheme result" where
  "delete_TcpServer order sole w =
     rbind (rfold (drop_connection sole) order (w\<lparr>server := (server w)\<lparr>started := False\<rparr>\<rparr>)) (\<lambda>w.
     rfold (\<lambda>t w. rbind (delete_EventLoopThread t w) (\<lambda>(_, w). Inr w))
       (pool_threads (threadPool (server w)))
       (delete_Acceptor (srv_acceptor (server w)) (w\<lparr>server := (server w)\<lparr>connections := Map.empty\<rparr>\<rparr>)))"

text \<open>What the queued closures (of the loop \<open>l\<close>) and the channels' callbacks of a server do.\<close>

fun server_functor ::
    "'a server_world_scheme conn_code \<Rightarrow> loop_ptr \<Rightarrow> loop_functor \<Rightarrow> 'a server_world_scheme \<Rightarrow>
     'a server_world_scheme result" where
  "server_functor user l (Fn_removeConnectionInLoop c) w = removeConnectionInLoop c w"
| "server_functor user l Fn_listen w = Acceptor_listen w"
| "server_functor user l (Fn_addTimerInLoop p) w = assertInLoopThread l w (addTimerInLoop_at l p w)"
| "server_functor user l (Fn_cancelInLoop t) w = assertInLoopThread l w (cancelInLoop_at l t w)"
| "server_functor user l f w = conn_functor (server_code user) f w"

fun server_callback ::
    "'a server_world_scheme conn_code \<Rightarrow> channel_callback \<Rightarrow> timestamp \<Rightarrow> 'a server_world_scheme \<Rightarrow>
     'a server_world_scheme result" where
  "server_callback user Cb_Acceptor_handleRead now w = Acceptor_handleRead user w"
| "server_callback user (Cb_EventLoop_handleRead l) now w = on_loop l EventLoop_handleRead w"
| "server_callback user (Cb_TimerQueue_handleRead l) now w =
     TimerQueue_handleRead (server_functor user l) l w"
| "server_callback user cb now w = conn_callback (server_code user) cb now w"

section \<open>A small server\<close>

text \<open>
  A server whose acceptor is on descriptor 4 and which has one connection, on descriptor 5, in the
  loop of thread 1; the poller has reported the given events for it, every read finds the end of
  file and every \<open>accept4\<close> fails for want of descriptors.
\<close>

definition demo_server :: tcp_server where
  "demo_server = \<lparr>srv_loop = 0, srv_name = ''0.0.0.0:80'', started = True,
     srv_acceptor = \<lparr>acc_loop = 0, acc_fd = 4, acc_channel = 21, listenning = True, acc_cb = True,
       idleFd = 3\<rparr>,
     threadPool = new_EventLoopThreadPool 0, nextConnId = 2, connections = [''0.0.0.0:80#1'' \<mapsto> 7],
     srv_connCb = True, srv_messaCb = True, srv_wriComCb = False\<rparr>"

definition server_conn :: conn where
  "server_conn = (demo_conn kConnected new_Buffer)\<lparr>conn_name := ''0.0.0.0:80#1''\<rparr>"

definition server_demo :: "event_mask \<Rightarrow> server_world" where
  "server_demo reported = \<lparr>channels = [20 \<mapsto> (demo_channel 3)\<lparr>revents := reported\<rparr>], queues = Map.empty,
     clock = clock empty_world, timer_seq = 0, loops = [0 \<mapsto> demo_loop 3], this_thread = 1,
     loopInThread = [1 \<mapsto> 0], conns = [7 \<mapsto> server_conn],
     sent = (\<lambda>_. []), wr_shut = {}, closed_fds = [], write_answers = (\<lambda>_. 2),
     read_answers = (\<lambda>_. Inr []), fd_answers = (\<lambda>_. 9), call_answers = (\<lambda>_. 0),
     accept_answers = (\<lambda>_. Inl EMFILE), local_addr = (\<lambda>_. Some (InetAddress_port 80)),
     peer_addr = (\<lambda>_. Some (InetAddress_port 4000)), socket_errors = (\<lambda>_. 0), listening_fds = {4}, sock_opts = [],
     new_ptrs = (\<lambda>i. 50 + i), server = demo_server\<rparr>"

lemma server_demo_at:
  "conn_at 0 7 5 server_conn ((demo_channel 3)\<lparr>revents := r\<rparr>) (demo_loop 3) (demo_poller 3) (server_demo r)"
  by (auto simp: conn_at_def epoll_loop_def epoll_ok_def server_demo_def server_conn_def demo_conn_def
      demo_channel_def demo_loop_def demo_poller_def small_loop_def index_values epoll_watch_def
      new_EpollPoller_def new_Channel_def interest_def ctl_step_def fun_eq_iff split: if_splits)

lemma server_demo_simps [simp]:
  "revents ((demo_channel 3)\<lparr>revents := r\<rparr>) = r" "tied ((demo_channel 3)\<lparr>revents := r\<rparr>) = False"
  "readCallback ((demo_channel 3)\<lparr>revents := r\<rparr>) = Some (Cb_TcpConnection_handleRead 7)"
  "closeCallback ((demo_channel 3)\<lparr>revents := r\<rparr>) = Some (Cb_TcpConnection_handleClose 7)"
  "server (server_demo r) = demo_server" "srv_loop demo_server = 0"
  "connections demo_server = [''0.0.0.0:80#1'' \<mapsto> 7]" "conn_name server_conn = ''0.0.0.0:80#1''"
  "read_answers (server_demo r) = (\<lambda>_. Inr [])" "pendingFunctors (demo_loop 3) = []"
  by (simp_all add: demo_channel_def new_Channel_def server_demo_def demo_server_def server_conn_def
      demo_loop_def)

lemma server_demo_conn: "closeCb server_conn = Some Cl_TcpServer_removeConnection" "state server_conn = kConnected"
    "buffer_ok (inputBuffer server_conn)" "conn_channel server_conn = 20"
  using new_Buffer_ok by (simp_all add: server_conn_def demo_conn_def)

definition quiet_server :: "server_world conn_code" where
  "quiet_server = \<lparr>connection_cb = \<lambda>c w. Inr w, message_cb = \<lambda>c t w. Inr w, close_cb = \<lambda>k c w. Inr w,
     write_complete_cb = \<lambda>c w. Inr w\<rparr>"

section \<open>Accepting fails hard\<close>

text \<open>
  Every failure of \<open>accept4\<close> ends the program, the errnos that a server has to expect included
  (\<open>EAGAIN\<close>, \<open>ECONNABORTED\<close>, \<open>EMFILE\<close>): \<open>Socket::accept\<close> reports it with \<open>LOG_FATAL\<close>. So the switch
  behind it, and the recovery of \<open>Acceptor::handleRead\<close> from \<open>EMFILE\<close> with the spare descriptor, are
  never reached.
\<close>

lemma accept_failure_is_fatal:
  assumes "loops w (acc_loop (srv_acceptor (server w))) = Some e" and "threadId e = this_thread w"
    and "accept_answers w 0 = Inl errno"
  shows "Acceptor_handleRead user w = Inl FatalExit"
  using assms by (simp add: Acceptor_handleRead_def assertInLoopThread_def isInLoopThread_def
      Socket_accept_def sys_accept_def LOG_FATAL_def Let_def)

lemma accept_failure_is_fatal_witness:
  "Acceptor_handleRead quiet_server (server_demo 0) = Inl FatalExit"
  by (rule accept_failure_is_fatal [where e = "demo_loop 3" and errno = EMFILE])
    (simp_all add: server_demo_def demo_server_def demo_loop_def small_loop_def)

section \<open>Frame lemmas\<close>

text \<open>Operations on loops, channels and connections leave the server's own members alone.\<close>

lemma more_server: "conn_world.more w' = conn_world.more w \<Longrightarrow> server w' = server (w :: 'a server_world_scheme)"
  by (cases w; cases w') simp

lemma change_events_more: "change_events f chan w = Inr w' \<Longrightarrow> loops_world.more w' = loops_world.more w"
  by (auto simp: change_events_def modify_channel_def updateChannel_def with_poller_def result_simps
      split: prod.splits if_splits)

lemma queueInLoop_more: "queueInLoop l f w = Inr w' \<Longrightarrow> loops_world.more w' = loops_world.more w"
  by (auto simp: queueInLoop_def on_loop_def result_simps)

lemma more_conn: "loops_world.more w' = loops_world.more w \<Longrightarrow>
    conn_world.more w' = conn_world.more (w :: 'a conn_world_scheme)"
  by (cases w; cases w') simp


lemmas change_events_server = more_server [OF more_conn [OF change_events_more]]
lemmas queueInLoop_server = more_server [OF more_conn [OF queueInLoop_more]]

lemma modify_conn_server: "modify_conn c f w = Inr w' \<Longrightarrow> server w' = server w"
  by (auto simp: modify_conn_def rbind_Inr_iff)

lemma new_TcpConnection_server [simp]: "server (new_TcpConnection l name c chan fd local peer w) = server w"
  by (simp add: new_TcpConnection_def)

lemma alloc_server [simp]: "server (snd (alloc w)) = server w"
  by (simp add: alloc_def)

definition keeps_server :: "'a server_world_scheme conn_code \<Rightarrow> bool" where
  "keeps_server user \<longleftrightarrow> (\<forall>c w w'. connection_cb user c w = Inr w' \<longrightarrow> server w' = server w)"

lemma connEstablished_server:
  assumes "keeps_server user" and "connEstablished (server_code user) c w = Inr w'"
  shows "server w' = server w"
proof -
  obtain chan w1 w2 where w1: "modify_conn c (\<lambda>x. x\<lparr>state := kConnected\<rparr>) w = Inr w1"
      "change_events with_reading chan w1 = Inr w2" "connection_cb user c w2 = Inr w'"
    using assms(2) by (auto simp: connEstablished_def enableReading_def server_code_def result_simps
        split: if_splits)
  then show ?thesis
    using assms(1) modify_conn_server [OF w1(1)] change_events_server [OF w1(2)]
    by (simp add: keeps_server_def)
qed

section \<open>Names\<close>

definition names_ok :: "tcp_server \<Rightarrow> bool" where
  "names_ok s \<longleftrightarrow> (\<forall>name \<in> dom (connections s). \<exists>i. 0 < i \<and> i < sint (nextConnId s) \<and>
     name = srv_name s @ ''#'' @ decimal_int i)"

lemma decimal_int_inject: "0 < i \<Longrightarrow> 0 < j \<Longrightarrow> decimal_int i = decimal_int j \<longleftrightarrow> i = j"
  by (auto simp: decimal_int_def decimal_inject nat_eq_iff)

lemma sint_suc:
  fixes k :: "32 word"
  assumes "0 < sint k" and "sint k < 2 ^ 31 - 1"
  shows "sint (k + 1) = sint k + 1"
  using assms by (simp add: sint_word_ariths signed_take_bit_int_eq_self)

lemma newConnection_server:
  assumes keep: "keeps_server user" and run: "newConnection user fd peer w = Inr w'"
  shows "\<exists>c pool. server w' = (server w)\<lparr>nextConnId := nextConnId (server w) + 1, threadPool := pool,
    connections := (connections (server w))
      (srv_name (server w) @ ''#'' @ decimal_int (sint (nextConnId (server w))) \<mapsto> c)\<rparr>"
proof -
  let ?s = "server w"
  let ?name = "srv_name ?s @ ''#'' @ decimal_int (sint (nextConnId ?s))"
  obtain l pool where pool: "getNextLoop w (threadPool ?s) = Inr (l, pool)"
    using run by (auto simp: newConnection_def Let_def result_simps split: if_splits)
  define s1 where "s1 = ?s\<lparr>nextConnId := nextConnId ?s + 1, threadPool := pool\<rparr>"
  obtain c w1 where c: "alloc (w\<lparr>server := s1\<rparr>) = (c, w1)" by force
  obtain chan w2 where chan: "alloc w1 = (chan, w2)" by force
  have s2: "server w2 = s1" using alloc_server [of w1] alloc_server [of "w\<lparr>server := s1\<rparr>"] c chan by simp
  define w3 where "w3 = (new_TcpConnection l ?name c chan fd (Socket_getLocalAddr fd w2) peer w2)\<lparr>server := s1\<lparr>connections := (connections s1)(?name \<mapsto> c)\<rparr>\<rparr>"
  have "rbind (setConnectionCallback (srv_connCb ?s) c w3) (\<lambda>w.
      rbind (setMessageCallback (srv_messaCb ?s) c w) (\<lambda>w.
      rbind (setWriteCompleteCallback (srv_wriComCb ?s) c w) (\<lambda>w.
      rbind (setCloseCallback (Some Cl_TcpServer_removeConnection) c w) (\<lambda>w.
      runInLoop l (Fn_connEstablished c) (connEstablished (server_code user) c) w)))) = Inr w'"
    using run pool by (simp add: newConnection_def Let_def assertInLoopThread_def isInLoopThread_def
        rbind_Inr_iff s1_def [symmetric] c chan s2 w3_def split: if_splits)
  then obtain v1 v2 v3 v4 where v: "modify_conn c (\<lambda>x. x\<lparr>connCb := srv_connCb ?s\<rparr>) w3 = Inr v1"
      "modify_conn c (\<lambda>x. x\<lparr>messaCb := srv_messaCb ?s\<rparr>) v1 = Inr v2"
      "modify_conn c (\<lambda>x. x\<lparr>wriComCb := srv_wriComCb ?s\<rparr>) v2 = Inr v3"
      "modify_conn c (\<lambda>x. x\<lparr>closeCb := Some Cl_TcpServer_removeConnection\<rparr>) v3 = Inr v4"
      "runInLoop l (Fn_connEstablished c) (connEstablished (server_code user) c) v4 = Inr w'"
    by (auto simp: rbind_Inr_iff setConnectionCallback_def setMessageCallback_def
        setWriteCompleteCallback_def setCloseCallback_def)
  have "server w' = server v4"
    using v(5) connEstablished_server [OF keep] queueInLoop_server
    by (auto simp: runInLoop_def rbind_Inr_iff split: if_splits)
  also have "\<dots> = server w3" using v(1-4) modify_conn_server by metis
  finally show ?thesis by (auto simp: w3_def s1_def)
qed

text \<open>The name of the next connection, and what it does to the invariant.\<close>

definition next_name :: "tcp_server \<Rightarrow> string" where
  [simp]: "next_name s = srv_name s @ ''#'' @ decimal_int (sint (nextConnId s))"

lemma fresh_name:
  assumes "names_ok s" and "0 < sint (nextConnId s)"
  shows "connections s (next_name s) = None"
proof (rule ccontr)
  assume "connections s (next_name s) \<noteq> None"
  then have "next_name s \<in> dom (connections s)" by (simp add: domIff)
  from bspec [OF assms(1) [unfolded names_ok_def] this]
  obtain i where i: "0 < i" "i < sint (nextConnId s)" "next_name s = srv_name s @ ''#'' @ decimal_int i"
    by (elim exE conjE)
  from i(3) have "decimal_int (sint (nextConnId s)) = decimal_int i" by simp
  then show False using decimal_int_inject [OF assms(2) i(1)] i(2) by simp
qed

lemma names_ok_next:
  assumes "names_ok s" and "0 < sint (nextConnId s)" and "sint (nextConnId s) < 2 ^ 31 - 1"
    and s': "connections s' = (connections s)(next_name s \<mapsto> c)" "srv_name s' = srv_name s"
      "nextConnId s' = nextConnId s + 1"
  shows "names_ok s'" and "sint (nextConnId s') = sint (nextConnId s) + 1"
proof -
  note inc = sint_suc [OF assms(2,3)]
  then show "sint (nextConnId s') = sint (nextConnId s) + 1" by (simp add: s'(3))
  show "names_ok s'"
    unfolding names_ok_def
  proof
    fix name assume "name \<in> dom (connections s')"
    then consider "name = next_name s" | "name \<in> dom (connections s)" by (auto simp: s'(1) split: if_splits)
    then show "\<exists>i. 0 < i \<and> i < sint (nextConnId s') \<and> name = srv_name s' @ ''#'' @ decimal_int i"
    proof cases
      case 1
      then show ?thesis using assms(2) inc
        by (intro exI [of _ "sint (nextConnId s)"]) (simp add: s'(2,3))
    next
      case 2
      from bspec [OF assms(1) [unfolded names_ok_def] this] show ?thesis
        using inc by (elim exE conjE, intro exI conjI) (assumption | simp add: s'(2,3))+
    qed
  qed
qed

lemma names_ok_remove:
  "names_ok s \<Longrightarrow> names_ok (s\<lparr>connections := (connections s)(name := None)\<rparr>)"
  by (auto simp: names_ok_def split: if_splits)

text \<open>
  C21. Names are unique. As long as the connection counter has not reached the end of its range,
  accepting a connection adds an entry under a name that no live connection has (so that none is
  dropped from the map by being overwritten), counts on, and keeps the invariant that every name in
  the map is the server's with an earlier number. Callbacks are assumed not to write the server's
  members, which are private.
\<close>

theorem new_connection_name:
  assumes "names_ok (server w)" and "0 < sint (nextConnId (server w))"
    and "sint (nextConnId (server w)) < 2 ^ 31 - 1"
    and "keeps_server user" and "newConnection user fd peer w = Inr w'"
  shows "\<exists>name c. connections (server w) name = None \<and>
    connections (server w') = (connections (server w))(name \<mapsto> c) \<and>
    sint (nextConnId (server w')) = sint (nextConnId (server w)) + 1 \<and> names_ok (server w')"
proof -
  obtain c pool where s': "server w' = (server w)\<lparr>nextConnId := nextConnId (server w) + 1, threadPool := pool,
      connections := (connections (server w))(next_name (server w) \<mapsto> c)\<rparr>"
    using newConnection_server [OF assms(4,5)] by auto
  note next_ok = names_ok_next [OF assms(1-3), of "server w'" c]
  show ?thesis using fresh_name [OF assms(1,2)] next_ok
    by (intro exI [of _ "next_name (server w)"] exI [of _ c]) (simp add: s')
qed


text \<open>The small server with one thread, whose loop is 4.\<close>

definition threaded_demo :: server_world where
  "threaded_demo = (server_demo 0)\<lparr>loops := [0 \<mapsto> demo_loop 3, 4 \<mapsto> small_loop\<lparr>threadId := 2\<rparr>],
     server := demo_server\<lparr>threadPool := (new_EventLoopThreadPool 0)\<lparr>pool_started := True,
       numThreads := 1, pool_loops := [4]\<rparr>\<rparr>\<rparr>"

theorem new_connection_name_witness:
  "\<exists>w' name c. newConnection quiet_server 6 (InetAddress_port 4001) threaded_demo = Inr w' \<and>
    connections (server w') = [''0.0.0.0:80#1'' \<mapsto> 7, name \<mapsto> c] \<and> name \<noteq> ''0.0.0.0:80#1''"
proof -
  have "decimal_int 1 = ''1''" by (simp add: decimal_int_def decimal.simps char_of_def bit_Suc_0_iff)
  then have ok: "names_ok (server threaded_demo)"
    by (auto simp: names_ok_def demo_server_def threaded_demo_def split: if_splits intro!: exI [of _ 1])
  have keep: "keeps_server quiet_server" by (simp add: keeps_server_def quiet_server_def)
  have "0 < sint (nextConnId (server threaded_demo))" "sint (nextConnId (server threaded_demo)) < 2 ^ 31 - 1"
    by (simp_all add: threaded_demo_def demo_server_def)
  note added = new_connection_name [OF ok this keep]
  obtain w' where run: "newConnection quiet_server 6 (InetAddress_port 4001) threaded_demo = Inr w'"
    by (simp add: newConnection_def threaded_demo_def server_demo_def demo_server_def demo_loop_def
        small_loop_def assertInLoopThread_def isInLoopThread_def getNextLoop_def on_loop_def
        new_EventLoopThreadPool_def alloc_def Let_def new_TcpConnection_def setConnectionCallback_def
        setMessageCallback_def setWriteCompleteCallback_def setCloseCallback_def modify_conn_def
        runInLoop_def queueInLoop_def)
  from added [OF run] obtain name c where
      "connections (server threaded_demo) name = None"
      "connections (server w') = (connections (server threaded_demo))(name \<mapsto> c)"
    by blast
  then show ?thesis using run by (auto simp: threaded_demo_def split: if_splits)
qed

section \<open>Removal\<close>

lemma removeConnection_at:
  assumes at: "conn_at l c fd x ch e p w" and srv: "srv_loop (server w) = l"
  shows "TcpServer_removeConnection c w =
      (if connections (server w) (conn_name x) = None then Inl AssertFailed
       else Inr (w\<lparr>server := (server w)\<lparr>connections := (connections (server w))(conn_name x := None)\<rparr>,
              loops := (loops w)(l \<mapsto> queue_functor True (Fn_connDestroyed c) e)\<rparr>))"
proof -
  note d = conn_atD [OF at]
  define w1 where
    "w1 = w\<lparr>server := (server w)\<lparr>connections := (connections (server w))(conn_name x := None)\<rparr>\<rparr>"
  have at1: "conn_at l c fd x ch e p w1" using at by (simp add: conn_at_def epoll_loop_def w1_def)
  have "TcpServer_removeConnection c w = cpp_assert (connections (server w) (conn_name x) \<noteq> None)
      (queueInLoop l (Fn_connDestroyed c) w1)"
    using d(2,3) srv by (simp add: TcpServer_removeConnection_def runInLoop_def conn_at_simps [OF at]
        removeConnectionInLoop_def Let_def w1_def domIff cpp_assert_def)
  then show ?thesis using queueInLoop_at(1) [OF at1] by (simp add: w1_def cpp_assert_def)
qed


lemma server_close:
  assumes at: "conn_at l c fd x ch e p w" and up: "state x = kConnected \<or> state x = kDisconnecting"
    and cb: "closeCb x = Some Cl_TcpServer_removeConnection" and srv: "srv_loop (server w) = l"
  shows "connections (server w) (conn_name x) = None \<Longrightarrow>
      handleClose (server_code user) c w = Inl AssertFailed"
    and "connections (server w) (conn_name x) \<noteq> None \<Longrightarrow>
      \<exists>w' ch' e' p'. handleClose (server_code user) c w = Inr w' \<and> conn_at l c fd x ch' e' p' w' \<and>
        same_dispatch ch ch' \<and> read_answers w' = read_answers w \<and>
        server w' = (server w)\<lparr>connections := (connections (server w))(conn_name x := None)\<rparr> \<and>
        pendingFunctors e' = pendingFunctors e @ [Fn_connDestroyed c]"
proof -
  obtain w1 ch1 e1 p1 where w1: "handleClose (server_code user) c w =
        close_cb (server_code user) Cl_TcpServer_removeConnection c w1"
      "conn_at l c fd x ch1 e1 p1 w1" "same_dispatch ch ch1" "conn_world.more w1 = conn_world.more w"
      "read_answers w1 = read_answers w" "pendingFunctors e1 = pendingFunctors e"
    using handleClose_at [OF at up cb] by blast
  note same = more_server [OF w1(4)]
  have rem: "handleClose (server_code user) c w = TcpServer_removeConnection c w1"
    using w1(1) by (simp add: server_code_def)
  have srv1: "srv_loop (server w1) = l" using srv same by simp
  show "connections (server w) (conn_name x) = None \<Longrightarrow>
      handleClose (server_code user) c w = Inl AssertFailed"
    using rem removeConnection_at [OF w1(2) srv1] same by simp
  let ?s = "(server w)\<lparr>connections := (connections (server w))(conn_name x := None)\<rparr>"
  let ?e = "queue_functor True (Fn_connDestroyed c) e1"
  let ?w = "w1\<lparr>server := ?s, loops := (loops w1)(l \<mapsto> ?e)\<rparr>"
  have "conn_at l c fd x ch1 ?e p1 ?w" using w1(2) by (simp add: conn_at_def epoll_loop_def)
  then show "connections (server w) (conn_name x) \<noteq> None \<Longrightarrow>
      \<exists>w' ch' e' p'. handleClose (server_code user) c w = Inr w' \<and> conn_at l c fd x ch' e' p' w' \<and>
        same_dispatch ch ch' \<and> read_answers w' = read_answers w \<and>
        server w' = (server w)\<lparr>connections := (connections (server w))(conn_name x := None)\<rparr> \<and>
        pendingFunctors e' = pendingFunctors e @ [Fn_connDestroyed c]"
    using rem removeConnection_at [OF w1(2) srv1] same w1(3,5,6)
    by (auto intro!: exI [of _ ?w] exI [of _ ch1] exI [of _ ?e] exI [of _ p1])
qed

text \<open>The server's connections when the poller's report is dispatched.\<close>

lemma conn_at_handling:
  assumes at: "conn_at l c fd x ch e p w"
  shows "conn_at l c fd x (ch\<lparr>eventHandling := b\<rparr>) e p
    (w\<lparr>channels := (channels w)(conn_channel x \<mapsto> ch\<lparr>eventHandling := b\<rparr>)\<rparr>)"
  using at epoll_ok_same [of l "channels w" p "conn_channel x" ch "ch\<lparr>eventHandling := b\<rparr>"]
  by (simp add: conn_at_def epoll_loop_def)

lemma handleRead_eof:
  assumes at: "conn_at l c fd x ch e p w" and ok: "buffer_ok (inputBuffer x)"
    and eof: "read_answers w 0 = Inr []"
  shows "\<exists>b w1. handleRead code c now w = handleClose code c w1 \<and>
    w1 = (snd (sys_readv w))\<lparr>conns := (conns w)(c \<mapsto> x\<lparr>inputBuffer := b\<rparr>)\<rparr> \<and>
    conn_at l c fd (x\<lparr>inputBuffer := b\<rparr>) ch e p w1 \<and> conn_world.more w1 = conn_world.more w"
proof -
  have room: "unat (writeIndex (inputBuffer x)) + length [] \<le> length (buf (inputBuffer x))"
    using buffer_okD(2) [OF ok] by simp
  obtain b w1 where w1: "w1 = (snd (sys_readv w))\<lparr>conns := (conns w)(c \<mapsto> x\<lparr>inputBuffer := b\<rparr>)\<rparr>"
      "handleRead code c now w = handleClose code c w1"
    using handleRead_fits [OF at ok eof room, of code now] by auto
  have "conns (snd (sys_readv w)) = conns w" by (simp add: sys_readv_def)
  then have "conn_at l c fd (x\<lparr>inputBuffer := b\<rparr>) ch e p w1"
    unfolding w1(1)
    using modify_conn_at [OF sys_readv_at [OF at], of "x\<lparr>inputBuffer := b\<rparr>"] conn_atD(3) [OF at] by simp
  moreover have "conn_world.more w1 = conn_world.more w" by (simp add: w1(1) sys_readv_def)
  ultimately show ?thesis using w1 by blast
qed

text \<open>
  The end of a connection. In a server whose only loop is its own, an end of file on an
  established connection (the poller reports \<open>POLLIN\<close>, \<open>readv\<close> returns 0) takes the connection's name
  out of the server's map and queues \<open>connDestroyed\<close> for it, behind what was queued before.
\<close>

lemma eof_removes_connection:
  assumes at: "conn_at l c fd x ch e p w" and up: "state x = kConnected \<or> state x = kDisconnecting"
    and cb: "closeCb x = Some Cl_TcpServer_removeConnection" "buffer_ok (inputBuffer x)" and srv: "srv_loop (server w) = l"
    and name: "connections (server w) (conn_name x) = Some c"
    and eof: "read_answers w 0 = Inr []"
    and ch: "revents ch = POLLIN" "readCallback ch = Some (Cb_TcpConnection_handleRead c)" "\<not> tied ch"
  shows "\<exists>w' e'. handleEvent alive (server_callback user) now (conn_channel x) w = Inr w' \<and>
    connections (server w') = (connections (server w))(conn_name x := None) \<and> loops w' l = Some e' \<and>
    pendingFunctors e' = pendingFunctors e @ [Fn_connDestroyed c]"
proof -
  let ?c = "conn_channel x"
  define ch0 where "ch0 = ch\<lparr>eventHandling := True\<rparr>"
  define w0 where "w0 = w\<lparr>channels := (channels w)(?c \<mapsto> ch0)\<rparr>"
  have at0: "conn_at l c fd x ch0 e p w0"
    using conn_at_handling [OF at, of True] by (simp add: ch0_def w0_def)
  have w0: "server w0 = server w" "read_answers w0 0 = Inr []" using eof by (simp_all add: w0_def)
  obtain b w1 where w1: "handleRead (server_code user) c now w0 = handleClose (server_code user) c w1"
      "conn_at l c fd (x\<lparr>inputBuffer := b\<rparr>) ch0 e p w1" "server w1 = server w"
    using handleRead_eof [OF at0 cb(2) w0(2)] more_server w0(1) by metis
  have x1: "closeCb (x\<lparr>inputBuffer := b\<rparr>) = Some Cl_TcpServer_removeConnection" "state (x\<lparr>inputBuffer := b\<rparr>) = kConnected \<or>
      state (x\<lparr>inputBuffer := b\<rparr>) = kDisconnecting" "srv_loop (server w1) = l"
    using up cb(1) srv w1(3) by simp_all
  have "connections (server w1) (conn_name (x\<lparr>inputBuffer := b\<rparr>)) \<noteq> None" using name w1(3) by simp
  from server_close(2) [OF w1(2) x1(2,1,3) this, of user]
  obtain w2 ch2 e2 p2 where w2: "handleClose (server_code user) c w1 = Inr w2"
      "conn_at l c fd (x\<lparr>inputBuffer := b\<rparr>) ch2 e2 p2 w2" "same_dispatch ch0 ch2"
      "connections (server w2) = (connections (server w))(conn_name x := None)"
      "pendingFunctors e2 = pendingFunctors e @ [Fn_connDestroyed c]"
    using w1(3) by (elim exE conjE) simp
  have ch2: "channels w2 ?c = Some ch2" "revents ch2 = POLLIN"
    using conn_atD(4) [OF w2(2)] w2(3) ch(1) by (simp_all add: same_dispatch_def ch0_def)
  define w3 where "w3 = w2\<lparr>channels := (channels w2)(?c \<mapsto> ch2\<lparr>eventHandling := False\<rparr>)\<rparr>"
  have "handleEvent alive (server_callback user) now ?c w = Inr w3"
    using conn_atD(4) [OF at] conn_atD(4) [OF at0] ch w1(1) w2(1) ch2
    by (simp add: handleEvent_def handleEventWithGuard_def modify_channel_def dispatch_def
        error_guard_def close_guard_def read_guard_def write_guard_def event_masks w3_def
        ch0_def [symmetric] w0_def [symmetric])
      (simp add: ch0_def)
  then show ?thesis using w2(4,5) conn_atD(8) [OF w2(2)] by (simp add: w3_def)
qed

lemma eof_removes_connection_witness:
  "\<exists>w' e'. handleEvent (\<lambda>_ _. True) (server_callback quiet_server) (Timestamp 0) 20 (server_demo POLLIN) = Inr w' \<and>
    connections (server w') = Map.empty \<and> loops w' 0 = Some e' \<and> pendingFunctors e' = [Fn_connDestroyed 7]"
proof -
  have "srv_loop (server (server_demo POLLIN)) = 0"
    "connections (server (server_demo POLLIN)) (conn_name server_conn) = Some 7"
    "read_answers (server_demo POLLIN) 0 = Inr []"
    by simp_all
  from eof_removes_connection [OF server_demo_at _ server_demo_conn(1,3) this, of "\<lambda>_ _. True"
      quiet_server "Timestamp 0"] show ?thesis
    by (simp add: server_demo_conn)
qed

text \<open>
  C34. A hang-up kills the server. When the peer has closed both directions, the poller reports
  \<open>POLLHUP\<close> without \<open>POLLIN\<close>: the channel runs the close callback and then, as \<open>POLLHUP\<close> is also in
  the read mask, the read callback, which finds the end of file. Since \<open>handleClose\<close> does not change
  the state, it runs a second time, the server's map has no entry any more, and \<open>assert(n == 1)\<close>
  in \<open>removeConnectionInLoop\<close> ends the program.
\<close>

theorem hangup_kills_server:
  assumes at: "conn_at l c fd x ch e p w" and up: "state x = kConnected \<or> state x = kDisconnecting"
    and cb: "closeCb x = Some Cl_TcpServer_removeConnection" "buffer_ok (inputBuffer x)" and srv: "srv_loop (server w) = l"
    and eof: "read_answers w 0 = Inr []"
    and ch: "revents ch = POLLHUP" "readCallback ch = Some (Cb_TcpConnection_handleRead c)"
      "closeCallback ch = Some (Cb_TcpConnection_handleClose c)" "\<not> tied ch"
  shows "handleEvent alive (server_callback user) now (conn_channel x) w = Inl AssertFailed"
proof -
  let ?c = "conn_channel x"
  define ch0 where "ch0 = ch\<lparr>eventHandling := True\<rparr>"
  define w0 where "w0 = w\<lparr>channels := (channels w)(?c \<mapsto> ch0)\<rparr>"
  have at0: "conn_at l c fd x ch0 e p w0"
    using conn_at_handling [OF at, of True] by (simp add: ch0_def w0_def)
  have w0: "read_answers w0 0 = Inr []" "srv_loop (server w0) = l" using eof srv by (simp_all add: w0_def)
  have event: "handleEvent alive (server_callback user) now ?c w =
      rbind (handleClose (server_code user) c w0) (\<lambda>w.
      rbind (dispatch (server_callback user) now read_guard readCallback ?c w) (\<lambda>w.
      rbind (dispatch (server_callback user) now write_guard writeCallback ?c w)
        (\<lambda>w. modify_channel ?c (\<lambda>ch. ch\<lparr>eventHandling := False\<rparr>) w)))"
    using conn_atD(4) [OF at] conn_atD(4) [OF at0] ch
    by (simp add: handleEvent_def handleEventWithGuard_def modify_channel_def
        dispatch_def [where guard = error_guard] dispatch_def [where guard = close_guard]
        error_guard_def close_guard_def event_masks ch0_def [symmetric] w0_def [symmetric])
      (simp add: ch0_def modify_channel_def)
  show ?thesis
  proof (cases "connections (server w0) (conn_name x)")
    case None
    then show ?thesis using event server_close(1) [OF at0 up cb(1) w0(2)] by simp
  next
    case (Some c')
    then have some: "connections (server w0) (conn_name x) \<noteq> None" by simp
    from server_close(2) [OF at0 up cb(1) w0(2) some, of user]
    obtain w1 ch1 e1 p1 where w1: "handleClose (server_code user) c w0 = Inr w1"
        "conn_at l c fd x ch1 e1 p1 w1" "same_dispatch ch0 ch1" "read_answers w1 = read_answers w0"
        "server w1 = (server w0)\<lparr>connections := (connections (server w0))(conn_name x := None)\<rparr>"
      by (elim exE conjE) simp
    have eof1: "read_answers w1 0 = Inr []" using w1(4) w0(1) by simp
    obtain b w2 where w2: "handleRead (server_code user) c now w1 = handleClose (server_code user) c w2"
        "conn_at l c fd (x\<lparr>inputBuffer := b\<rparr>) ch1 e1 p1 w2" "server w2 = server w1"
      using handleRead_eof [OF w1(2) cb(2) eof1] more_server by metis
    have x2: "state (x\<lparr>inputBuffer := b\<rparr>) = kConnected \<or> state (x\<lparr>inputBuffer := b\<rparr>) = kDisconnecting"
        "closeCb (x\<lparr>inputBuffer := b\<rparr>) = Some Cl_TcpServer_removeConnection" "srv_loop (server w2) = l"
        "connections (server w2) (conn_name (x\<lparr>inputBuffer := b\<rparr>)) = None"
      using up cb(1) w0(2) w2(3) w1(5) by simp_all
    have "handleClose (server_code user) c w2 = Inl AssertFailed"
      by (rule server_close(1) [OF w2(2) x2])
    moreover have "channels w1 ?c = Some ch1" "revents ch1 = POLLHUP"
        "readCallback ch1 = Some (Cb_TcpConnection_handleRead c)"
      using conn_atD(4) [OF w1(2)] w1(3) ch by (simp_all add: same_dispatch_def ch0_def)
    ultimately show ?thesis
      using event w1(1) w2(1) by (simp add: dispatch_def read_guard_def event_masks)
  qed
qed


theorem hangup_kills_server_witness:
  "handleEvent (\<lambda>_ _. True) (server_callback quiet_server) (Timestamp 0) 20 (server_demo POLLHUP) =
    Inl AssertFailed"
proof -
  have "srv_loop (server (server_demo POLLHUP)) = 0" "read_answers (server_demo POLLHUP) 0 = Inr []"
    by simp_all
  from hangup_kills_server [OF server_demo_at _ server_demo_conn(1,3) this, of "\<lambda>_ _. True"
      quiet_server "Timestamp 0"] show ?thesis
    by (simp add: server_demo_conn)
qed

end
