(* ===== verification/Conn_Frames.thy ===== *)
theory Conn_Frames
  imports Tcp_Server
begin

text \<open>
  What the operations on connections leave alone, whatever else they do: the members that say who a
  connection is and what it calls, those of its channel, and the functors queued in the loops.
\<close>

section \<open>Calm steps\<close>

text \<open>Maps with the same keys and related values.\<close>

definition map_rel :: "('v \<Rightarrow> 'v \<Rightarrow> bool) \<Rightarrow> ('k \<rightharpoonup> 'v) \<Rightarrow> ('k \<rightharpoonup> 'v) \<Rightarrow> bool" where
  "map_rel R m m' \<longleftrightarrow> (\<forall>k. rel_option R (m k) (m' k))"

lemma map_rel_refl: "(\<And>x. R x x) \<Longrightarrow> map_rel R m m"
  by (simp add: map_rel_def option.rel_refl)

lemma map_rel_trans:
  assumes "map_rel R a b" and "map_rel R b c" and "\<And>x y z. R x y \<Longrightarrow> R y z \<Longrightarrow> R x z"
  shows "map_rel R a c"
  unfolding map_rel_def
proof
  fix k
  have "rel_option R (a k) (b k)" "rel_option R (b k) (c k)" using assms(1,2) by (simp_all add: map_rel_def)
  then show "rel_option R (a k) (c k)" using assms(3) by (cases "a k"; cases "b k"; cases "c k") auto
qed

lemma map_rel_upd: "(\<And>x. R x x) \<Longrightarrow> m k = Some a \<Longrightarrow> R a b \<Longrightarrow> map_rel R m (m(k \<mapsto> b))"
  by (simp add: map_rel_def option.rel_refl)

lemma map_relD: "map_rel R m m' \<Longrightarrow> m k = Some a \<Longrightarrow> \<exists>b. m' k = Some b \<and> R a b"
  unfolding map_rel_def by (drule spec [of _ k]) (auto elim: option.rel_cases)

definition calm_conn :: "conn \<Rightarrow> conn \<Rightarrow> bool" where
  "calm_conn a b \<longleftrightarrow> conn_loop b = conn_loop a \<and> conn_channel b = conn_channel a \<and>
     conn_name b = conn_name a \<and> inputBuffer b = inputBuffer a \<and> connCb b = connCb a \<and>
     messaCb b = messaCb a \<and> closeCb b = closeCb a \<and> wriComCb b = wriComCb a"

definition calm_channel :: "channel \<Rightarrow> channel \<Rightarrow> bool" where
  "calm_channel a b \<longleftrightarrow> ch_loop b = ch_loop a \<and> ch_fd b = ch_fd a \<and> tied b = tied a \<and>
     readCallback b = readCallback a \<and> writeCallback b = writeCallback a \<and>
     errorCallback b = errorCallback a \<and> closeCallback b = closeCallback a \<and>
     (index a \<noteq> kNew \<longrightarrow> index b \<noteq> kNew)"

fun poller_ready :: "poller \<Rightarrow> bool" where
  "poller_ready (Epoll p) \<longleftrightarrow> 0 < ep_events_size p"
| "poller_ready _ \<longleftrightarrow> True"

definition calm_loop :: "event_loop \<Rightarrow> event_loop \<Rightarrow> bool" where
  "calm_loop a b \<longleftrightarrow> pendingFunctors b = pendingFunctors a \<and> threadId b = threadId a \<and>
     looping b = looping a \<and> quitting b = quitting a \<and>
     (poller_ready (loop_poller a) \<longrightarrow> poller_ready (loop_poller b))"

definition calm :: "'a conn_world_scheme \<Rightarrow> 'a conn_world_scheme \<Rightarrow> bool" where
  "calm w w' \<longleftrightarrow> map_rel calm_conn (conns w) (conns w') \<and>
     map_rel calm_channel (channels w) (channels w') \<and> map_rel calm_loop (loops w) (loops w') \<and>
     this_thread w' = this_thread w \<and> conn_world.more w' = conn_world.more w"

lemma calm_conn_steps [simp]:
  "calm_conn x x" "calm_conn x (x\<lparr>outputBuffer := b\<rparr>)" "calm_conn x (x\<lparr>state := st\<rparr>)"
  by (simp_all add: calm_conn_def)

lemma calm_channel_steps [simp]:
  "calm_channel ch ch" "calm_channel ch (ch\<lparr>events := ev\<rparr>)" "i \<noteq> kNew \<Longrightarrow> calm_channel ch (ch\<lparr>index := i\<rparr>)"
  "calm_channel ch (ch\<lparr>revents := r\<rparr>)" "calm_channel ch (ch\<lparr>eventHandling := eh\<rparr>)"
  by (simp_all add: calm_channel_def)

lemma calm_loop_refl [simp]: "calm_loop e e"
  by (simp add: calm_loop_def)

lemmas map_rel_refls [simp] = map_rel_refl [of calm_conn, OF calm_conn_steps(1)]
  map_rel_refl [of calm_channel, OF calm_channel_steps(1)] map_rel_refl [of calm_loop, OF calm_loop_refl]

lemma calm_refl [simp]: "calm w w"
  by (simp add: calm_def)

lemma calm_parts_trans:
  "calm_conn a b \<Longrightarrow> calm_conn b c \<Longrightarrow> calm_conn a c"
  "calm_channel i j \<Longrightarrow> calm_channel j k \<Longrightarrow> calm_channel i k"
  "calm_loop x y \<Longrightarrow> calm_loop y z \<Longrightarrow> calm_loop x z"
  by (simp_all add: calm_conn_def calm_channel_def calm_loop_def)

lemma calm_trans:
  assumes "calm w w1" and "calm w1 w2"
  shows "calm w w2"
proof -
  note a = assms [unfolded calm_def]
  have "map_rel calm_conn (conns w) (conns w2)"
    using a by (elim conjE) (rule map_rel_trans; (assumption | rule calm_parts_trans(1); assumption))
  moreover have "map_rel calm_channel (channels w) (channels w2)"
    using a by (elim conjE) (rule map_rel_trans; (assumption | rule calm_parts_trans(2); assumption))
  moreover have "map_rel calm_loop (loops w) (loops w2)"
    using a by (elim conjE) (rule map_rel_trans; (assumption | rule calm_parts_trans(3); assumption))
  ultimately show ?thesis using a by (simp add: calm_def)
qed

section \<open>Operations\<close>

lemma assertInLoopThread_Inr_iff:
  "assertInLoopThread l w k = Inr y \<longleftrightarrow> isInLoopThread l w = Inr True \<and> k = Inr y"
  by (cases "isInLoopThread l w") (simp_all add: assertInLoopThread_def)

lemma with_conn_Inr_iff:
  "with_conn c w k = Inr y \<longleftrightarrow>
    (\<exists>x ch. conns w c = Some x \<and> channels w (conn_channel x) = Some ch \<and> k x ch = Inr y)"
  by (auto simp: with_conn_def rbind_Inr_iff deref_Inr_iff)

lemma set_index_calm: "i \<noteq> kNew \<Longrightarrow> map_rel calm_channel h (set_index c i h)"
  by (auto simp: set_index_def intro!: map_rel_upd split: option.split)

lemma epoll_update_calm:
  assumes "epoll_updateChannel c (h, p) = Inr (h', p')"
  shows "map_rel calm_channel h h' \<and> ep_events_size p' = ep_events_size p"
proof -
  have "h' = h \<or> h' = set_index c kAdded h \<or> h' = set_index c kDeleted h"
      "ep_events_size p' = ep_events_size p"
    using assms by (auto simp: epoll_updateChannel_def rbind_Inr_iff cpp_assert_Inr_iff Let_def
        epoll_update_def split: if_splits)
  then show ?thesis using set_index_calm [of kAdded h c] set_index_calm [of kDeleted h c]
    by (auto simp: index_values)
qed

lemma poll_update_calm:
  assumes "poll_updateChannel c (h, p) = Inr (h', p')"
  shows "map_rel calm_channel h h'"
proof -
  have "h' = h \<or> h' = set_index c (int (length (pollfds p))) h"
    using assms by (auto simp: poll_updateChannel_def rbind_Inr_iff cpp_assert_Inr_iff Let_def split: if_splits)
  then show ?thesis using set_index_calm [of "int (length (pollfds p))" h c] by (auto simp: kNew_def)
qed

lemma updateChannel_calm:
  fixes w :: "'a conn_world_scheme"
  assumes "updateChannel l c w = Inr w'"
  shows "calm w w'"
proof -
  obtain e h p where e: "loops w l = Some e" and up: "Poller_updateChannel c (channels w, loop_poller e) = Inr (h, p)"
      and w': "w' = w\<lparr>channels := h, loops := (loops w)(l \<mapsto> e\<lparr>loop_poller := p\<rparr>)\<rparr>"
    using assms by (auto simp: updateChannel_def assertInLoopThread_def with_poller_def rbind_Inr_iff
        deref_Inr_iff cpp_assert_Inr_iff split: if_splits)
  have "map_rel calm_channel (channels w) h \<and> (poller_ready (loop_poller e) \<longrightarrow> poller_ready p)"
    using up epoll_update_calm poll_update_calm by (cases "loop_poller e") (auto simp: rbind_Inr_iff)
  then show ?thesis using e by (simp add: calm_def w' map_rel_upd calm_loop_def)
qed

lemma modify_channel_calm:
  fixes w :: "'a conn_world_scheme"
  assumes "modify_channel c f w = Inr w'" and "\<And>ch. calm_channel ch (f ch)"
  shows "calm w w'"
  using assms by (auto simp: modify_channel_def rbind_Inr_iff deref_Inr_iff calm_def map_rel_upd)

lemma change_events_calm:
  fixes w :: "'a conn_world_scheme"
  assumes "change_events f c w = Inr w'" and "\<And>ch. calm_channel ch (f ch)"
  shows "calm w w'"
  using assms modify_channel_calm [OF _ assms(2)] updateChannel_calm calm_trans
  by (fastforce simp: change_events_def rbind_Inr_iff)

lemma modify_conn_calm:
  assumes "modify_conn c f w = Inr w'" and "\<And>x. calm_conn x (f x)"
  shows "calm w w'"
  using assms by (auto simp: modify_conn_def rbind_Inr_iff deref_Inr_iff calm_def map_rel_upd)

lemma enableWriting_calm: "enableWriting c w = Inr w' \<Longrightarrow> calm (w :: 'a conn_world_scheme) w'"
  unfolding enableWriting_def by (erule change_events_calm) (simp add: with_writing_def)

lemma enableReading_calm: "enableReading c w = Inr w' \<Longrightarrow> calm (w :: 'a conn_world_scheme) w'"
  unfolding enableReading_def by (erule change_events_calm) (simp add: with_reading_def)

lemma disableAll_calm: "disableAll c w = Inr w' \<Longrightarrow> calm (w :: 'a conn_world_scheme) w'"
  unfolding disableAll_def by (erule change_events_calm) (simp add: without_events_def)

lemma sys_write_calm: "calm w (snd (sys_write fd d w))"
  by (simp add: sys_write_def Let_def calm_def)

lemma write_now_calm:
  assumes "write_now c d w = Inr (n, w')" and "\<And>x. conns w c = Some x \<Longrightarrow> \<not> wriComCb x"
  shows "calm w w'"
proof -
  obtain x ch where x: "conns w c = Some x" "channels w (conn_channel x) = Some ch"
    using assms(1) by (auto simp: write_now_def with_conn_def rbind_Inr_iff deref_Inr_iff)
  have "w' = w \<or> w' = snd (sys_write (ch_fd ch) d w)"
    using assms x by (cases "sys_write (ch_fd ch) d w")
      (simp add: write_now_def with_conn_def split: if_splits)
  then show ?thesis using sys_write_calm by auto
qed

lemma sendInLoop_calm:
  assumes run: "sendInLoop c d w = Inr w'" and quiet: "\<And>x. conns w c = Some x \<Longrightarrow> \<not> wriComCb x"
  shows "calm w w'"
proof -
  obtain n w1 where w1: "write_now c d w = Inr (n, w1)"
      and rest: "(if n < int (length d) then with_conn c w1 (\<lambda>x ch.
          rbind (append_bytes (drop (nat n) d) (outputBuffer x)) (\<lambda>b.
          rbind (modify_conn c (\<lambda>x. x\<lparr>outputBuffer := b\<rparr>) w1) (\<lambda>w.
          if \<not> isWriting ch then enableWriting (conn_channel x) w else Inr w))) else Inr w1) = Inr w'"
    using run unfolding sendInLoop_def with_conn_Inr_iff [of c w] assertInLoopThread_Inr_iff rbind_Inr_iff [of "write_now c d w"]
    by (auto simp: cpp_assert_Inr_iff split del: if_split)
  have "calm w1 w'"
  proof (cases "n < int (length d)")
    case True
    then obtain b chan iw w2 where "modify_conn c (\<lambda>x. x\<lparr>outputBuffer := b\<rparr>) w1 = Inr w2"
        "(if \<not> iw then enableWriting chan w2 else Inr w2) = Inr w'"
      using rest by (auto simp: with_conn_def rbind_Inr_iff deref_Inr_iff split del: if_split)
    then show ?thesis
      using modify_conn_calm [of c "\<lambda>x. x\<lparr>outputBuffer := b\<rparr>" w1 w2] enableWriting_calm [of chan w2 w']
        calm_trans [of w1 w2 w'] by (cases iw) simp_all
  qed (use rest in simp)
  with write_now_calm [OF w1 quiet] show ?thesis by (rule calm_trans)
qed

lemma map_rel_back: "map_rel R m m' \<Longrightarrow> m' k = Some b \<Longrightarrow> \<exists>a. m k = Some a \<and> R a b"
  unfolding map_rel_def by (drule spec [of _ k]) (auto elim: option.rel_cases)

text \<open>In the loop's own thread, where \<open>runInLoop\<close> calls at once.\<close>

definition conn_here :: "conn_ptr \<Rightarrow> 'a conn_world_scheme \<Rightarrow> bool" where
  "conn_here c w \<longleftrightarrow> (\<forall>x e. conns w c = Some x \<longrightarrow> loops w (conn_loop x) = Some e \<longrightarrow>
     threadId e = this_thread w)"

definition conn_quiet :: "conn_ptr \<Rightarrow> 'a conn_world_scheme \<Rightarrow> bool" where
  "conn_quiet c w \<longleftrightarrow> (\<forall>x. conns w c = Some x \<longrightarrow> \<not> wriComCb x)"

lemma conn_at_here: "conn_at l c fd x ch e p w \<Longrightarrow> conn_here c w"
  using conn_atD(2,3,8,9) [of l c fd x ch e p w] by (simp add: conn_here_def)

lemma conn_calm:
  assumes "calm w w'"
  shows "conn_here c w \<Longrightarrow> conn_here c w'" and "conn_quiet c w \<Longrightarrow> conn_quiet c w'"
proof -
  note c = assms [unfolded calm_def]
  show "conn_here c w \<Longrightarrow> conn_here c w'"
    unfolding conn_here_def
  proof (intro allI impI)
    fix x' e' assume h: "\<forall>x e. conns w c = Some x \<longrightarrow> loops w (conn_loop x) = Some e \<longrightarrow> threadId e = this_thread w"
      and x': "conns w' c = Some x'" "loops w' (conn_loop x') = Some e'"
    obtain x where x: "conns w c = Some x" "calm_conn x x'" using map_rel_back c x'(1) by metis
    obtain e where "loops w (conn_loop x') = Some e" "calm_loop e e'" using map_rel_back c x'(2) by metis
    then show "threadId e' = this_thread w'" using h x c by (simp add: calm_conn_def calm_loop_def)
  qed
  show "conn_quiet c w \<Longrightarrow> conn_quiet c w'"
    using c map_rel_back [of calm_conn "conns w" "conns w'" c] by (auto simp: conn_quiet_def calm_conn_def)
qed

lemma send_calm:
  assumes "send c d w = Inr w'" and "conn_here c w" and "conn_quiet c w"
  shows "calm w w'"
  using assms sendInLoop_calm [of c d w w']
  by (auto simp: send_def rbind_Inr_iff deref_Inr_iff isInLoopThread_def conn_here_def conn_quiet_def
      split: if_splits)

lemma shutdown_calm:
  assumes run: "shutdown c w = Inr w'" and here: "conn_here c w"
  shows "calm w w'"
proof -
  obtain x where x: "conns w c = Some x"
    using run by (auto simp: shutdown_def rbind_Inr_iff deref_Inr_iff)
  show ?thesis
  proof (cases "state x = kConnected")
    case True
    define w1 where "w1 = w\<lparr>conns := (conns w)(c \<mapsto> x\<lparr>state := kDisconnecting\<rparr>)\<rparr>"
    have "calm w w1" using x by (simp add: calm_def w1_def map_rel_upd)
    moreover have "runInLoop (conn_loop x) (Fn_shutdownInLoop c) (shutdownInLoop c) w1 = Inr w'"
      using run x True by (simp add: shutdown_def modify_conn_def w1_def)
    then have "shutdownInLoop c w1 = Inr w'"
      using here x by (auto simp: runInLoop_def isInLoopThread_def rbind_Inr_iff deref_Inr_iff conn_here_def w1_def
          split: if_splits)
    then obtain fd where "w' = w1 \<or> w' = shutdownWrite fd w1"
      by (auto simp: shutdownInLoop_def with_conn_Inr_iff assertInLoopThread_Inr_iff split: if_splits)
    moreover have "calm w1 (shutdownWrite fd w1)" for fd by (simp add: shutdownWrite_def calm_def)
    ultimately have "calm w1 w'" by auto
    moreover note \<open>calm w w1\<close>
    ultimately show ?thesis by (blast intro: calm_trans)
  qed (use run x in \<open>simp add: shutdown_def\<close>)
qed

section \<open>The ends of a connection\<close>

text \<open>What establishing and destroying a connection does to the loops.\<close>

lemma calm_loops_trans:
  "map_rel calm_loop a b \<Longrightarrow> map_rel calm_loop b c \<Longrightarrow> map_rel calm_loop a c"
  by (rule map_rel_trans; (assumption | rule calm_parts_trans(3); assumption))

lemma calm_loops: "calm w w' \<Longrightarrow> map_rel calm_loop (loops w) (loops w')"
  by (simp add: calm_def)

lemma removeChannel_loops:
  fixes w :: "'a conn_world_scheme"
  assumes "removeChannel l c w = Inr w'"
  shows "map_rel calm_loop (loops w) (loops w')"
proof -
  obtain e h p where e: "loops w l = Some e" and rem: "Poller_removeChannel c (channels w, loop_poller e) = Inr (h, p)"
      and w': "w' = w\<lparr>channels := h, loops := (loops w)(l \<mapsto> e\<lparr>loop_poller := p\<rparr>)\<rparr>"
    using assms by (auto simp: removeChannel_def assertInLoopThread_def with_poller_def rbind_Inr_iff
        deref_Inr_iff cpp_assert_Inr_iff split: if_splits)
  have "poller_ready (loop_poller e) \<longrightarrow> poller_ready p"
    using rem by (cases "loop_poller e")
      (auto simp: epoll_removeChannel_def epoll_update_def Let_def rbind_Inr_iff cpp_assert_Inr_iff split: if_splits)
  then show ?thesis using e by (simp add: w' map_rel_upd calm_loop_def)
qed

lemma connEstablished_loops:
  fixes w :: "'a conn_world_scheme"
  assumes run: "connEstablished code c w = Inr w'"
    and cb: "\<And>v v'. connection_cb code c v = Inr v' \<Longrightarrow> loops v' = loops v"
  shows "map_rel calm_loop (loops w) (loops w')"
proof -
  obtain k w1 w2 where "modify_conn c (\<lambda>x. x\<lparr>state := kConnected\<rparr>) w = Inr w1" "enableReading k w1 = Inr w2"
      "connection_cb code c w2 = Inr w'"
    using run by (auto simp: connEstablished_def rbind_Inr_iff assertInLoopThread_Inr_iff cpp_assert_Inr_iff
        call_if_set_def split: if_splits)
  then show ?thesis
    using modify_conn_calm [THEN calm_loops] enableReading_calm [THEN calm_loops] cb calm_loops_trans
      calm_conn_steps(3) by metis
qed

lemma connDestroyed_loops:
  fixes w :: "'a conn_world_scheme"
  assumes run: "connDestroyed code c w = Inr w'"
    and cb: "\<And>v v'. connection_cb code c v = Inr v' \<Longrightarrow> loops v' = loops v"
  shows "map_rel calm_loop (loops w) (loops w')"
proof -
  obtain k l w1 w2 w3 where "modify_conn c (\<lambda>x. x\<lparr>state := kDisconnected\<rparr>) w = Inr w1" "disableAll k w1 = Inr w2"
      "connection_cb code c w2 = Inr w3" "removeChannel l k w3 = Inr w'"
    using run by (auto simp: connDestroyed_def rbind_Inr_iff assertInLoopThread_Inr_iff cpp_assert_Inr_iff
        call_if_set_def split: if_splits)
  then show ?thesis
    using modify_conn_calm [THEN calm_loops] disableAll_calm [THEN calm_loops] cb calm_loops_trans
      removeChannel_loops calm_conn_steps(3) by metis
qed

text \<open>The end of file on a server's connection, in its loop: what \<open>handleClose\<close> leaves, written out.\<close>

lemma server_close_eq:
  fixes w :: "'a server_world_scheme"
  assumes at: "conn_at l c fd x ch e p w" and up: "state x = kConnected \<or> state x = kDisconnecting"
    and cb: "closeCb x = Some Cl_TcpServer_removeConnection" and srv: "srv_loop (server w) = l"
    and name: "connections (server w) (conn_name x) \<noteq> None"
  shows "\<exists>p' ch' w'. handleClose (server_code user) c w = Inr w' \<and> same_dispatch ch ch' \<and>
    calm_loop e (e\<lparr>loop_poller := Epoll p'\<rparr>) \<and>
    conn_at l c fd x ch' (queue_functor True (Fn_connDestroyed c) (e\<lparr>loop_poller := Epoll p'\<rparr>)) p' w' \<and>
    w' = w\<lparr>channels := (channels w)(conn_channel x \<mapsto> ch'),
      server := (server w)\<lparr>connections := (connections (server w))(conn_name x := None)\<rparr>,
      loops := (loops w)(l \<mapsto> queue_functor True (Fn_connDestroyed c) (e\<lparr>loop_poller := Epoll p'\<rparr>))\<rparr>"
proof -
  let ?k = "conn_channel x"
  obtain p' ch' where d: "disableAll ?k w = Inr (store_channel l e p' ?k ch' w)"
      "conn_at l c fd x ch' (e\<lparr>loop_poller := Epoll p'\<rparr>) p' (store_channel l e p' ?k ch' w)"
      "same_dispatch ch ch'"
    using disableAll_at [OF at] by blast
  have srv1: "server (store_channel l e p' ?k ch' w) = server w" by (simp add: store_channel_def)
  have "handleClose (server_code user) c w = TcpServer_removeConnection c (store_channel l e p' ?k ch' w)"
    using conn_atD(2,3) [OF at] conn_atD(2) [OF d(2)] up cb d(1)
    by (simp add: handleClose_def conn_at_simps(2) [OF at] call_if_set_def server_code_def)
  then have run: "handleClose (server_code user) c w = Inr (w\<lparr>channels := (channels w)(?k \<mapsto> ch'),
      server := (server w)\<lparr>connections := (connections (server w))(conn_name x := None)\<rparr>,
      loops := (loops w)(l \<mapsto> queue_functor True (Fn_connDestroyed c) (e\<lparr>loop_poller := Epoll p'\<rparr>))\<rparr>)"
    using removeConnection_at [OF d(2)] srv name by (simp add: srv1) (simp add: store_channel_def)
  have "calm_loop e (e\<lparr>loop_poller := Epoll p'\<rparr>)"
    using map_relD [OF calm_loops [OF disableAll_calm [OF d(1)]] conn_atD(8) [OF at]] by simp
  moreover have "conn_at l c fd x ch' (queue_functor True (Fn_connDestroyed c) (e\<lparr>loop_poller := Epoll p'\<rparr>)) p'
      (w\<lparr>channels := (channels w)(?k \<mapsto> ch'),
        server := (server w)\<lparr>connections := (connections (server w))(conn_name x := None)\<rparr>,
        loops := (loops w)(l \<mapsto> queue_functor True (Fn_connDestroyed c) (e\<lparr>loop_poller := Epoll p'\<rparr>))\<rparr>)"
    using d(2) by (simp add: conn_at_def epoll_loop_def store_channel_def)
  ultimately show ?thesis using run d(3) by blast
qed

end
