(* ===== verification/Loop_Turn.thy ===== *)
theory Loop_Turn
  imports Conn_Frames
begin

text \<open>
  One turn of \<open>EventLoop::loop\<close> over epoll in which one channel is readable: what happens before the
  channel's read callback and after it, and the short queues of functors.
\<close>

section \<open>Before the callback\<close>

lemma epoll_ok_size: "epoll_ok l (h, p\<lparr>ep_events_size := n\<rparr>) = epoll_ok l (h, p)"
  by (simp add: epoll_ok_def epoll_watch_def [abs_def])

text \<open>The poller reports one readable channel that is registered.\<close>

lemma poll_one:
  assumes "epoll_ok l (h, p)" and "h k = Some ch" "ch_loop ch = l" "index ch \<noteq> kNew"
    and "0 < ep_events_size p"
  shows "\<exists>p'. Poller_poll (Epoll_report [(r, k)]) (h, Epoll p) =
      Inr (h(k \<mapsto> ch\<lparr>revents := r\<rparr>), Epoll p', [k]) \<and>
    (\<forall>h. epoll_ok l (h, p') = epoll_ok l (h, p)) \<and> 0 < ep_events_size p'"
proof -
  have "ep_channels p (ch_fd ch) = Some k" using epoll_okD(2) [OF assms(1,2,3)] assms(4) by simp
  then show ?thesis using assms(2,5)
    by (intro exI [of _ "if ep_events_size p = 1 then p\<lparr>ep_events_size := 2\<rparr> else p"])
      (auto simp: epoll_poll_def epoll_ok_size)
qed

text \<open>A channel with \<open>POLLIN\<close> reported runs its read callback before what is left of the event.\<close>

lemma handleEvent_readable:
  assumes ch: "channels w k = Some ch" "revents ch = POLLIN" "\<not> tied ch"
    and cb: "readCallback ch = Some cb"
  defines "w0 \<equiv> w\<lparr>channels := (channels w)(k \<mapsto> ch\<lparr>eventHandling := True\<rparr>)\<rparr>"
  shows "handleEvent alive exec now k w =
    rbind (exec cb now w0) (\<lambda>w. rbind (dispatch exec now write_guard writeCallback k w)
      (modify_channel k (\<lambda>ch. ch\<lparr>eventHandling := False\<rparr>)))"
proof -
  have "channels w0 k = Some (ch\<lparr>eventHandling := True\<rparr>)" by (simp add: w0_def)
  then show ?thesis using ch cb
    by (simp add: handleEvent_def handleEventWithGuard_def modify_channel_def [of k _ w]
        dispatch_def [where guard = error_guard] dispatch_def [where guard = close_guard]
        dispatch_def [where guard = read_guard] error_guard_def close_guard_def read_guard_def
        event_masks flip: w0_def)
qed

text \<open>A channel with \<open>POLLOUT\<close> reported runs its write callback only.\<close>

lemma handleEvent_writable:
  assumes ch: "channels w k = Some ch" "revents ch = POLLOUT" "\<not> tied ch"
    and cb: "writeCallback ch = Some cb"
  defines "w0 \<equiv> w\<lparr>channels := (channels w)(k \<mapsto> ch\<lparr>eventHandling := True\<rparr>)\<rparr>"
  shows "handleEvent alive exec now k w =
    rbind (exec cb now w0) (modify_channel k (\<lambda>ch. ch\<lparr>eventHandling := False\<rparr>))"
proof -
  have "channels w0 k = Some (ch\<lparr>eventHandling := True\<rparr>)" by (simp add: w0_def)
  then show ?thesis using ch cb
    by (simp add: handleEvent_def handleEventWithGuard_def modify_channel_def [of k _ w]
        dispatch_def error_guard_def close_guard_def read_guard_def write_guard_def
        event_masks flip: w0_def)
qed

text \<open>
  A turn in which epoll reports one event of one channel: when the event is handled, the world has
  changed in what the poller has written and nothing else.
\<close>

definition reported ::
    "loop_ptr \<Rightarrow> channel_ptr \<Rightarrow> event_mask \<Rightarrow> 'a conn_world_scheme \<Rightarrow> 'a conn_world_scheme \<Rightarrow> bool" where
  "reported l k r w w' \<longleftrightarrow> (\<exists>ch e e'. channels w k = Some ch \<and>
       channels w' = (channels w)(k \<mapsto> ch\<lparr>revents := r\<rparr>) \<and>
       loops w l = Some e \<and> loops w' = (loops w)(l \<mapsto> e') \<and> calm_loop e e') \<and>
     conns w' = conns w \<and> this_thread w' = this_thread w \<and> sent w' = sent w \<and>
     wr_shut w' = wr_shut w \<and> read_answers w' = read_answers w \<and>
     write_answers w' = write_answers w \<and> conn_world.more w' = conn_world.more w"

lemma one_report_turn:
  assumes lp: "epoll_loop l e p w" and size: "0 < ep_events_size p"
    and ch: "channels w k = Some ch" "ch_loop ch = l" "index ch \<noteq> kNew"
  shows "\<exists>e' p' now w'. reported l k r w w' \<and> epoll_loop l e' p' w' \<and>
    loop_turn alive exec_cb exec l (Epoll_report [(r, k)]) w =
      rbind (handleEvent alive exec_cb now k w') (doPendingFunctors exec l)"
proof -
  have e: "loops w l = Some e" "loop_poller e = Epoll p" "threadId e = this_thread w" "epoll_ok l (channels w, p)"
    using lp by (simp_all add: epoll_loop_def)
  define ch1 where "ch1 = ch\<lparr>revents := r\<rparr>"
  obtain p' where p': "Poller_poll (Epoll_report [(r, k)]) (channels w, Epoll p) =
        Inr ((channels w)(k \<mapsto> ch1), Epoll p', [k])"
      "\<forall>h. epoll_ok l (h, p') = epoll_ok l (h, p)" "0 < ep_events_size p'"
    using poll_one [OF e(4) ch size, of r] by (auto simp: ch1_def)
  define e1 where "e1 = e\<lparr>loop_poller := Epoll p', activeChannels := [k]\<rparr>"
  define w1 where "w1 = snd (read_clock (w\<lparr>channels := (channels w)(k \<mapsto> ch1), loops := (loops w)(l \<mapsto> e1)\<rparr>))"
  have w1: "read_clock (w\<lparr>channels := (channels w)(k \<mapsto> ch1), loops := (loops w)(l \<mapsto> e1)\<rparr>) = (clock w 0, w1)"
      "channels w1 = (channels w)(k \<mapsto> ch1)" "loops w1 = (loops w)(l \<mapsto> e1)"
    by (simp_all add: w1_def read_clock_def)
  have "loop_turn alive exec_cb exec l (Epoll_report [(r, k)]) w =
      rbind (handleEvent alive exec_cb (clock w 0) k w1) (doPendingFunctors exec l)"
    using e(1,2) p'(1) w1(1) by (simp add: loop_turn_def rbind_assoc flip: e1_def)
  moreover have "epoll_ok l (channels w1, p')"
    using epoll_ok_same [OF e(4) ch(1), of ch1] p'(2) by (simp add: w1 ch1_def)
  then have "epoll_loop l e1 p' w1" using e(3) by (simp add: epoll_loop_def w1 e1_def) (simp add: w1_def read_clock_def)
  moreover have "reported l k r w w1" unfolding reported_def
  proof (intro conjI exI)
    show "calm_loop e e1" using p'(3) by (simp add: e1_def calm_loop_def)
  qed (use ch(1) e(1) w1 in \<open>simp_all add: w1_def read_clock_def ch1_def\<close>)
  ultimately show ?thesis by blast
qed

text \<open>
  A turn in which epoll reports one channel readable: up to its read callback, the world has changed
  in what the poller has written and nothing else; after it, nothing of the event is left to do.
\<close>

definition polled ::
    "loop_ptr \<Rightarrow> channel_ptr \<Rightarrow> 'a conn_world_scheme \<Rightarrow> 'a conn_world_scheme \<Rightarrow> bool" where
  "polled l k w w' \<longleftrightarrow> (\<exists>ch e e'. channels w k = Some ch \<and>
       channels w' = (channels w)(k \<mapsto> ch\<lparr>revents := POLLIN, eventHandling := True\<rparr>) \<and>
       loops w l = Some e \<and> loops w' = (loops w)(l \<mapsto> e') \<and> calm_loop e e') \<and>
     conns w' = conns w \<and> this_thread w' = this_thread w \<and> sent w' = sent w \<and>
     wr_shut w' = wr_shut w \<and> read_answers w' = read_answers w \<and>
     write_answers w' = write_answers w \<and> conn_world.more w' = conn_world.more w"

definition handled ::
    "(channel_callback \<Rightarrow> timestamp \<Rightarrow> 'a conn_world_scheme \<Rightarrow> 'a conn_world_scheme result) \<Rightarrow>
     (loop_functor \<Rightarrow> 'a conn_world_scheme \<Rightarrow> 'a conn_world_scheme result) \<Rightarrow> loop_ptr \<Rightarrow> channel_ptr \<Rightarrow>
     timestamp \<Rightarrow> 'a conn_world_scheme \<Rightarrow> 'a conn_world_scheme result" where
  "handled exec_cb exec l k now w =
     rbind (dispatch exec_cb now write_guard writeCallback k w) (\<lambda>w.
     rbind (modify_channel k (\<lambda>ch. ch\<lparr>eventHandling := False\<rparr>) w) (doPendingFunctors exec l))"

lemma handled_readable:
  assumes "channels w k = Some ch" and "revents ch = POLLIN"
  shows "handled exec_cb exec l k now w =
    doPendingFunctors exec l (w\<lparr>channels := (channels w)(k \<mapsto> ch\<lparr>eventHandling := False\<rparr>)\<rparr>)"
  using assms by (simp add: handled_def dispatch_def write_guard_def event_masks modify_channel_def)

lemma one_event_turn:
  assumes lp: "epoll_loop l e p w" and size: "0 < ep_events_size p"
    and ch: "channels w k = Some ch" "ch_loop ch = l" "index ch \<noteq> kNew"
    and cb: "readCallback ch = Some cb" "\<not> tied ch"
  shows "\<exists>e' p' now w'. polled l k w w' \<and> epoll_loop l e' p' w' \<and>
    loop_turn alive exec_cb exec l (Epoll_report [(POLLIN, k)]) w =
      rbind (exec_cb cb now w') (handled exec_cb exec l k now)"
proof -
  obtain e1 p1 now w1 where w1: "reported l k POLLIN w w1" "epoll_loop l e1 p1 w1"
      "loop_turn alive exec_cb exec l (Epoll_report [(POLLIN, k)]) w =
        rbind (handleEvent alive exec_cb now k w1) (doPendingFunctors exec l)"
    using one_report_turn [OF lp size ch, of POLLIN alive exec_cb exec] by blast
  define w2 where "w2 = w1\<lparr>channels := (channels w1)(k \<mapsto> ch\<lparr>revents := POLLIN, eventHandling := True\<rparr>)\<rparr>"
  have k: "channels w1 k = Some (ch\<lparr>revents := POLLIN\<rparr>)" using w1(1) ch(1) by (auto simp: reported_def)
  have "handleEvent alive exec_cb now k w1 = rbind (exec_cb cb now w2) (\<lambda>v.
      rbind (dispatch exec_cb now write_guard writeCallback k v)
      (modify_channel k (\<lambda>ch. ch\<lparr>eventHandling := False\<rparr>)))"
    using handleEvent_readable [OF k, of cb] cb by (simp add: w2_def)
  then have "loop_turn alive exec_cb exec l (Epoll_report [(POLLIN, k)]) w =
      rbind (exec_cb cb now w2) (handled exec_cb exec l k now)"
    by (simp add: w1(3) rbind_assoc handled_def [abs_def])
  moreover have "polled l k w w2" using w1(1) ch(1) by (auto simp: polled_def reported_def w2_def)
  moreover have "epoll_loop l e1 p1 w2"
    using w1(2) epoll_ok_same [of l "channels w1" p1 k, OF _ k] by (simp add: epoll_loop_def w2_def)
  ultimately show ?thesis by blast
qed

lemma polled_calm: "polled l k w w' \<Longrightarrow> calm w w'"
  by (auto simp: polled_def calm_def map_rel_upd calm_channel_def)

section \<open>After the callback\<close>

text \<open>After the read callback of the channel.\<close>

lemma unhandled:
  fixes w :: "'a conn_world_scheme"
  assumes loop: "epoll_loop l e p w" and ch: "channels w k = Some ch"
  defines "w' \<equiv> w\<lparr>channels := (channels w)(k \<mapsto> ch\<lparr>eventHandling := False\<rparr>)\<rparr>"
  shows "calm w w'" and "epoll_loop l e p w'"
  using ch loop epoll_ok_same [of l "channels w" p k ch "ch\<lparr>eventHandling := False\<rparr>"]
  by (simp_all add: w'_def calm_def map_rel_upd epoll_loop_def)

lemma no_functors:
  assumes "loops w l = Some e" and "pendingFunctors e = []"
  shows "doPendingFunctors exec l w =
    Inr (w\<lparr>loops := (loops w)(l \<mapsto> e\<lparr>callingPendingFunctors := False\<rparr>)\<rparr>)"
proof -
  have "e\<lparr>pendingFunctors := [], callingPendingFunctors := False\<rparr> = e\<lparr>callingPendingFunctors := False\<rparr>"
    using assms(2) by (cases e) simp
  note same = this
  have "doPendingFunctors exec l w =
      Inr (w\<lparr>loops := (loops w)(l \<mapsto> e\<lparr>pendingFunctors := [], callingPendingFunctors := False\<rparr>)\<rparr>)"
    using assms(1) by (simp add: doPendingFunctors_def swap_pending_def on_loop_def done_pending_def assms(2))
  then show ?thesis unfolding same .
qed

text \<open>A single functor, which leaves the queue of the loop empty.\<close>

lemma one_functor:
  assumes e: "loops w l = Some e" "pendingFunctors e = [f]"
    and run: "exec f (w\<lparr>loops := (loops w)(l \<mapsto> snd (swap_pending e))\<rparr>) = Inr w'" and e': "loops w' l = Some e'"
  shows "doPendingFunctors exec l w = Inr (w'\<lparr>loops := (loops w')(l \<mapsto> done_pending e')\<rparr>)"
  using assms by (simp add: doPendingFunctors_def swap_pending_def on_loop_def)

section \<open>A wakeup\<close>

text \<open>A turn in which only the wakeup descriptor is readable runs the functors that are queued.\<close>

lemma wakeup_turn:
  assumes lp: "epoll_loop l e p w" "0 < ep_events_size p"
    and wake: "channels w k = Some ch" "ch_loop ch = l" "index ch \<noteq> kNew" "\<not> tied ch"
      "readCallback ch = Some (Cb_EventLoop_handleRead l)"
    and cb: "\<And>now v. exec_cb (Cb_EventLoop_handleRead l) now v = on_loop l EventLoop_handleRead v"
  shows "\<exists>e' p' w' ch'. loop_turn alive exec_cb exec l (Epoll_report [(POLLIN, k)]) w =
      rbind (rfold exec (pendingFunctors e) w') (on_loop l done_pending) \<and>
    epoll_loop l e' p' w' \<and> 0 < ep_events_size p' \<and> pendingFunctors e' = [] \<and> looping e' = looping e \<and>
    quitting e' = quitting e \<and> channels w' = (channels w)(k \<mapsto> ch') \<and> same_registration ch ch' \<and>
    conns w' = conns w \<and> this_thread w' = this_thread w \<and> read_answers w' = read_answers w \<and>
    conn_world.more w' = conn_world.more w"
proof -
  obtain e1 p1 now w1 where w1: "polled l k w w1" "epoll_loop l e1 p1 w1"
      "loop_turn alive exec_cb exec l (Epoll_report [(POLLIN, k)]) w =
        rbind (exec_cb (Cb_EventLoop_handleRead l) now w1) (handled exec_cb exec l k now)"
    using one_event_turn [OF lp wake(1-3,5,4), of alive exec_cb exec] by blast
  define ch1 where "ch1 = ch\<lparr>revents := POLLIN, eventHandling := True\<rparr>"
  have calm: "calm_loop e e1" and chans: "channels w1 = (channels w)(k \<mapsto> ch1)"
      and same: "conns w1 = conns w" "this_thread w1 = this_thread w" "conn_world.more w1 = conn_world.more w"
        "read_answers w1 = read_answers w" and size: "0 < ep_events_size p1"
    using w1(1,2) lp wake(1) by (auto simp: polled_def epoll_loop_def ch1_def calm_loop_def)
  let ?e2 = "EventLoop_handleRead e1"
  define w2 where "w2 = w1\<lparr>loops := (loops w1)(l \<mapsto> ?e2)\<rparr>"
  have woken: "on_loop l EventLoop_handleRead w1 = Inr w2" using w1(2) by (simp add: on_loop_def w2_def epoll_loop_def)
  have lp2: "epoll_loop l ?e2 p1 w2" using w1(2) by (simp add: epoll_loop_def w2_def EventLoop_handleRead_def)
  have k2: "channels w2 k = Some ch1" "revents ch1 = POLLIN" by (simp_all add: w2_def chans ch1_def)
  define w3 where "w3 = w2\<lparr>channels := (channels w2)(k \<mapsto> ch1\<lparr>eventHandling := False\<rparr>)\<rparr>"
  have lp3: "epoll_loop l ?e2 p1 w3" unfolding w3_def by (rule unhandled(2) [OF lp2 k2(1)])
  let ?w = "w3\<lparr>loops := (loops w3)(l \<mapsto> snd (swap_pending ?e2))\<rparr>"
  have "loop_turn alive exec_cb exec l (Epoll_report [(POLLIN, k)]) w = doPendingFunctors exec l w3"
    using handled_readable [OF k2, of exec_cb exec l now] by (simp add: w1(3) cb woken w3_def)
  also have "\<dots> = rbind (rfold exec (pendingFunctors e) ?w) (on_loop l done_pending)"
    using lp3 calm by (simp add: doPendingFunctors_def epoll_loop_def swap_pending_def EventLoop_handleRead_def calm_loop_def)
  finally show ?thesis using lp3 calm size same
    by (intro exI [of _ "snd (swap_pending ?e2)"] exI [of _ p1] exI [of _ ?w] exI [of _ "ch1\<lparr>eventHandling := False\<rparr>"])
      (simp add: epoll_loop_def swap_pending_def EventLoop_handleRead_def calm_loop_def w3_def w2_def chans
        same_registration_def ch1_def)
qed

text \<open>What the poller does not watch stays so while registrations stay.\<close>

lemma unregistered_stays:
  assumes "epoll_ok l (h, p)" and "epoll_ok l (h(k \<mapsto> ch'), p')" and "h k = Some ch" "same_registration ch ch'"
    and none: "ep_channels p fd = None"
  shows "ep_channels p' fd = None"
proof (rule ccontr)
  assume "ep_channels p' fd \<noteq> None"
  then obtain j where "ep_channels p' fd = Some j" by blast
  then obtain cj where "(h(k \<mapsto> ch')) j = Some cj" "ch_loop cj = l" "ch_fd cj = fd" "index cj \<noteq> kNew"
    using epoll_okD(1) [OF assms(2)] by (fastforce simp: index_values)
  then obtain cj0 where "h j = Some cj0" "ch_loop cj0 = l" "ch_fd cj0 = fd" "index cj0 \<noteq> kNew"
    using assms(3,4) by (cases "j = k") (auto simp: same_registration_def)
  then show False using epoll_okD(2) [OF assms(1), of j cj0] none by auto
qed

end
