(* ===== verification/Pool_Server.thy ===== *)
theory Pool_Server
  imports Loop_Turn
begin

text \<open>
  A server with threads: the life of a connection whose loop runs in another thread than the
  server's. Every step happens in the thread that the code asks for, and the two loops hand the
  connection to each other through their queues.
\<close>

section \<open>Steps of one loop on one connection\<close>

definition inside ::
    "loop_ptr \<Rightarrow> conn_ptr \<Rightarrow> channel_ptr \<Rightarrow> 'a conn_world_scheme \<Rightarrow> 'a conn_world_scheme \<Rightarrow> bool" where
  "inside l c k w w' \<longleftrightarrow> (\<forall>j. j \<noteq> c \<longrightarrow> conns w' j = conns w j) \<and> (\<forall>j. j \<noteq> k \<longrightarrow> channels w' j = channels w j) \<and>
     (\<forall>j. j \<noteq> l \<longrightarrow> loops w' j = loops w j) \<and> this_thread w' = this_thread w"

lemma inside_trans: "inside l c k w w1 \<Longrightarrow> inside l c k w1 w2 \<Longrightarrow> inside l c k w w2"
  by (simp add: inside_def)

text \<open>An application whose connection callback touches its own state only.\<close>

definition keeps_library :: "'a server_world_scheme conn_code \<Rightarrow> bool" where
  "keeps_library user \<longleftrightarrow> (\<forall>c w. \<exists>w'. connection_cb user c w = Inr w' \<and>
     server_world.truncate w' = server_world.truncate w)"

lemma truncate_same:
  assumes "server_world.truncate w' = server_world.truncate w"
  shows "channels w' = channels w" "loops w' = loops w" "conns w' = conns w" "this_thread w' = this_thread w"
    "server w' = server w" "read_answers w' = read_answers w"
  using assms by (cases w; cases w'; simp add: server_world.truncate_def)+

lemma library_cb:
  assumes "keeps_library user"
  shows "\<exists>w'. connection_cb (server_code user) c w = Inr w' \<and> channels w' = channels w \<and> loops w' = loops w \<and>
    conns w' = conns w \<and> this_thread w' = this_thread w \<and> server w' = server w \<and> read_answers w' = read_answers w"
proof -
  obtain w' where "connection_cb user c w = Inr w'" "server_world.truncate w' = server_world.truncate w"
    using assms unfolding keeps_library_def by blast
  then show ?thesis using truncate_same [of w' w] by (simp add: server_code_def)
qed

lemma library_cb_loops:
  "keeps_library user \<Longrightarrow> connection_cb (server_code user) c v = Inr v' \<Longrightarrow> loops v' = loops v"
  using library_cb [of user c v] by auto

text \<open>The start of a queue of one functor.\<close>

lemma swapped:
  "loop_poller (snd (swap_pending e)) = loop_poller e" "threadId (snd (swap_pending e)) = threadId e"
  "pendingFunctors (snd (swap_pending e)) = []"
  by (simp_all add: swap_pending_def)

lemma done_simps [simp]:
  "loop_poller (done_pending e) = loop_poller e" "threadId (done_pending e) = threadId e"
  "pendingFunctors (done_pending e) = pendingFunctors e"
  by (simp_all add: done_pending_def)

section \<open>In the connection's loop\<close>

lemma pool_established:
  fixes w :: "'a server_world_scheme"
  assumes user: "keeps_library user" and lp: "epoll_loop l e p w" and queue: "pendingFunctors e = [Fn_connEstablished c]"
    and x: "conns w c = Some x" "conn_loop x = l" "state x = kConnecting" "connCb x"
    and ch: "channels w (conn_channel x) = Some ch" "ch_loop ch = l" "index ch = kNew" "events ch = 0"
      "ep_channels p (ch_fd ch) = None"
    and ready: "0 < ep_events_size p"
  shows "\<exists>w' e' p'. doPendingFunctors (server_functor user l) l w = Inr w' \<and>
    conn_at l c (ch_fd ch) (x\<lparr>state := kConnected\<rparr>) (ch\<lparr>events := kReadEvent, index := kAdded\<rparr>) e' p' w' \<and>
    epoll_watch (channels w') p' = (epoll_watch (channels w) p)(ch_fd ch \<mapsto> (kReadEvent, conn_channel x)) \<and>
    pendingFunctors e' = [] \<and> 0 < ep_events_size p' \<and> inside l c (conn_channel x) w w' \<and>
    server w' = server w \<and> read_answers w' = read_answers w"
proof -
  let ?k = "conn_channel x"
  let ?x = "x\<lparr>state := kConnected\<rparr>"
  let ?ch = "ch\<lparr>events := kReadEvent, index := kAdded\<rparr>"
  define e1 where "e1 = snd (swap_pending e)"
  define w1 where "w1 = w\<lparr>loops := (loops w)(l \<mapsto> e1)\<rparr>"
  have e: "loops w l = Some e" "loop_poller e = Epoll p" using lp by (simp_all add: epoll_loop_def)
  have lp1: "epoll_loop l e1 p w1" using lp by (simp add: epoll_loop_def w1_def e1_def swapped)
  have x1: "conns w1 c = Some x" "channels w1 ?k = Some ch" using x(1) ch(1) by (simp_all add: w1_def)
  obtain p2 w2 where w2: "w2 = store_channel l e1 p2 ?k ?ch (w1\<lparr>conns := (conns w1)(c \<mapsto> ?x)\<rparr>)"
      "connEstablished (server_code user) c w1 = connection_cb (server_code user) c w2"
      "conn_at l c (ch_fd ch) ?x ?ch (e1\<lparr>loop_poller := Epoll p2\<rparr>) p2 w2"
      "epoll_watch (channels w2) p2 = (epoll_watch (channels w1) p)(ch_fd ch \<mapsto> (kReadEvent, ?k))"
    using connEstablished_at [OF lp1 x1(1) x(2-4) x1(2) ch(2-5), of "server_code user"] by blast
  obtain w3 where w3: "connection_cb (server_code user) c w2 = Inr w3" "channels w3 = channels w2"
      "loops w3 = loops w2" "conns w3 = conns w2" "this_thread w3 = this_thread w2" "server w3 = server w2"
      "read_answers w3 = read_answers w2"
    using library_cb [OF user, of c w2] by blast
  have run: "connEstablished (server_code user) c w1 = Inr w3" using w2(2) w3(1) by simp
  have "map_rel calm_loop (loops w1) (loops w3)"
    using connEstablished_loops [OF run] library_cb_loops [OF user] by blast
  from map_relD [OF this, of l e1] have "0 < ep_events_size p2"
    using w2(1) w3(3) e(2) ready by (simp add: w1_def calm_loop_def e1_def swapped)
  let ?e = "done_pending (e1\<lparr>loop_poller := Epoll p2\<rparr>)"
  let ?w = "w3\<lparr>loops := (loops w3)(l \<mapsto> ?e)\<rparr>"
  have "loops w3 l = Some (e1\<lparr>loop_poller := Epoll p2\<rparr>)" using w2(1) w3(3) by simp
  then have "doPendingFunctors (server_functor user l) l w = Inr ?w"
    using run by (intro one_functor [OF e(1) queue]) (simp_all add: w1_def e1_def)
  moreover have "conn_at l c (ch_fd ch) ?x ?ch ?e p2 ?w"
    using w2(3) w3 by (simp add: conn_at_def epoll_loop_def)
  moreover have "epoll_watch (channels ?w) p2 = (epoll_watch (channels w) p)(ch_fd ch \<mapsto> (kReadEvent, ?k))"
    using w2(4) w3(2) by (simp add: w1_def)
  moreover have "inside l c ?k w ?w" "server ?w = server w" "read_answers ?w = read_answers w"
    using w3 by (simp_all add: inside_def w2(1) w1_def store_channel_def)
  ultimately show ?thesis using \<open>0 < ep_events_size p2\<close>
    by (intro exI [of _ ?w] exI [of _ ?e] exI [of _ p2]) (simp add: e1_def swapped)
qed

text \<open>The end of file: the loop stops watching and passes the connection on to the server's loop \<open>b\<close>.\<close>

lemma pool_closes:
  fixes w :: "'a server_world_scheme"
  assumes at: "conn_at l c fd x ch e p w" and up: "state x = kConnected"
    and member: "closeCb x = Some Cl_TcpServer_removeConnection" "buffer_ok (inputBuffer x)"
    and srv: "srv_loop (server w) = b" "loops w b = Some e0" "threadId e0 \<noteq> this_thread w" and rd: "read_answers w 0 = Inr []"
  shows "\<exists>in' w' ch' p'. handleRead (server_code user) c now w = Inr w' \<and>
    conn_at l c fd (x\<lparr>inputBuffer := in'\<rparr>) ch' (e\<lparr>loop_poller := Epoll p'\<rparr>) p' w' \<and> same_dispatch ch ch' \<and>
    (\<forall>j. j \<noteq> c \<longrightarrow> conns w' j = conns w j) \<and> (\<forall>j. j \<noteq> conn_channel x \<longrightarrow> channels w' j = channels w j) \<and>
    loops w' = (loops w)(b \<mapsto> queue_functor False (Fn_removeConnectionInLoop c) e0, l \<mapsto> e\<lparr>loop_poller := Epoll p'\<rparr>) \<and>
    this_thread w' = this_thread w \<and> server w' = server w"
proof -
  let ?code = "server_code user"
  from handleRead_eof [OF at member(2) rd, of ?code now] obtain in' w2 where w2:
      "handleRead ?code c now w = handleClose ?code c w2"
      "w2 = (snd (sys_readv w))\<lparr>conns := (conns w)(c \<mapsto> x\<lparr>inputBuffer := in'\<rparr>)\<rparr>"
      "conn_at l c fd (x\<lparr>inputBuffer := in'\<rparr>) ch e p w2" "conn_world.more w2 = conn_world.more w"
    by blast
  let ?x = "x\<lparr>inputBuffer := in'\<rparr>"
  let ?k = "conn_channel x"
  obtain p3 ch3 where dis: "disableAll ?k w2 = Inr (store_channel l e p3 ?k ch3 w2)"
      "conn_at l c fd ?x ch3 (e\<lparr>loop_poller := Epoll p3\<rparr>) p3 (store_channel l e p3 ?k ch3 w2)" "same_dispatch ch ch3"
    using disableAll_at [OF w2(3)] by auto
  let ?v = "store_channel l e p3 ?k ch3 w2"
  let ?w = "?v\<lparr>loops := (loops ?v)(b \<mapsto> queue_functor False (Fn_removeConnectionInLoop c) e0)\<rparr>"
  have same: "server ?v = server w" "this_thread w2 = this_thread w" "loops w2 = loops w"
    using more_server [OF w2(4)] by (simp_all add: w2(2) sys_readv_def store_channel_def)
  have bl: "b \<noteq> l" using srv conn_atD(8,9) [OF at] by auto
  have "handleClose ?code c w2 = TcpServer_removeConnection c ?v"
    using conn_atD(2,3) [OF w2(3)] conn_atD(2) [OF dis(2)] up member(1) dis(1)
    by (simp add: handleClose_def conn_at_simps(2) [OF w2(3)] server_code_def)
  also have "\<dots> = Inr ?w" using srv bl same
    by (simp add: TcpServer_removeConnection_def runInLoop_def queueInLoop_def isInLoopThread_def on_loop_def)
  finally have "handleRead ?code c now w = Inr ?w" using w2(1) by simp
  moreover have "conn_at l c fd ?x ch3 (e\<lparr>loop_poller := Epoll p3\<rparr>) p3 ?w"
    using dis(2) bl by (simp add: conn_at_def epoll_loop_def)
  moreover have "server ?w = server w" "this_thread ?w = this_thread w" using same by simp_all
  moreover have "loops ?w = (loops w)(b \<mapsto> queue_functor False (Fn_removeConnectionInLoop c) e0, l \<mapsto> e\<lparr>loop_poller := Epoll p3\<rparr>)"
    using bl same(3) by (simp add: fun_upd_twist)
  ultimately show ?thesis using dis(3)
    by (intro exI [of _ in'] exI [of _ ?w] exI [of _ ch3] exI [of _ p3]) (simp add: w2(2) sys_readv_def)
qed

lemma pool_eof_turn:
  fixes w :: "'a server_world_scheme"
  assumes at: "conn_at l c fd x ch e p w" and up: "state x = kConnected"
    and member: "closeCb x = Some Cl_TcpServer_removeConnection" "buffer_ok (inputBuffer x)"
    and cb: "readCallback ch = Some (Cb_TcpConnection_handleRead c)" "\<not> tied ch"
    and srv: "srv_loop (server w) = b" "loops w b = Some e0" "threadId e0 \<noteq> this_thread w" and rd: "read_answers w 0 = Inr []"
    and idle: "pendingFunctors e = []" "0 < ep_events_size p"
  shows "\<exists>in' w' ch' e' p'. loop_turn alive (server_callback user) (server_functor user l) l
      (Epoll_report [(POLLIN, conn_channel x)]) w = Inr w' \<and>
    conn_at l c fd (x\<lparr>inputBuffer := in'\<rparr>) ch' e' p' w' \<and> pendingFunctors e' = [] \<and>
    loops w' b = Some (queue_functor False (Fn_removeConnectionInLoop c) e0) \<and>
    (\<forall>j. j \<noteq> conn_channel x \<longrightarrow> channels w' j = channels w j) \<and> server w' = server w \<and> this_thread w' = this_thread w"
proof -
  let ?k = "conn_channel x"
  let ?exec = "server_functor user l"
  note d = conn_atD [OF at]
  obtain e1 p1 now w1 where w1: "polled l ?k w w1" "epoll_loop l e1 p1 w1"
      "loop_turn alive (server_callback user) ?exec l (Epoll_report [(POLLIN, ?k)]) w =
        rbind (handleRead (server_code user) c now w1) (handled (server_callback user) ?exec l ?k now)"
    using one_event_turn [OF d(1) idle(2) d(4,5,7) cb, of alive "server_callback user" ?exec] by auto
  define ch1 where "ch1 = ch\<lparr>revents := POLLIN, eventHandling := True\<rparr>"
  have bl: "b \<noteq> l" using srv d(8,9) by auto
  have eqs: "channels w1 = (channels w)(?k \<mapsto> ch1)" "conns w1 = conns w" "loops w1 b = Some e0"
      "this_thread w1 = this_thread w" "read_answers w1 0 = Inr []" "calm_loop e e1" "server w1 = server w"
    using w1(1,2) d(4,8) rd srv bl more_server by (auto simp: polled_def ch1_def epoll_loop_def)
  have at1: "conn_at l c fd x ch1 e1 p1 w1" using d w1(2) eqs by (simp add: conn_at_def ch1_def)
  have srv1: "srv_loop (server w1) = b" "threadId e0 \<noteq> this_thread w1" using srv by (simp_all add: eqs)
  obtain in' w2 ch2 p2 where w2: "handleRead (server_code user) c now w1 = Inr w2"
      "conn_at l c fd (x\<lparr>inputBuffer := in'\<rparr>) ch2 (e1\<lparr>loop_poller := Epoll p2\<rparr>) p2 w2" "same_dispatch ch1 ch2"
      "\<forall>j. j \<noteq> ?k \<longrightarrow> channels w2 j = channels w1 j"
      "loops w2 = (loops w1)(b \<mapsto> queue_functor False (Fn_removeConnectionInLoop c) e0, l \<mapsto> e1\<lparr>loop_poller := Epoll p2\<rparr>)"
      "this_thread w2 = this_thread w1" "server w2 = server w1"
    using pool_closes [OF at1 up member srv1(1) eqs(3) srv1(2) eqs(5)] by blast
  have ch2: "channels w2 (conn_channel (x\<lparr>inputBuffer := in'\<rparr>)) = Some ch2" "revents ch2 = POLLIN"
    using conn_atD(4) [OF w2(2)] w2(3) by (simp_all add: same_dispatch_def ch1_def)
  define w3 where "w3 = w2\<lparr>channels := (channels w2)(?k \<mapsto> ch2\<lparr>eventHandling := False\<rparr>)\<rparr>"
  have at3: "conn_at l c fd (x\<lparr>inputBuffer := in'\<rparr>) (ch2\<lparr>eventHandling := False\<rparr>) (e1\<lparr>loop_poller := Epoll p2\<rparr>) p2 w3"
    using conn_at_handling [OF w2(2), of False] by (simp add: w3_def)
  let ?e = "(e1\<lparr>loop_poller := Epoll p2\<rparr>)\<lparr>callingPendingFunctors := False\<rparr>"
  let ?w = "w3\<lparr>loops := (loops w3)(l \<mapsto> ?e)\<rparr>"
  have none: "pendingFunctors (e1\<lparr>loop_poller := Epoll p2\<rparr>) = []" using idle(1) eqs(6) by (simp add: calm_loop_def)
  have "loop_turn alive (server_callback user) ?exec l (Epoll_report [(POLLIN, ?k)]) w = Inr ?w"
    using w1(3) w2(1) handled_readable [OF ch2] no_functors [OF conn_atD(8) [OF at3] none] by (simp add: w3_def)
  moreover have "conn_at l c fd (x\<lparr>inputBuffer := in'\<rparr>) (ch2\<lparr>eventHandling := False\<rparr>) ?e p2 ?w"
    using at3 by (simp add: conn_at_def epoll_loop_def)
  moreover have "loops ?w b = Some (queue_functor False (Fn_removeConnectionInLoop c) e0)"
      "\<forall>j. j \<noteq> ?k \<longrightarrow> channels ?w j = channels w j" "server ?w = server w" "this_thread ?w = this_thread w"
    using w2(4-7) bl by (simp_all add: w3_def eqs)
  ultimately show ?thesis using none
    by (intro exI [of _ in'] exI [of _ ?w] exI [of _ "ch2\<lparr>eventHandling := False\<rparr>"] exI [of _ ?e] exI [of _ p2]) simp
qed

section \<open>In the server's loop\<close>

lemma pool_removed:
  fixes w :: "'a server_world_scheme"
  assumes b: "srv_loop (server w) = b" "loops w b = Some e0" "threadId e0 = this_thread w"
      "pendingFunctors e0 = [Fn_removeConnectionInLoop c]"
    and x: "conns w c = Some x" "conn_loop x = l" "loops w l = Some e" "threadId e \<noteq> this_thread w"
    and name: "connections (server w) (conn_name x) = Some c"
  shows "\<exists>e1. doPendingFunctors (server_functor user b) b w =
      Inr (w\<lparr>server := (server w)\<lparr>connections := (connections (server w))(conn_name x := None)\<rparr>,
        loops := (loops w)(l \<mapsto> queue_functor False (Fn_connDestroyed c) e, b \<mapsto> e1)\<rparr>) \<and>
    pendingFunctors e1 = [] \<and> threadId e1 = threadId e0"
proof -
  define e1 where "e1 = snd (swap_pending e0)"
  let ?s = "(server w)\<lparr>connections := (connections (server w))(conn_name x := None)\<rparr>"
  have bl: "b \<noteq> l" using b x by auto
  have e1: "threadId e1 = this_thread w" using b(3) by (simp add: e1_def swapped)
  have "removeConnectionInLoop c (w\<lparr>loops := (loops w)(b \<mapsto> e1)\<rparr>) =
      Inr (w\<lparr>server := ?s, loops := (loops w)(b \<mapsto> e1, l \<mapsto> queue_functor False (Fn_connDestroyed c) e)\<rparr>)"
    using b(1) x name bl e1 by (auto simp: removeConnectionInLoop_def assertInLoopThread_def isInLoopThread_def
        Let_def domI cpp_assert_def queueInLoop_def on_loop_def)
  then have "doPendingFunctors (server_functor user b) b w = Inr (w\<lparr>server := ?s, loops := (loops w)
      (b \<mapsto> e1, l \<mapsto> queue_functor False (Fn_connDestroyed c) e, b \<mapsto> done_pending e1)\<rparr>)"
    using bl by (subst one_functor [OF b(2,4)]) (auto simp: e1_def)
  moreover have "(loops w)(b \<mapsto> e1, l \<mapsto> queue_functor False (Fn_connDestroyed c) e, b \<mapsto> done_pending e1) =
      (loops w)(l \<mapsto> queue_functor False (Fn_connDestroyed c) e, b \<mapsto> done_pending e1)"
    using bl by (simp add: fun_eq_iff)
  ultimately show ?thesis by (intro exI [of _ "done_pending e1"]) (simp add: e1_def swapped)
qed

section \<open>The last step\<close>

lemma pool_destroyed:
  fixes w :: "'a server_world_scheme"
  assumes user: "keeps_library user" and at: "conn_at l c fd x ch e p w"
    and x: "state x = kConnected" "connCb x" and queue: "pendingFunctors e = [Fn_connDestroyed c]"
  shows "\<exists>w' e' p'. doPendingFunctors (server_functor user l) l w = Inr w' \<and> epoll_loop l e' p' w' \<and>
    pendingFunctors e' = [] \<and> inside l c (conn_channel x) w w' \<and> server w' = server w \<and>
    map_option state (conns w' c) = Some kDisconnected \<and>
    map_option index (channels w' (conn_channel x)) = Some kNew"
proof -
  let ?code = "server_code user"
  let ?k = "conn_channel x"
  let ?x = "x\<lparr>state := kDisconnected\<rparr>"
  define e1 where "e1 = snd (swap_pending e)"
  define w1 where "w1 = w\<lparr>loops := (loops w)(l \<mapsto> e1)\<rparr>"
  have at1: "conn_at l c fd x ch e1 p w1"
    using at by (simp add: conn_at_def epoll_loop_def w1_def e1_def swapped)
  have up: "state x = kConnected \<or> state x = kDisconnecting" using x(1) by simp
  have "\<exists>w2. connection_cb ?code c v = Inr w2 \<and> channels w2 = channels v \<and>
      loops w2 = loops v \<and> conns w2 = conns v \<and> this_thread w2 = this_thread v" for v
    using library_cb [OF user, of c v] by blast
  from connDestroyed_at [OF at1 up x(2) this] obtain p1 ch1 w2 p' where w2:
      "connection_cb ?code c (store_channel l e1 p1 ?k ch1 (w1\<lparr>conns := (conns w1)(c \<mapsto> ?x)\<rparr>)) = Inr w2"
      "connDestroyed ?code c w1 = Inr (store_channel l e1 p' ?k (ch1\<lparr>index := kNew\<rparr>) w2)"
      "epoll_loop l (e1\<lparr>loop_poller := Epoll p'\<rparr>) p' (store_channel l e1 p' ?k (ch1\<lparr>index := kNew\<rparr>) w2)"
    by blast
  let ?v = "store_channel l e1 p1 ?k ch1 (w1\<lparr>conns := (conns w1)(c \<mapsto> ?x)\<rparr>)"
  have same: "channels w2 = channels ?v" "loops w2 = loops ?v" "conns w2 = conns ?v"
      "this_thread w2 = this_thread ?v" "server w2 = server ?v"
    using library_cb [OF user, of c ?v] w2(1) by auto
  let ?u = "store_channel l e1 p' ?k (ch1\<lparr>index := kNew\<rparr>) w2"
  let ?e = "done_pending (e1\<lparr>loop_poller := Epoll p'\<rparr>)"
  let ?w = "?u\<lparr>loops := (loops ?u)(l \<mapsto> ?e)\<rparr>"
  have "doPendingFunctors (server_functor user l) l w = Inr ?w"
    using w2(2) by (intro one_functor [OF conn_atD(8) [OF at] queue]) (simp_all add: w1_def e1_def)
  moreover have "epoll_loop l ?e p' ?w" using w2(3) by (simp add: epoll_loop_def)
  moreover have "inside l c ?k w ?w" "server ?w = server w"
    using same by (simp_all add: inside_def w1_def store_channel_def)
  ultimately show ?thesis using same(3)
    by (intro exI [of _ ?w] exI [of _ ?e] exI [of _ p']) (simp add: e1_def swapped store_channel_def)
qed

section \<open>Accepting for another thread\<close>

definition pooled_conn :: "tcp_server \<Rightarrow> loop_ptr \<Rightarrow> channel_ptr \<Rightarrow> sockaddr_in \<Rightarrow> sockaddr_in \<Rightarrow> conn" where
  "pooled_conn s l k local peer = \<lparr>conn_loop = l, conn_channel = k, conn_name = next_name s, state = kConnecting,
     inputBuffer = new_Buffer, outputBuffer = new_Buffer, connCb = srv_connCb s, messaCb = srv_messaCb s,
     closeCb = Some Cl_TcpServer_removeConnection, wriComCb = srv_wriComCb s, highCb = False,
     conn_localAddr = local, conn_peerAddr = peer\<rparr>"

definition conn_channel_of :: "loop_ptr \<Rightarrow> conn_ptr \<Rightarrow> int \<Rightarrow> channel" where
  "conn_channel_of l c fd = (new_Channel l fd)\<lparr>readCallback := Some (Cb_TcpConnection_handleRead c),
     closeCallback := Some (Cb_TcpConnection_handleClose c)\<rparr>"

lemma pool_accepts:
  fixes w :: "'a server_world_scheme" and peer :: sockaddr_in
  assumes b: "srv_loop (server w) = b" "loops w b = Some e0" "threadId e0 = this_thread w"
    and pool: "baseLoop (threadPool (server w)) = b" "pool_ok (threadPool (server w))" "pool_loops (threadPool (server w)) \<noteq> []"
      "pool_loops (threadPool (server w)) ! nat (next_index (threadPool (server w))) = l"
    and l: "loops w l = Some e" "threadId e \<noteq> this_thread w"
  defines "c \<equiv> new_ptrs w 0" and "k \<equiv> new_ptrs w (Suc 0)" and "s \<equiv> server w"
  shows "\<exists>w' n. newConnection user fd peer w = Inr w' \<and>
    conns w' = (conns w)(c \<mapsto> pooled_conn s l k (Socket_getLocalAddr fd w) peer) \<and>
    channels w' = (channels w)(k \<mapsto> conn_channel_of l c fd) \<and>
    loops w' = (loops w)(l \<mapsto> queue_functor False (Fn_connEstablished c) e) \<and> this_thread w' = this_thread w \<and>
    read_answers w' = read_answers w \<and>
    server w' = s\<lparr>nextConnId := nextConnId s + 1, threadPool := (threadPool s)\<lparr>next_index := n\<rparr>,
      connections := (connections s)(next_name s \<mapsto> c)\<rparr>"
proof -
  have e0: "loops w (baseLoop (threadPool s)) = Some e0" using b pool(1) by (simp add: s_def)
  from getNextLoop_ok [OF pool(2) e0 [unfolded s_def] b(3) pool(3)] obtain n where
    n: "getNextLoop w (threadPool s) = Inr (l, (threadPool s)\<lparr>next_index := n\<rparr>)"
    unfolding s_def pool(4) by blast
  let ?w = "w\<lparr>new_ptrs := \<lambda>i. new_ptrs w (Suc (Suc i)), channels := (channels w)(k \<mapsto> conn_channel_of l c fd),
      server := s\<lparr>nextConnId := nextConnId s + 1, threadPool := (threadPool s)\<lparr>next_index := n\<rparr>,
        connections := (connections s)(next_name s \<mapsto> c)\<rparr>,
      conns := (conns w)(c \<mapsto> pooled_conn s l k (Socket_getLocalAddr fd w) peer),
      loops := (loops w)(l \<mapsto> queue_functor False (Fn_connEstablished c) e)\<rparr>"
  have "newConnection user fd peer w = Inr ?w"
    using b l n by (simp add: newConnection_def assertInLoopThread_def isInLoopThread_def
        Let_def alloc_def new_TcpConnection_def setConnectionCallback_def setMessageCallback_def
        setWriteCompleteCallback_def setCloseCallback_def modify_conn_def runInLoop_def queueInLoop_def on_loop_def
        Socket_getLocalAddr_def pooled_conn_def conn_channel_of_def c_def k_def s_def)
  then show ?thesis by (intro exI [of _ ?w] exI [of _ n]) simp
qed

section \<open>The whole life\<close>

text \<open>The poller's map and the kernel's list are determined by the channels that are registered.\<close>

lemma epoll_ok_unique:
  assumes ok: "epoll_ok l (h, p)" "epoll_ok l (h', p')"
    and same: "\<And>c ch. h c = Some ch \<Longrightarrow> index ch \<noteq> kNew \<Longrightarrow> h' c = Some ch"
      "\<And>c ch. h' c = Some ch \<Longrightarrow> index ch \<noteq> kNew \<Longrightarrow> h c = Some ch"
  shows "ep_channels p' = ep_channels p" and "kernel_watch p' = kernel_watch p"
proof -
  have sub: "ep_channels b fd = Some c \<and> g' c = g c"
    if prem: "epoll_ok l (g, a)" "epoll_ok l (g', b)" "\<And>c ch. g c = Some ch \<Longrightarrow> index ch \<noteq> kNew \<Longrightarrow> g' c = Some ch"
      "ep_channels a fd = Some c" for g a g' b fd c
  proof -
    obtain ch where ch: "g c = Some ch" "ch_loop ch = l" "ch_fd ch = fd" "index ch \<noteq> kNew"
      using epoll_okD(1) [OF prem(1,4)] by (auto simp: index_values)
    then show ?thesis using prem(3) [OF ch(1,4)] epoll_okD(2) [OF prem(2)] by auto
  qed
  have forth: "ep_channels p fd = Some c \<Longrightarrow> ep_channels p' fd = Some c \<and> h' c = h c" for fd c
    by (rule sub [OF ok same(1)])
  have conv: "ep_channels p' fd = Some c \<Longrightarrow> ep_channels p fd = Some c \<and> h c = h' c" for fd c
    by (rule sub [OF ok(2,1) same(2)])
  have chans: "ep_channels p' fd = ep_channels p fd" for fd
    using forth [of fd, THEN conjunct1] conv [of fd, THEN conjunct1] by (cases "ep_channels p fd"; cases "ep_channels p' fd") simp_all
  then show "ep_channels p' = ep_channels p" by (simp add: fun_eq_iff)
  have "epoll_watch h' p' = epoll_watch h p"
  proof
    fix fd show "epoll_watch h' p' fd = epoll_watch h p fd"
      using chans [of fd] forth [of fd] by (cases "ep_channels p fd") (simp_all add: epoll_watch_def)
  qed
  then show "kernel_watch p' = kernel_watch p"
    using epoll_okD(3) [OF ok(1)] epoll_okD(3) [OF ok(2)] by (simp add: kernel_watch_def)
qed

text \<open>Accepted in the server's thread, established in the loop's.\<close>

lemma pool_opens:
  fixes w :: "'a server_world_scheme" and peer :: sockaddr_in
  assumes user: "keeps_library user"
    and b: "srv_loop (server w) = b" "loops w b = Some e0" "threadId e0 = this_thread w"
    and pool: "baseLoop (threadPool (server w)) = b" "pool_ok (threadPool (server w))" "pool_loops (threadPool (server w)) \<noteq> []"
      "pool_loops (threadPool (server w)) ! nat (next_index (threadPool (server w))) = l"
    and l: "loops w l = Some e" "threadId e \<noteq> this_thread w" "pendingFunctors e = []"
    and p: "loop_poller e = Epoll p" "epoll_ok l (channels w, p)" "0 < ep_events_size p"
    and cb: "srv_connCb (server w)" and new: "channels w (new_ptrs w (Suc 0)) = None" "ep_channels p fd = None"
  defines "c \<equiv> new_ptrs w 0" and "k \<equiv> new_ptrs w (Suc 0)"
  shows "\<exists>w1 w2 x ch e2 p2. newConnection user fd peer w = Inr w1 \<and>
    doPendingFunctors (server_functor user l) l (w1\<lparr>this_thread := threadId e\<rparr>) = Inr w2 \<and>
    conn_at l c fd x ch e2 p2 w2 \<and> state x = kConnected \<and> connCb x \<and>
    closeCb x = Some Cl_TcpServer_removeConnection \<and> buffer_ok (inputBuffer x) \<and> conn_channel x = k \<and>
    conn_name x = next_name (server w) \<and> readCallback ch = Some (Cb_TcpConnection_handleRead c) \<and> \<not> tied ch \<and>
    kernel_watch p2 = Some ((nonzero_watch (epoll_watch (channels w) p))(fd \<mapsto> kReadEvent)) \<and>
    pendingFunctors e2 = [] \<and> 0 < ep_events_size p2 \<and> loops w2 b = Some e0 \<and> this_thread w2 = threadId e \<and>
    (\<forall>j. j \<noteq> k \<longrightarrow> channels w2 j = channels w j) \<and> read_answers w2 = read_answers w \<and>
    srv_loop (server w2) = b \<and> connections (server w2) = (connections (server w))(next_name (server w) \<mapsto> c)"
proof -
  define x where "x = pooled_conn (server w) l k (Socket_getLocalAddr fd w) peer"
  define ch where "ch = conn_channel_of l c fd"
  have x: "conn_loop x = l" "conn_channel x = k" "conn_name x = next_name (server w)" "state x = kConnecting" "connCb x"
      "closeCb x = Some Cl_TcpServer_removeConnection" "buffer_ok (inputBuffer x)"
    using cb new_Buffer_ok by (simp_all add: x_def pooled_conn_def)
  have ch: "ch_loop ch = l" "index ch = kNew" "events ch = 0" "ch_fd ch = fd" "\<not> tied ch"
      "readCallback ch = Some (Cb_TcpConnection_handleRead c)"
    by (simp_all add: ch_def conn_channel_of_def new_Channel_def index_values)
  have bl: "b \<noteq> l" using b l by auto
  obtain w1 n where w1: "newConnection user fd peer w = Inr w1" "conns w1 = (conns w)(c \<mapsto> x)"
      "channels w1 = (channels w)(k \<mapsto> ch)" "loops w1 = (loops w)(l \<mapsto> queue_functor False (Fn_connEstablished c) e)"
      "read_answers w1 = read_answers w"
      "server w1 = (server w)\<lparr>nextConnId := nextConnId (server w) + 1,
        threadPool := (threadPool (server w))\<lparr>next_index := n\<rparr>,
        connections := (connections (server w))(next_name (server w) \<mapsto> c)\<rparr>"
    using pool_accepts [OF b pool l(1,2), of user fd peer] unfolding c_def k_def x_def ch_def by blast
  let ?e1 = "queue_functor False (Fn_connEstablished c) e"
  let ?v = "w1\<lparr>this_thread := threadId e\<rparr>"
  define u where "u = w\<lparr>this_thread := threadId e\<rparr>"
  have lu: "epoll_loop l e p u" and newu: "channels u k = None"
    using l(1) p new(1) by (simp_all add: epoll_loop_def u_def k_def)
  note fresh = epoll_loop_new_channel [OF lu newu ch(2)]
  have lp1: "epoll_loop l ?e1 p ?v" using lu fresh(2) by (simp add: epoll_loop_def w1(3,4) u_def)
  have v1: "conns ?v c = Some x" "channels ?v (conn_channel x) = Some ch" "ep_channels p (ch_fd ch) = None"
      "pendingFunctors ?e1 = [Fn_connEstablished c]"
    using new(2) ch(4) x(2) l(3) by (simp_all add: w1(2,3))
  let ?ch = "ch\<lparr>events := kReadEvent, index := kAdded\<rparr>"
  let ?x = "x\<lparr>state := kConnected\<rparr>"
  from pool_established [OF user lp1 v1(4,1) x(1,4,5) v1(2) ch(1-3) v1(3) p(3)]
  obtain w2 e2 p2 where w2: "doPendingFunctors (server_functor user l) l ?v = Inr w2"
      "conn_at l c fd ?x ?ch e2 p2 w2" "pendingFunctors e2 = []" "0 < ep_events_size p2" "inside l c k ?v w2"
      "server w2 = server ?v" "read_answers w2 = read_answers ?v"
      "epoll_watch (channels w2) p2 = (epoll_watch (channels ?v) p)(fd \<mapsto> (kReadEvent, k))"
    unfolding ch(4) x(2) by blast
  have watch: "kernel_watch p2 = Some ((nonzero_watch (epoll_watch (channels w) p))(fd \<mapsto> kReadEvent))"
    using kernel_watch_epoll_loop [OF conn_atD(1) [OF w2(2)]] w2(8) fresh(1) by (simp add: w1(3) u_def event_masks)
  have at2: "srv_loop (server w2) = b" "loops w2 b = Some e0" "read_answers w2 = read_answers w"
      "this_thread w2 = threadId e" "\<forall>j. j \<noteq> k \<longrightarrow> channels w2 j = channels w j"
      "connections (server w2) = (connections (server w))(next_name (server w) \<mapsto> c)"
    using w2(5-7) b bl by (simp_all add: inside_def w1(3-6))
  have "readCallback ?ch = Some (Cb_TcpConnection_handleRead c)" "\<not> tied ?ch" "state ?x = kConnected" "connCb ?x"
      "closeCb ?x = Some Cl_TcpServer_removeConnection" "buffer_ok (inputBuffer ?x)" "conn_channel ?x = k"
      "conn_name ?x = next_name (server w)"
    using ch(5,6) x by (simp_all del: next_name_def)
  with w1(1) w2(1-4) watch at2 show ?thesis by (intro exI conjI) assumption+
qed

text \<open>Removed in the server's thread, destroyed in the loop's.\<close>

lemma pool_ends:
  fixes w :: "'a server_world_scheme"
  assumes user: "keeps_library user" and at: "conn_at l c fd x ch e p w" and x: "state x = kConnected" "connCb x"
    and idle: "pendingFunctors e = []" "pendingFunctors e0 = []"
    and b: "loops w b = Some (queue_functor False (Fn_removeConnectionInLoop c) e0)" "threadId e0 \<noteq> this_thread w"
      "srv_loop (server w) = b" "connections (server w) (conn_name x) = Some c"
  shows "\<exists>w1 w2 e2 p2. doPendingFunctors (server_functor user b) b (w\<lparr>this_thread := threadId e0\<rparr>) = Inr w1 \<and>
    doPendingFunctors (server_functor user l) l (w1\<lparr>this_thread := this_thread w\<rparr>) = Inr w2 \<and>
    epoll_loop l e2 p2 w2 \<and> pendingFunctors e2 = [] \<and>
    (\<forall>j. j \<noteq> conn_channel x \<longrightarrow> channels w2 j = channels w j) \<and>
    map_option index (channels w2 (conn_channel x)) = Some kNew \<and> map_option state (conns w2 c) = Some kDisconnected \<and>
    connections (server w2) = (connections (server w))(conn_name x := None)"
proof -
  note d = conn_atD [OF at]
  let ?e0 = "queue_functor False (Fn_removeConnectionInLoop c) e0"
  let ?e4 = "queue_functor False (Fn_connDestroyed c) e"
  let ?v = "w\<lparr>this_thread := threadId e0\<rparr>"
  let ?s = "(server w)\<lparr>connections := (connections (server w))(conn_name x := None)\<rparr>"
  have bl: "b \<noteq> l" using b(1,2) d(8,9) by auto
  have v: "srv_loop (server ?v) = b" "loops ?v b = Some ?e0" "threadId ?e0 = this_thread ?v"
      "pendingFunctors ?e0 = [Fn_removeConnectionInLoop c]" "conns ?v c = Some x" "conn_loop x = l" "loops ?v l = Some e"
      "threadId e \<noteq> this_thread ?v" "connections (server ?v) (conn_name x) = Some c"
    using b d idle(2) by simp_all
  obtain eb where w1: "doPendingFunctors (server_functor user b) b ?v =
      Inr (?v\<lparr>server := ?s, loops := (loops w)(l \<mapsto> ?e4, b \<mapsto> eb)\<rparr>)"
    using pool_removed [OF v, of user] by auto
  define w1' where "w1' = ?v\<lparr>server := ?s, loops := (loops w)(l \<mapsto> ?e4, b \<mapsto> eb)\<rparr>"
  define u where "u = w1'\<lparr>this_thread := this_thread w\<rparr>"
  have u: "channels u = channels w" "server u = ?s" "conn_at l c fd x ch ?e4 p u" "pendingFunctors ?e4 = [Fn_connDestroyed c]"
    using at bl idle(1) by (simp_all add: conn_at_def epoll_loop_def u_def w1'_def)
  obtain w2 e2 p2 where w2: "doPendingFunctors (server_functor user l) l u = Inr w2" "epoll_loop l e2 p2 w2"
      "pendingFunctors e2 = []" "inside l c (conn_channel x) u w2" "server w2 = server u"
      "map_option state (conns w2 c) = Some kDisconnected" "map_option index (channels w2 (conn_channel x)) = Some kNew"
    using pool_destroyed [OF user u(3) x u(4)] by blast
  have "\<forall>j. j \<noteq> conn_channel x \<longrightarrow> channels w2 j = channels w j" using w2(4) by (simp add: inside_def u(1))
  moreover have "connections (server w2) = (connections (server w))(conn_name x := None)" by (simp add: w2(5) u(2))
  ultimately show ?thesis using w1 [folded w1'_def] w2(1) [unfolded u_def] w2(2,3,6,7) by blast
qed

text \<open>
  C9. A connection's life across two threads. In a server whose pool gives the connection to a loop of
  another thread: the server's thread accepts it, the loop's thread establishes it and, at the end of
  file, passes it back, the server's thread takes it out of the map, and the loop's thread destroys
  it. Every step runs in the thread that its assertions ask for and ends normally; after the second
  one the kernel watches the descriptor for reading, next to what it watched before; after the last one,
  the server's map, the poller's map and what the kernel watches are as they were before, the
  queue of the loop is empty, and no channel but the connection's own has changed.
\<close>

theorem pool_connection_life:
  fixes w :: "'a server_world_scheme" and peer :: sockaddr_in
  assumes user: "keeps_library user"
    and b: "srv_loop (server w) = b" "loops w b = Some e0" "threadId e0 = this_thread w" "pendingFunctors e0 = []"
    and pool: "baseLoop (threadPool (server w)) = b" "pool_ok (threadPool (server w))" "pool_loops (threadPool (server w)) \<noteq> []"
      "pool_loops (threadPool (server w)) ! nat (next_index (threadPool (server w))) = l"
    and l: "loops w l = Some e" "threadId e \<noteq> this_thread w" "pendingFunctors e = []"
    and p: "loop_poller e = Epoll p" "epoll_ok l (channels w, p)" "0 < ep_events_size p"
    and server: "srv_connCb (server w)" "connections (server w) (next_name (server w)) = None"
    and new: "channels w (new_ptrs w (Suc 0)) = None" "ep_channels p fd = None"
    and eof: "read_answers w 0 = Inr []"
  shows "\<exists>w1 w2 w3 w4 w5 p2 e5 p5.
    newConnection user fd peer w = Inr w1 \<and>
    doPendingFunctors (server_functor user l) l (w1\<lparr>this_thread := threadId e\<rparr>) = Inr w2 \<and>
    (\<exists>e2. epoll_loop l e2 p2 w2) \<and>
    kernel_watch p2 = Some ((nonzero_watch (epoll_watch (channels w) p))(fd \<mapsto> kReadEvent)) \<and>
    loop_turn alive (server_callback user) (server_functor user l) l
      (Epoll_report [(POLLIN, new_ptrs w (Suc 0))]) w2 = Inr w3 \<and>
    doPendingFunctors (server_functor user b) b (w3\<lparr>this_thread := threadId e0\<rparr>) = Inr w4 \<and>
    doPendingFunctors (server_functor user l) l (w4\<lparr>this_thread := threadId e\<rparr>) = Inr w5 \<and>
    map_option state (conns w5 (new_ptrs w 0)) = Some kDisconnected \<and>
    connections (server w5) = connections (server w) \<and>
    epoll_loop l e5 p5 w5 \<and> pendingFunctors e5 = [] \<and>
    ep_channels p5 = ep_channels p \<and> kernel_watch p5 = kernel_watch p \<and>
    (\<forall>j. j \<noteq> new_ptrs w (Suc 0) \<longrightarrow> channels w5 j = channels w j)"
proof -
  define c where "c = new_ptrs w 0"
  define k where "k = new_ptrs w (Suc 0)"
  let ?name = "next_name (server w)"
  obtain w1 w2 x ch e2 p2 where w2: "newConnection user fd peer w = Inr w1"
      "doPendingFunctors (server_functor user l) l (w1\<lparr>this_thread := threadId e\<rparr>) = Inr w2"
      "conn_at l c fd x ch e2 p2 w2" "state x = kConnected" "connCb x"
      "closeCb x = Some Cl_TcpServer_removeConnection" "buffer_ok (inputBuffer x)" "conn_channel x = k" "conn_name x = ?name"
      "readCallback ch = Some (Cb_TcpConnection_handleRead c)" "\<not> tied ch"
      "kernel_watch p2 = Some ((nonzero_watch (epoll_watch (channels w) p))(fd \<mapsto> kReadEvent))"
      "pendingFunctors e2 = []" "0 < ep_events_size p2" "loops w2 b = Some e0" "this_thread w2 = threadId e"
      "\<forall>j. j \<noteq> k \<longrightarrow> channels w2 j = channels w j" "read_answers w2 = read_answers w"
      "srv_loop (server w2) = b" "connections (server w2) = (connections (server w))(?name \<mapsto> c)"
    using pool_opens [OF user b(1-3) pool l p server(1) new, of peer] unfolding c_def k_def by blast
  have at2: "threadId e0 \<noteq> this_thread w2" "read_answers w2 0 = Inr []" using b(3) l(2) eof w2(16,18) by simp_all
  obtain in' w3 ch3 e3 p3 where w3: "loop_turn alive (server_callback user) (server_functor user l) l
        (Epoll_report [(POLLIN, k)]) w2 = Inr w3"
      "conn_at l c fd (x\<lparr>inputBuffer := in'\<rparr>) ch3 e3 p3 w3" "pendingFunctors e3 = []"
      "loops w3 b = Some (queue_functor False (Fn_removeConnectionInLoop c) e0)"
      "\<forall>j. j \<noteq> k \<longrightarrow> channels w3 j = channels w2 j" "server w3 = server w2" "this_thread w3 = this_thread w2"
    using pool_eof_turn [OF w2(3,4,6,7,10,11,19,15) at2 w2(13,14), of alive user] unfolding w2(8) by blast
  let ?x = "x\<lparr>inputBuffer := in'\<rparr>"
  have x3: "state ?x = kConnected" "connCb ?x" "conn_channel ?x = k" "conn_name ?x = ?name"
      "threadId e0 \<noteq> this_thread w3" "srv_loop (server w3) = b" "connections (server w3) (conn_name ?x) = Some c"
    using w2(4,5,8,9,19,20) w3(6,7) at2(1) by simp_all
  obtain w4 w5 e5 p5 where w5: "doPendingFunctors (server_functor user b) b (w3\<lparr>this_thread := threadId e0\<rparr>) = Inr w4"
      "doPendingFunctors (server_functor user l) l (w4\<lparr>this_thread := this_thread w3\<rparr>) = Inr w5"
      "epoll_loop l e5 p5 w5" "pendingFunctors e5 = []" "\<forall>j. j \<noteq> k \<longrightarrow> channels w5 j = channels w3 j"
      "map_option index (channels w5 k) = Some kNew" "map_option state (conns w5 c) = Some kDisconnected"
      "connections (server w5) = (connections (server w3))(?name := None)"
    using pool_ends [OF user w3(2) x3(1,2) w3(3) b(4) w3(4) x3(5-7)] unfolding x3(3,4) by blast
  have names: "connections (server w5) = connections (server w)"
    using server(2) by (simp add: w5(8) w3(6) w2(20) fun_eq_iff)
  have others: "\<forall>j. j \<noteq> k \<longrightarrow> channels w5 j = channels w j" using w5(5) w3(5) w2(17) by simp
  have "channels w5 c' = Some ch'" if "channels w c' = Some ch'" for c' ch'
    using that others new(1) by (cases "c' = k") (auto simp: k_def)
  moreover have "channels w c' = Some ch'" if "channels w5 c' = Some ch'" "index ch' \<noteq> kNew" for c' ch'
    using that others w5(6) by (cases "c' = k") auto
  moreover have "epoll_ok l (channels w5, p5)" using w5(3) by (simp add: epoll_loop_def)
  ultimately have same: "ep_channels p5 = ep_channels p" "kernel_watch p5 = kernel_watch p"
    using epoll_ok_unique [OF p(2), of "channels w5" p5] by blast+
  have "\<exists>e2. epoll_loop l e2 p2 w2" using conn_atD(1) [OF w2(3)] by blast
  with w2(1,2,12) w3(1) w5(1) w5(2) [unfolded w3(7) w2(16)] w5(3,4,7) names same others show ?thesis
    unfolding c_def k_def by blast
qed

text \<open>The small server with an idle loop of thread 2; every read finds the end of file.\<close>

definition io_loop :: event_loop where
  "io_loop = small_loop\<lparr>threadId := 2, pendingFunctors := []\<rparr>"

definition pool_demo :: server_world where
  "pool_demo = threaded_demo\<lparr>loops := [0 \<mapsto> demo_loop 3, 4 \<mapsto> io_loop]\<rparr>"

theorem pool_connection_life_witness:
  "\<exists>w1 w2 w3 w4 w5 e5 p5.
    newConnection quiet_server 6 (InetAddress_port 4001) pool_demo = Inr w1 \<and>
    doPendingFunctors (server_functor quiet_server 4) 4 (w1\<lparr>this_thread := 2\<rparr>) = Inr w2 \<and>
    loop_turn (\<lambda>_ _. True) (server_callback quiet_server) (server_functor quiet_server 4) 4
      (Epoll_report [(POLLIN, 51)]) w2 = Inr w3 \<and>
    doPendingFunctors (server_functor quiet_server 0) 0 (w3\<lparr>this_thread := 1\<rparr>) = Inr w4 \<and>
    doPendingFunctors (server_functor quiet_server 4) 4 (w4\<lparr>this_thread := 2\<rparr>) = Inr w5 \<and>
    connections (server w5) = [''0.0.0.0:80#1'' \<mapsto> 7] \<and> epoll_loop 4 e5 p5 w5 \<and> kernel_watch p5 = Some Map.empty"
proof -
  have user: "keeps_library quiet_server" by (simp add: keeps_library_def quiet_server_def)
  have next_2: "decimal_int 2 = ''2''" by (simp add: decimal_int_def decimal.simps char_of_def bit_iff_odd)
  have b: "srv_loop (server pool_demo) = 0" "loops pool_demo 0 = Some (demo_loop 3)"
      "threadId (demo_loop 3) = this_thread pool_demo" "pendingFunctors (demo_loop 3) = []"
    by (simp_all add: pool_demo_def threaded_demo_def demo_server_def demo_loop_def small_loop_def server_demo_def)
  have pool: "baseLoop (threadPool (server pool_demo)) = 0" "pool_ok (threadPool (server pool_demo))"
      "pool_loops (threadPool (server pool_demo)) \<noteq> []"
      "pool_loops (threadPool (server pool_demo)) ! nat (next_index (threadPool (server pool_demo))) = 4"
    by (simp_all add: pool_demo_def threaded_demo_def pool_ok_def new_EventLoopThreadPool_def)
  have l: "loops pool_demo 4 = Some io_loop" "threadId io_loop \<noteq> this_thread pool_demo"
      "pendingFunctors io_loop = []"
    by (simp_all add: pool_demo_def threaded_demo_def io_loop_def server_demo_def)
  have p: "loop_poller io_loop = Epoll new_EpollPoller" "epoll_ok 4 (channels pool_demo, new_EpollPoller)"
      "0 < ep_events_size new_EpollPoller"
    by (auto simp: io_loop_def small_loop_def epoll_ok_def pool_demo_def threaded_demo_def server_demo_def
        demo_channel_def new_Channel_def new_EpollPoller_def epoll_watch_def interest_def fun_eq_iff
        kInitEventListSize_def split: if_splits)
  have server: "srv_connCb (server pool_demo)"
      "connections (server pool_demo) (next_name (server pool_demo)) = None"
    by (simp_all add: pool_demo_def threaded_demo_def demo_server_def next_2)
  have new: "channels pool_demo (new_ptrs pool_demo (Suc 0)) = None" "ep_channels new_EpollPoller 6 = None"
      "read_answers pool_demo 0 = Inr []"
    by (simp_all add: pool_demo_def threaded_demo_def server_demo_def new_EpollPoller_def)
  have demo: "threadId io_loop = 2" "new_ptrs pool_demo (Suc 0) = 51" "threadId (demo_loop 3) = 1"
      "connections (server pool_demo) = [''0.0.0.0:80#1'' \<mapsto> 7]" "kernel_watch new_EpollPoller = Some Map.empty"
    by (simp_all add: io_loop_def small_loop_def demo_loop_def pool_demo_def threaded_demo_def server_demo_def demo_server_def
        kernel_watch_def interest_def new_EpollPoller_def nonzero_watch_def fun_eq_iff)
  show ?thesis
    using pool_connection_life [OF user b pool l p server new, of "InetAddress_port 4001" "\<lambda>_ _. True"]
    unfolding demo by blast
qed

end
