(* ===== verification/Tcp_Client.thy ===== *)
theory Tcp_Client
  imports Sockets
begin

text \<open>
  The client side: \<open>Connector\<close> (Connector.h, Connector.cpp), which tries to connect, again and again
  with growing delays, and \<open>TcpClient\<close> (TcpClient.h, TcpClient.cpp), which holds the one connection.
\<close>

section \<open>State\<close>

text \<open>The states of \<open>Connector::State\<close>: disconnected, connecting, connected.\<close>

datatype connector_state = Cs_kDisconnected | Cs_kConnecting | Cs_kConnected

definition kMaxRetryDelayMs :: int where "kMaxRetryDelayMs = 30 * 1000"
definition kInitRetryDelayMs :: int where "kInitRetryDelayMs = 500"

record connector =
  cn_loop :: loop_ptr
  serverAddr :: sockaddr_in
  cn_connect :: bool
  cn_state :: connector_state
  retryDelayMs :: int
  cn_channel :: "channel_ptr option"
  cn_timerId :: timer_id
  cn_cb :: bool

record tcp_client =
  cl_loop :: loop_ptr
  cl_retry :: bool
  cl_connect :: bool
  cl_nextConnId :: "32 word"
  cl_name :: string
  connection :: "conn_ptr option"
  cl_connCb :: bool
  cl_messaCb :: bool
  cl_wriComCb :: bool

record client_world = net_world +
  connector :: connector
  client :: tcp_client

definition new_Connector :: "loop_ptr \<Rightarrow> sockaddr_in \<Rightarrow> connector" where
  "new_Connector l a = \<lparr>cn_loop = l, serverAddr = a, cn_connect = False, cn_state = Cs_kDisconnected,
     retryDelayMs = kInitRetryDelayMs, cn_channel = None, cn_timerId = TimerId None 0, cn_cb = False\<rparr>"

text \<open>The constructor of the client also builds the connector and sets its callback.\<close>

definition new_TcpClient :: "loop_ptr \<Rightarrow> string \<Rightarrow> tcp_client" where
  "new_TcpClient l nameArg = \<lparr>cl_loop = l, cl_retry = False, cl_connect = True, cl_nextConnId = 1,
     cl_name = nameArg, connection = None, cl_connCb = False, cl_messaCb = False, cl_wriComCb = False\<rparr>"

definition modify_connector ::
    "(connector \<Rightarrow> connector) \<Rightarrow> 'a client_world_scheme \<Rightarrow> 'a client_world_scheme" where
  "modify_connector f w = w\<lparr>connector := f (connector w)\<rparr>"

text \<open>The setters; the callbacks themselves are in \<open>client_code\<close>.\<close>

definition Connector_setNewConnectionCallback :: "bool \<Rightarrow> connector \<Rightarrow> connector" where
  "Connector_setNewConnectionCallback b k = k\<lparr>cn_cb := b\<rparr>"

definition TcpClient_setConnectionCallback :: "bool \<Rightarrow> tcp_client \<Rightarrow> tcp_client" where
  "TcpClient_setConnectionCallback b k = k\<lparr>cl_connCb := b\<rparr>"

definition TcpClient_setWriteCompleteCallback :: "bool \<Rightarrow> tcp_client \<Rightarrow> tcp_client" where
  "TcpClient_setWriteCompleteCallback b k = k\<lparr>cl_wriComCb := b\<rparr>"

definition TcpClient_setMessageCallback :: "bool \<Rightarrow> tcp_client \<Rightarrow> tcp_client" where
  "TcpClient_setMessageCallback b k = k\<lparr>cl_messaCb := b\<rparr>"

section \<open>Attempts\<close>

text \<open>The errnos of connect(2), by the case of the switch that they reach.\<close>

definition EINPROGRESS :: int where "EINPROGRESS = 115"
definition EISCONN :: int where "EISCONN = 106"
definition EADDRINUSE :: int where "EADDRINUSE = 98"
definition EADDRNOTAVAIL :: int where "EADDRNOTAVAIL = 99"
definition ECONNREFUSED :: int where "ECONNREFUSED = 111"
definition ENETUNREACH :: int where "ENETUNREACH = 101"

definition under_way :: "int set" where "under_way = {0, EINPROGRESS, EINTR, EISCONN}"
definition retryable :: "int set" where
  "retryable = {EAGAIN, EADDRINUSE, EADDRNOTAVAIL, ECONNREFUSED, ENETUNREACH}"

definition connecting :: "int \<Rightarrow> 'a client_world_scheme \<Rightarrow> 'a client_world_scheme result" where
  "connecting sockfd w =
     (let w = modify_connector (\<lambda>k. k\<lparr>cn_state := Cs_kConnecting\<rparr>) w; l = cn_loop (connector w) in
      cpp_assert (cn_channel (connector w) = None)
        (case alloc w of (chan, w) \<Rightarrow>
         enableWriting chan
           (modify_connector (\<lambda>k. k\<lparr>cn_channel := Some chan\<rparr>)
             (w\<lparr>channels := (channels w)(chan \<mapsto>
                Channel_setErrorCallback Cb_Connector_handleError
                  (Channel_setWriteCallback Cb_Connector_handleWrite (new_Channel l sockfd)))\<rparr>))))"

definition retry :: "int \<Rightarrow> 'a client_world_scheme \<Rightarrow> 'a client_world_scheme result" where
  "retry sockfd w =
     (let w = modify_connector (\<lambda>k. k\<lparr>cn_state := Cs_kDisconnected\<rparr>) (Socket_close sockfd w);
          k = connector w in
      if cn_connect k then
        (case alloc w of (p, w) \<Rightarrow>
         rbind (runAfter (cn_loop k) p (double_div (of_int (retryDelayMs k)) 1000) Fn_connect w) (\<lambda>(tid, w).
         Inr (modify_connector (\<lambda>k. k\<lparr>cn_timerId := tid,
           retryDelayMs := min (retryDelayMs k * 2) kMaxRetryDelayMs\<rparr>) w)))
      else Inr w)"

definition Connector_connect :: "'a client_world_scheme \<Rightarrow> 'a client_world_scheme result" where
  "Connector_connect w =
     (case Socket_createNonblocking w of (sockfd, w) \<Rightarrow>
      case sys_call w of (err, w) \<Rightarrow>
      if err \<in> under_way then connecting sockfd w
      else if err \<in> retryable then retry sockfd w
      else Inr (Socket_close sockfd w))"

definition startInLoop :: "'a client_world_scheme \<Rightarrow> 'a client_world_scheme result" where
  "startInLoop w =
     assertInLoopThread (cn_loop (connector w)) w
       (cpp_assert (cn_state (connector w) = Cs_kDisconnected)
         (if cn_connect (connector w) then Connector_connect w else Inr w))"

definition Connector_start :: "'a client_world_scheme \<Rightarrow> 'a client_world_scheme result" where
  "Connector_start w =
     runInLoop (cn_loop (connector w)) Fn_startInLoop startInLoop
       (modify_connector (\<lambda>k. k\<lparr>cn_connect := True\<rparr>) w)"

definition Connector_restart :: "'a client_world_scheme \<Rightarrow> 'a client_world_scheme result" where
  "Connector_restart w =
     assertInLoopThread (cn_loop (connector w)) w
       (startInLoop (modify_connector (\<lambda>k. k\<lparr>cn_state := Cs_kDisconnected,
          retryDelayMs := kInitRetryDelayMs, cn_connect := True\<rparr>) w))"

definition Connector_stop :: "'a client_world_scheme \<Rightarrow> 'a client_world_scheme result" where
  "Connector_stop w =
     cancel (cn_loop (connector w)) (cn_timerId (connector w))
       (modify_connector (\<lambda>k. k\<lparr>cn_connect := False\<rparr>) w)"

text \<open>The channel of an attempt is taken out of the poller at once and freed by a queued closure.\<close>

definition resetChannel :: "'a client_world_scheme \<Rightarrow> 'a client_world_scheme result" where
  "resetChannel w =
     (case cn_channel (connector w) of
        None \<Rightarrow> Inr w
      | Some chan \<Rightarrow>
          rbind (delete_Channel chan w) (\<lambda>w. Inr (modify_connector (\<lambda>k. k\<lparr>cn_channel := None\<rparr>) w)))"

text \<open>The destructor cancels the timer; then the channel, a member, is freed.\<close>

definition delete_Connector :: "'a client_world_scheme \<Rightarrow> 'a client_world_scheme result" where
  "delete_Connector w =
     rbind (cancel (cn_loop (connector w)) (cn_timerId (connector w)) w) resetChannel"

definition removeAndResetChannel ::
    "'a client_world_scheme \<Rightarrow> (int \<times> 'a client_world_scheme) result" where
  "removeAndResetChannel w =
     (let k = connector w in
      rbind (deref cn_channel k) (\<lambda>chan.
      rbind (deref (channels w) chan) (\<lambda>ch.
      rbind (disableAll chan w) (\<lambda>w.
      rbind (removeChannel (cn_loop k) chan w) (\<lambda>w.
      rbind (queueInLoop (cn_loop k) Fn_resetChannel w) (\<lambda>w.
      Inr (ch_fd ch, w)))))))"

section \<open>The client\<close>

definition TcpClient_removeConnection ::
    "conn_ptr \<Rightarrow> 'a client_world_scheme \<Rightarrow> 'a client_world_scheme result" where
  "TcpClient_removeConnection c w =
     (let l = cl_loop (client w) in
      assertInLoopThread l w
        (rbind (deref (conns w) c) (\<lambda>x.
         cpp_assert (l = conn_loop x)
           (cpp_assert (connection (client w) = Some c)
             (rbind (queueInLoop l (Fn_connDestroyed c)
                 (w\<lparr>client := (client w)\<lparr>connection := None\<rparr>\<rparr>)) (\<lambda>w.
              if cl_retry (client w) \<and> cl_connect (client w) then Connector_restart w else Inr w))))))"

text \<open>The close callback that the destructor leaves behind.\<close>

definition removeConnection_base ::
    "loop_ptr \<Rightarrow> conn_ptr \<Rightarrow> 'a loops_world_scheme \<Rightarrow> 'a loops_world_scheme result" where
  "removeConnection_base l c w = queueInLoop l (Fn_connDestroyed c) w"

definition client_code ::
    "'a client_world_scheme conn_code \<Rightarrow> 'a client_world_scheme conn_code" where
  "client_code user = user\<lparr>close_cb := \<lambda>k. case k of
     Cl_TcpClient_removeConnection \<Rightarrow> TcpClient_removeConnection
   | Cl_removeConnection_base l \<Rightarrow> removeConnection_base l
   | Cl_TcpServer_removeConnection \<Rightarrow> close_cb user k\<rparr>"

text \<open>\<open>snprintf\<close> into \<open>char buf[32]\<close> keeps 31 characters.\<close>

definition TcpClient_newConnection ::
    "'a client_world_scheme conn_code \<Rightarrow> int \<Rightarrow> 'a client_world_scheme \<Rightarrow>
     'a client_world_scheme result" where
  "TcpClient_newConnection user sockfd w =
     assertInLoopThread (cl_loop (client w)) w
       (let k = client w;
            name = cl_name k @ take 31 ('':'' @ toIpPort (Socket_getPeerAddr sockfd w) @ ''#'' @
              decimal_int (sint (cl_nextConnId k))) in
        case alloc (w\<lparr>client := k\<lparr>cl_nextConnId := cl_nextConnId k + 1\<rparr>\<rparr>) of (c, w) \<Rightarrow>
        case alloc w of (chan, w) \<Rightarrow>
        rbind (setConnectionCallback (cl_connCb k) c (new_TcpConnection (cl_loop k) name c chan sockfd
            (Socket_getLocalAddr sockfd w) (Socket_getPeerAddr sockfd w) w)) (\<lambda>w.
        rbind (setMessageCallback (cl_messaCb k) c w) (\<lambda>w.
        rbind (setCloseCallback (Some Cl_TcpClient_removeConnection) c w) (\<lambda>w.
        connEstablished (client_code user) c (w\<lparr>client := (client w)\<lparr>connection := Some c\<rparr>\<rparr>)))))"

definition Connector_handleWrite ::
    "'a client_world_scheme conn_code \<Rightarrow> 'a client_world_scheme \<Rightarrow> 'a client_world_scheme result" where
  "Connector_handleWrite user w =
     (if cn_state (connector w) = Cs_kConnecting then
        rbind (removeAndResetChannel w) (\<lambda>(sockfd, w).
          case getSocketError w of (err, w) \<Rightarrow>
          if err \<noteq> 0 then Inr w
          else if isSelfConnection sockfd w then retry sockfd w
          else
            (let w = modify_connector (\<lambda>k. k\<lparr>cn_state := Cs_kConnected\<rparr>) w in
             if cn_connect (connector w)
             then call_if_set (cn_cb (connector w)) (TcpClient_newConnection user sockfd w)
             else Inr (Socket_close sockfd w)))
      else cpp_assert (cn_state (connector w) = Cs_kDisconnected) (Inr w))"

definition Connector_handleError :: "'a client_world_scheme \<Rightarrow> 'a client_world_scheme result" where
  "Connector_handleError w =
     (if cn_state (connector w) = Cs_kConnecting then
        rbind (removeAndResetChannel w) (\<lambda>(sockfd, w).
          case getSocketError w of (err, w) \<Rightarrow> retry sockfd w)
      else Inr w)"

definition TcpClient_connect :: "'a client_world_scheme \<Rightarrow> 'a client_world_scheme result" where
  "TcpClient_connect w = Connector_start (w\<lparr>client := (client w)\<lparr>cl_connect := True\<rparr>\<rparr>)"

definition TcpClient_disconnect :: "'a client_world_scheme \<Rightarrow> 'a client_world_scheme result" where
  "TcpClient_disconnect w =
     (let w = w\<lparr>client := (client w)\<lparr>cl_connect := False\<rparr>\<rparr> in
      case connection (client w) of None \<Rightarrow> Inr w | Some c \<Rightarrow> shutdown c w)"

definition TcpClient_stop :: "'a client_world_scheme \<Rightarrow> 'a client_world_scheme result" where
  "TcpClient_stop w = Connector_stop (w\<lparr>client := (client w)\<lparr>cl_connect := False\<rparr>\<rparr>)"

definition enableRetry :: "'a client_world_scheme \<Rightarrow> 'a client_world_scheme" where
  "enableRetry w = w\<lparr>client := (client w)\<lparr>cl_retry := True\<rparr>\<rparr>"

text \<open>What the queued closures (of the loop \<open>l\<close>) and the channels' callbacks of a client do.\<close>

fun client_functor ::
    "'a client_world_scheme conn_code \<Rightarrow> loop_ptr \<Rightarrow> loop_functor \<Rightarrow> 'a client_world_scheme \<Rightarrow>
     'a client_world_scheme result" where
  "client_functor user l Fn_startInLoop w = startInLoop w"
| "client_functor user l Fn_connect w = Connector_connect w"
| "client_functor user l Fn_resetChannel w = resetChannel w"
| "client_functor user l (Fn_addTimerInLoop p) w = assertInLoopThread l w (addTimerInLoop_at l p w)"
| "client_functor user l (Fn_cancelInLoop t) w = assertInLoopThread l w (cancelInLoop_at l t w)"
| "client_functor user l f w = conn_functor (client_code user) f w"

fun client_callback ::
    "'a client_world_scheme conn_code \<Rightarrow> channel_callback \<Rightarrow> timestamp \<Rightarrow> 'a client_world_scheme \<Rightarrow>
     'a client_world_scheme result" where
  "client_callback user Cb_Connector_handleWrite now w = Connector_handleWrite user w"
| "client_callback user Cb_Connector_handleError now w = Connector_handleError w"
| "client_callback user (Cb_EventLoop_handleRead l) now w = on_loop l EventLoop_handleRead w"
| "client_callback user (Cb_TimerQueue_handleRead l) now w =
     TimerQueue_handleRead (client_functor user l) l w"
| "client_callback user cb now w = conn_callback (client_code user) cb now w"


section \<open>Backoff\<close>

text \<open>A delay that is a multiple of 500 milliseconds is a number of half seconds, exactly.\<close>

lemma delay_seconds:
  assumes "\<bar>m\<bar> < 2 ^ 53"
  shows "double_div (of_int (500 * m)) 1000 = of_int m / 2"
proof -
  have "(of_int (500 * m) / 1000 :: rat) = of_int m * 2 powi (-1)" by (simp add: power_int_minus)
  from double_round_exact [OF this assms] show ?thesis by (simp add: double_div_def)
qed

definition backoff :: "nat \<Rightarrow> int" where
  "backoff n = min (kInitRetryDelayMs * 2 ^ n) kMaxRetryDelayMs"

lemma backoff_step: "min (backoff n * 2) kMaxRetryDelayMs = backoff (Suc n)"
  by (simp add: backoff_def kInitRetryDelayMs_def kMaxRetryDelayMs_def)

lemma backoff_half_seconds: "\<exists>m. backoff n = 500 * m \<and> 0 < m \<and> m \<le> 60"
proof (cases "(2::int) ^ n \<le> 60")
  case True
  then show ?thesis
    by (intro exI [of _ "2 ^ n"]) (simp add: backoff_def kInitRetryDelayMs_def kMaxRetryDelayMs_def)
next
  case False
  then show ?thesis
    by (intro exI [of _ 60]) (simp add: backoff_def kInitRetryDelayMs_def kMaxRetryDelayMs_def)
qed

lemma addTime_backoff:
  "addTime t (double_div (of_int (backoff n)) 1000) =
    Timestamp (microSecondsSinceEpoch t + word_of_int (backoff n * 1000))"
proof -
  obtain m where m: "backoff n = 500 * m" "0 < m" "m \<le> 60" using backoff_half_seconds by blast
  have half: "double_div (of_int (backoff n)) 1000 = of_int m / 2"
    unfolding m(1) using m by (intro delay_seconds) simp
  have "m * 500000 = backoff n * 1000" using m(1) by simp
  moreover have "addTime t (of_int m / 2) = Timestamp (microSecondsSinceEpoch t + word_of_int (m * 500000))"
    by (rule addTime_half_seconds) (use m(2,3) in simp)
  ultimately show ?thesis by (simp only: half)
qed

text \<open>In the loop's thread, a timer that fires once is scheduled, whatever the queue holds.\<close>

lemma runAfter_ok:
  assumes lp: "loops w l = Some e" "threadId e = this_thread w"
    and q: "queues w l = Some q" "tq_ok held q" and p: "objs q p = None" "p < UINTPTR_MAX"
  shows "\<exists>w' q'. runAfter l p secs cb w = Inr (TimerId (Some p) (timer_seq w), w') \<and>
    queues w' l = Some q' \<and> tq_ok held q' \<and>
    schedule q' = (schedule q)(p \<mapsto> new_Timer (addTime (clock w 0) secs) cb 0 (timer_seq w)) \<and>
    loops_world.more w' = loops_world.more w \<and> channels w' = channels w \<and> loops w' = loops w \<and>
    this_thread w' = this_thread w"
proof -
  define t where "t = new_Timer (addTime (clock w 0) secs) cb 0 (timer_seq w)"
  define q1 where "q1 = q\<lparr>objs := (objs q)(p \<mapsto> t)\<rparr>"
  note new = allocate_ok(1) [OF q(2) p(1), of t, folded q1_def] allocate_ok(2,3) [OF q(2) p(1)]
  have t1: "objs q1 p = Some t" by (simp add: q1_def)
  have free: "p \<notin> snd ` set (timers q1)" using new(2) by (simp add: q1_def)
  obtain q2 where q2: "addTimerInLoop (clock w 1) p q1 = Inr q2" "tq_ok held q2"
      "schedule q2 = (schedule q1)(p \<mapsto> t)"
    using addTimerInLoop_ok [OF new(1) t1 p(2) free new(3)] by blast
  have t2: "objs q2 p = Some t"
    using fun_cong [OF q2(3), of p] by (auto simp: schedule_def split: if_splits)
  have seq: "sequence t = timer_seq w" by (simp add: t_def new_Timer_def)
  have "schedule q1 = schedule q" using new(2) by (auto simp: schedule_def q1_def fun_eq_iff)
  define w' where "w' = w\<lparr>clock := \<lambda>i. clock w (Suc (Suc i)), queues := (queues w)(l \<mapsto> q2),
    timer_seq := timer_seq w + 1\<rparr>"
  have "runAfter l p secs cb w = Inr (TimerId (Some p) (timer_seq w), w')"
    using lp q(1) q2(1) t2 seq by (simp add: runAfter_def runAt_def addTimer_def allocate_timer_def on_queue_def
        read_clock_def runInLoop_def isInLoopThread_def assertInLoopThread_def addTimerInLoop_at_def
        t_def [symmetric] q1_def [symmetric] w'_def)
  moreover have "queues w' l = Some q2" "loops_world.more w' = loops_world.more w"
      "channels w' = channels w" "loops w' = loops w" "this_thread w' = this_thread w"
    by (simp_all add: w'_def)
  ultimately show ?thesis
    using q2(2,3) \<open>schedule q1 = schedule q\<close> by (intro exI [of _ w'] exI [of _ q2]) (simp add: t_def)
qed

text \<open>
  C19. Backoff, for an attempt that \<open>connect(2)\<close> refuses at once. When \<open>connect(2)\<close> fails immediately
  with \<open>EAGAIN\<close>, \<open>EADDRINUSE\<close>, \<open>EADDRNOTAVAIL\<close>, \<open>ECONNREFUSED\<close> or \<open>ENETUNREACH\<close>, in the loop's thread and
  while \<open>connect_\<close> is set, then attempt number \<open>n\<close> (counted from 0 since the last start) closes its
  descriptor, leaves the connector disconnected, and schedules exactly one timer, for the next attempt,
  \<open>min (500 * 2 ^ n) 30000\<close> milliseconds from now; the delay for the attempt after that is the next of
  this sequence. It does not fail. An attempt that fails later, with a pending error on its socket, is
  not covered: the code neither retries nor closes it (C38).
\<close>

theorem connect_backoff:
  assumes lp: "loops w l = Some e" "threadId e = this_thread w" and l: "cn_loop (connector w) = l"
    and q: "queues w l = Some q" "tq_ok held q"
    and p: "objs q (new_ptrs w 0) = None" "new_ptrs w 0 < UINTPTR_MAX"
    and want: "cn_connect (connector w)" and delay: "retryDelayMs (connector w) = backoff n"
    and err: "call_answers w 0 \<in> retryable"
  shows "\<exists>w' q'. Connector_connect w = Inr w' \<and> closed_fds w' = closed_fds w @ [fd_answers w 0] \<and>
    cn_state (connector w') = Cs_kDisconnected \<and> retryDelayMs (connector w') = backoff (Suc n) \<and>
    queues w' l = Some q' \<and> tq_ok held q' \<and> schedule q' = (schedule q)(new_ptrs w 0 \<mapsto>
      new_Timer (Timestamp (microSecondsSinceEpoch (clock w 0) + word_of_int (backoff n * 1000)))
        Fn_connect 0 (timer_seq w))"
proof -
  obtain sockfd w1 where s1: "Socket_createNonblocking w = (sockfd, w1)" by force
  obtain r w2 where s2: "sys_call w1 = (r, w2)" by force
  have err': "r \<in> retryable" "r \<notin> under_way"
    using err s1 s2 by (auto simp: Socket_createNonblocking_def sys_call_def retryable_def under_way_def
        EAGAIN_def EADDRINUSE_def EADDRNOTAVAIL_def ECONNREFUSED_def ENETUNREACH_def EINPROGRESS_def
        EINTR_def EISCONN_def)
  have fd: "sockfd = fd_answers w 0" using s1 by (simp add: Socket_createNonblocking_def)
  define w3 where "w3 = modify_connector (\<lambda>k. k\<lparr>cn_state := Cs_kDisconnected\<rparr>) (Socket_close sockfd w2)"
  obtain p w4 where al: "alloc w3 = (p, w4)" by force
  have w4: "loops w4 l = Some e" "threadId e = this_thread w4" "queues w4 l = Some q" "p = new_ptrs w 0"
      "timer_seq w4 = timer_seq w" "clock w4 = clock w"
    using lp q(1) al s1 s2 by (auto simp: alloc_def w3_def modify_connector_def Socket_close_def
        sys_call_def Socket_createNonblocking_def)
  have k4: "connector w4 = (connector w)\<lparr>cn_state := Cs_kDisconnected\<rparr>"
      "closed_fds w4 = closed_fds w @ [fd_answers w 0]"
    using al s1 s2 fd by (auto simp: alloc_def w3_def modify_connector_def Socket_close_def
        sys_call_def Socket_createNonblocking_def)
  let ?secs = "double_div (of_int (backoff n)) 1000"
  have p4: "objs q p = None" "p < UINTPTR_MAX" using p w4(4) by simp_all
  obtain w5 q5 where w5: "runAfter l p ?secs Fn_connect w4 = Inr (TimerId (Some p) (timer_seq w4), w5)"
      "queues w5 l = Some q5" "tq_ok held q5"
      "schedule q5 = (schedule q)(p \<mapsto> new_Timer (addTime (clock w4 0) ?secs) Fn_connect 0 (timer_seq w4))"
      "loops_world.more w5 = loops_world.more w4"
    using runAfter_ok [OF w4(1,2,3) q(2) p4, of ?secs Fn_connect] by blast
  have k5: "connector w5 = connector w4" "closed_fds w5 = closed_fds w4"
    using w5(5) by (cases w5; cases w4; simp)+
  define w6 where "w6 = modify_connector (\<lambda>k. k\<lparr>cn_timerId := TimerId (Some p) (timer_seq w4),
      retryDelayMs := min (retryDelayMs k * 2) kMaxRetryDelayMs\<rparr>) w5"
  have "connector w3 = connector w4" using al by (auto simp: alloc_def)
  then have "retry sockfd w2 = Inr w6"
    using w5(1) al want delay l k4(1)
    by (simp add: retry_def w3_def [symmetric] Let_def w6_def)
  then have "Connector_connect w = Inr w6" using s1 s2 err' by (simp add: Connector_connect_def)
  then show ?thesis
    using w5(2-4) k5 k4 w4(4-6) delay backoff_step [of n]
    by (intro exI [of _ w6] exI [of _ q5]) (simp add: w6_def modify_connector_def addTime_backoff)
qed


text \<open>Three attempts have been refused; the next one is refused as well.\<close>

definition client_demo :: client_world where
  "client_demo = \<lparr>channels = [20 \<mapsto> (new_Channel 0 5)\<lparr>events := 4, index := 1\<rparr>],
     queues = [0 \<mapsto> new_TimerQueue],
     clock = clock empty_world, timer_seq = 0, loops = [0 \<mapsto> demo_loop 4], this_thread = 1,
     loopInThread = [1 \<mapsto> 0], conns = Map.empty, sent = (\<lambda>_. []), wr_shut = {}, closed_fds = [],
     write_answers = (\<lambda>_. 2), read_answers = (\<lambda>_. Inr []), fd_answers = (\<lambda>i. 9 + int i),
     call_answers = (\<lambda>_. ECONNREFUSED), accept_answers = (\<lambda>_. Inl EMFILE),
     local_addr = (\<lambda>_. Some (InetAddress_port 4000)), peer_addr = (\<lambda>_. Some (InetAddress_port 80)),
     socket_errors = (\<lambda>_. ECONNREFUSED), listening_fds = {}, sock_opts = [], new_ptrs = (\<lambda>i. 50 + i),
     connector = (new_Connector 0 (InetAddress_port 80))\<lparr>cn_connect := True, retryDelayMs := 4000\<rparr>,
     client = new_TcpClient 0 ''client''\<rparr>"

definition quiet_client :: "client_world conn_code" where
  "quiet_client = \<lparr>connection_cb = \<lambda>c w. Inr w, message_cb = \<lambda>c t w. Inr w, close_cb = \<lambda>k c w. Inr w,
     write_complete_cb = \<lambda>c w. Inr w\<rparr>"

lemma new_queue_ok: "tq_ok [] new_TimerQueue"
  by (simp add: tq_ok_def new_TimerQueue_def)

theorem connect_backoff_witness:
  "\<exists>w' q'. Connector_connect client_demo = Inr w' \<and> closed_fds w' = [9] \<and>
    retryDelayMs (connector w') = 8000 \<and> queues w' 0 = Some q' \<and>
    map_option expiration (schedule q' 50) = Some (Timestamp 5000000)"
proof -
  have "loops client_demo 0 = Some (demo_loop 4)" "threadId (demo_loop 4) = this_thread client_demo"
    "cn_loop (connector client_demo) = 0" "queues client_demo 0 = Some new_TimerQueue"
    by (simp_all add: client_demo_def demo_loop_def small_loop_def new_Connector_def)
  note args = this(1-4) new_queue_ok
  have "objs new_TimerQueue (new_ptrs client_demo 0) = None" "new_ptrs client_demo 0 < UINTPTR_MAX"
    "cn_connect (connector client_demo)" "retryDelayMs (connector client_demo) = backoff 3"
    "call_answers client_demo 0 \<in> retryable"
    by (simp_all add: client_demo_def new_TimerQueue_def UINTPTR_MAX_def new_Connector_def backoff_def
        kInitRetryDelayMs_def kMaxRetryDelayMs_def retryable_def)
  note connect_backoff [OF args this]
  then show ?thesis
    by (auto simp: client_demo_def backoff_def kInitRetryDelayMs_def kMaxRetryDelayMs_def new_Timer_def
        empty_world_def)
qed

section \<open>The end of an attempt\<close>

lemma removeAndResetChannel_ok:
  assumes lp: "epoll_loop l e p w" and l: "cn_loop (connector w) = l"
    and chan: "cn_channel (connector w) = Some chan" "channels w chan = Some ch" "ch_loop ch = l"
      "index ch \<noteq> kNew"
  shows "\<exists>w' e' p'. removeAndResetChannel w = Inr (ch_fd ch, w') \<and> epoll_loop l e' p' w' \<and>
    ep_channels p' (ch_fd ch) = None \<and> e' = queue_functor True Fn_resetChannel (e\<lparr>loop_poller := Epoll p'\<rparr>) \<and>
    channels w' = (channels w)(chan \<mapsto> ch\<lparr>events := 0, index := kNew\<rparr>) \<and> loops w' = (loops w)(l \<mapsto> e') \<and>
    this_thread w' = this_thread w \<and> loops_world.more w' = loops_world.more w \<and> queues w' = queues w"
proof -
  have reg: "ep_channels p (ch_fd ch) = Some chan"
    using lp chan(2-4) epoll_okD(2) by (fastforce simp: epoll_loop_def)
  define ch1 where
    "ch1 = ch\<lparr>events := 0, index := (if index ch = kAdded \<and> (0::event_mask) = 0 then kDeleted else kAdded)\<rparr>"
  have f: "without_events ch = ch\<lparr>events := 0\<rparr>" by (simp add: without_events_def event_masks)
  obtain p1 where p1: "disableAll chan w = Inr (store_channel l e p1 chan ch1 w)"
      "epoll_loop l (e\<lparr>loop_poller := Epoll p1\<rparr>) p1 (store_channel l e p1 chan ch1 w)"
      "ep_channels p1 = (ep_channels p)(ch_fd ch \<mapsto> chan)"
    using change_events_ok [where f = without_events, OF lp chan(2,3) f, folded ch1_def] chan(4)
    by (auto simp: disableAll_def)
  define w1 where "w1 = store_channel l e p1 chan ch1 w"
  have ch1: "channels w1 chan = Some ch1" "ch_loop ch1 = l" "ch_fd ch1 = ch_fd ch" "events ch1 = 0"
    using chan(3) by (simp_all add: w1_def ch1_def)
  have "ep_channels p1 (ch_fd ch1) = Some chan" using p1(3) ch1(3) by simp
  from Channel_remove_ok [OF p1(2) [folded w1_def] ch1(1,2) this ch1(4)]
  obtain p2 where p2: "Channel_remove chan w1 = Inr (store_channel l (e\<lparr>loop_poller := Epoll p1\<rparr>) p2 chan
        (ch1\<lparr>index := kNew\<rparr>) w1)"
      "epoll_loop l (e\<lparr>loop_poller := Epoll p2\<rparr>) p2 (store_channel l (e\<lparr>loop_poller := Epoll p1\<rparr>) p2 chan
        (ch1\<lparr>index := kNew\<rparr>) w1)"
      "ep_channels p2 = (ep_channels p1)(ch_fd ch := None)"
    unfolding ch1(3) by auto
  define w2 where "w2 = store_channel l (e\<lparr>loop_poller := Epoll p1\<rparr>) p2 chan (ch1\<lparr>index := kNew\<rparr>) w1"
  define e2 where "e2 = queue_functor True Fn_resetChannel (e\<lparr>loop_poller := Epoll p2\<rparr>)"
  define w3 where "w3 = w2\<lparr>loops := (loops w2)(l \<mapsto> e2)\<rparr>"
  have thr: "threadId e = this_thread w2" using lp by (simp add: epoll_loop_def w2_def w1_def)
  have "removeAndResetChannel w = Inr (ch_fd ch, w3)"
    using chan l p1(1) p2(1) ch1(1,2) thr
    by (simp add: removeAndResetChannel_def Let_def w1_def [symmetric] Channel_remove_def
        w2_def [symmetric] queueInLoop_def isInLoopThread_def on_loop_def)
      (simp add: w2_def w3_def e2_def)
  moreover have "epoll_loop l e2 p2 w3"
    using p2(2) by (simp add: epoll_loop_def w3_def w2_def [symmetric] e2_def)
  moreover have "loops_world.more w3 = loops_world.more w" "queues w3 = queues w" "this_thread w3 = this_thread w"
      "channels w3 = (channels w)(chan \<mapsto> ch\<lparr>events := 0, index := kNew\<rparr>)" "loops w3 = (loops w)(l \<mapsto> e2)"
    by (simp_all add: w3_def w2_def w1_def store_channel_def ch1_def)
  ultimately show ?thesis using p2(3)
    by (intro exI [of _ w3] exI [of _ e2] exI [of _ p2]) (simp add: e2_def)
qed

lemma more_client: "loops_world.more w' = loops_world.more w \<Longrightarrow>
    connector w' = connector (w :: 'a client_world_scheme) \<and> client w' = client w \<and>
    closed_fds w' = closed_fds w \<and> socket_errors w' = socket_errors w"
  by (cases w; cases w') simp



text \<open>The same client while its first attempt, on descriptor 5, is under way.\<close>

definition attempt_demo :: "int \<Rightarrow> client_world" where
  "attempt_demo err = client_demo\<lparr>socket_errors := (\<lambda>_. err),
     connector := (connector client_demo)\<lparr>cn_state := Cs_kConnecting, cn_channel := Some 20, cn_cb := True\<rparr>\<rparr>"

lemma attempt_loop: "epoll_loop 0 (demo_loop 4) (demo_poller 4) (attempt_demo err)"
  by (auto simp: epoll_loop_def epoll_ok_def attempt_demo_def client_demo_def demo_loop_def
      demo_poller_def small_loop_def index_values epoll_watch_def new_EpollPoller_def new_Channel_def
      interest_def ctl_step_def fun_eq_iff split: if_splits)

lemma attempt_simps [simp]:
  "cn_loop (connector (attempt_demo err)) = 0" "cn_channel (connector (attempt_demo err)) = Some 20"
  "channels (attempt_demo err) 20 = Some ((new_Channel 0 5)\<lparr>events := 4, index := 1\<rparr>)"
  "cn_state (connector (attempt_demo err)) = Cs_kConnecting" "socket_errors (attempt_demo err) = (\<lambda>_. err)"
  "closed_fds (attempt_demo err) = []" "ch_loop (new_Channel l fd) = l" "ch_fd (new_Channel l fd) = fd"
  by (simp_all add: attempt_demo_def client_demo_def new_Connector_def new_Channel_def)


text \<open>
  C37. No second connection. When the connection of a client without retry closes, the client lets go
  of it and queues \<open>connDestroyed\<close>, but the connector stays in its connected state; a later
  \<open>TcpClient::connect\<close> in the loop's thread then fails the assertion of \<open>startInLoop\<close> and ends the
  program.
\<close>

theorem second_connect_fails:
  assumes at: "conn_at l c fd x ch e p w" and up: "state x = kConnected \<or> state x = kDisconnecting"
    and cb: "closeCb x = Some Cl_TcpClient_removeConnection" and l: "cl_loop (client w) = l" "cn_loop (connector w) = l"
    and own: "connection (client w) = Some c" "\<not> cl_retry (client w)"
    and st: "cn_state (connector w) = Cs_kConnected"
  shows "\<exists>w' e'. handleClose (client_code user) c w = Inr w' \<and> connection (client w') = None \<and>
    loops w' l = Some e' \<and> pendingFunctors e' = pendingFunctors e @ [Fn_connDestroyed c] \<and>
    TcpClient_connect w' = Inl AssertFailed"
proof -
  obtain w1 ch1 e1 p1 where w1: "handleClose (client_code user) c w = TcpClient_removeConnection c w1"
      "conn_at l c fd x ch1 e1 p1 w1" "conn_world.more w1 = conn_world.more w"
      "pendingFunctors e1 = pendingFunctors e"
    using handleClose_at [OF at up cb, of "client_code user"] by (auto simp: client_code_def)
  note d = conn_atD [OF w1(2)]
  have same: "connector w1 = connector w" "client w1 = client w" using w1(3) by (cases w1; cases w; simp)+
  define w2 where "w2 = w1\<lparr>client := (client w1)\<lparr>connection := None\<rparr>\<rparr>"
  define w3 where "w3 = w2\<lparr>loops := (loops w2)(l \<mapsto> queue_functor True (Fn_connDestroyed c) e1)\<rparr>"
  have at2: "conn_at l c fd x ch1 e1 p1 w2" using w1(2) by (simp add: conn_at_def epoll_loop_def w2_def)
  have "TcpClient_removeConnection c w1 = Inr w3"
    using d(2,3) l own same queueInLoop_at(1) [OF at2, of "Fn_connDestroyed c"]
    by (simp add: TcpClient_removeConnection_def Let_def conn_at_simps [OF w1(2)] w2_def [symmetric])
      (simp add: w3_def w2_def)
  moreover have "TcpClient_connect w3 = Inl AssertFailed"
    using d(8,9) l(2) st same by (simp add: TcpClient_connect_def Connector_start_def runInLoop_def
        isInLoopThread_def startInLoop_def assertInLoopThread_def modify_connector_def w3_def w2_def)
  ultimately show ?thesis using w1(1,4)
    by (intro exI [of _ w3] exI [of _ "queue_functor True (Fn_connDestroyed c) e1"])
      (simp add: w3_def w2_def)
qed

text \<open>A client that has its connection, on descriptor 5.\<close>

definition client_conn :: conn where
  "client_conn = (demo_conn kConnected new_Buffer)\<lparr>closeCb := Some Cl_TcpClient_removeConnection\<rparr>"

definition connected_demo :: client_world where
  "connected_demo = client_demo\<lparr>channels := [20 \<mapsto> demo_channel 4],
     conns := [7 \<mapsto> client_conn],
     connector := (connector client_demo)\<lparr>cn_state := Cs_kConnected\<rparr>,
     client := (client client_demo)\<lparr>connection := Some 7\<rparr>\<rparr>"

lemma connected_at:
  "conn_at 0 7 5 client_conn (demo_channel 4) (demo_loop 4) (demo_poller 4) connected_demo"
  by (auto simp: conn_at_def epoll_loop_def epoll_ok_def connected_demo_def client_demo_def client_conn_def demo_conn_def
      demo_channel_def demo_loop_def demo_poller_def small_loop_def index_values epoll_watch_def
      new_EpollPoller_def new_Channel_def interest_def ctl_step_def fun_eq_iff split: if_splits)

theorem second_connect_fails_witness:
  "\<exists>w'. handleClose (client_code quiet_client) 7 connected_demo = Inr w' \<and> connection (client w') = None \<and>
    TcpClient_connect w' = Inl AssertFailed"
proof -
  have "closeCb client_conn = Some Cl_TcpClient_removeConnection" "cl_loop (client connected_demo) = 0"
    "cn_loop (connector connected_demo) = 0" "connection (client connected_demo) = Some 7"
    "\<not> cl_retry (client connected_demo)" "cn_state (connector connected_demo) = Cs_kConnected"
    by (simp_all add: connected_demo_def client_demo_def new_TcpClient_def new_Connector_def client_conn_def demo_conn_def)
  from second_connect_fails [OF connected_at _ this, of quiet_client] show ?thesis
    by (auto simp: client_conn_def demo_conn_def)
qed

end
