(* ===== verification/Chat.thy ===== *)
theory Chat
  imports Tcp_Server Tcp_Client Ordered_Sets
begin

text \<open>
  The chat programs over the library (asio/ChatServer.cpp, asio/ChatClient.cpp). The server keeps
  the connections that are up in a \<open>std::set\<close> of pointers and relays every message to all of
  them; the client sends lines and prints what it receives.
\<close>

section \<open>The server\<close>

record chat_world = server_world +
  chat_connections :: "conn_ptr list"

text \<open>The constructor, with the setters in its body, and the two operations that forward.\<close>

definition new_ChatServer ::
    "loop_ptr \<Rightarrow> sockaddr_in \<Rightarrow> 'a chat_world_scheme \<Rightarrow> 'a chat_world_scheme result" where
  "new_ChatServer l listenAddr w =
     rbind (new_TcpServer l listenAddr w) (\<lambda>(s, w).
       Inr (w\<lparr>server := TcpServer_setMessageCallback True (TcpServer_setConnectionCallback True s),
              chat_connections := []\<rparr>))"

definition ChatServer_start ::
    "bool \<Rightarrow> (nat \<Rightarrow> spawned) \<Rightarrow> 'a chat_world_scheme \<Rightarrow> 'a chat_world_scheme result" where
  "ChatServer_start = TcpServer_start"

definition ChatServer_setThreadNum :: "int \<Rightarrow> 'a chat_world_scheme \<Rightarrow> 'a chat_world_scheme" where
  "ChatServer_setThreadNum num w = w\<lparr>server := TcpServer_setThreadNum num (server w)\<rparr>"

definition ChatServer_onConnection ::
    "conn_ptr \<Rightarrow> 'a chat_world_scheme \<Rightarrow> 'a chat_world_scheme result" where
  "ChatServer_onConnection c w =
     rbind (deref (conns w) c) (\<lambda>x.
       Inr (w\<lparr>chat_connections := (if connected x then set_insert c (chat_connections w)
         else set_erase c (chat_connections w))\<rparr>))"

text \<open>\<open>codec_.send(conn, message)\<close> ends in \<open>conn->send(&buffer)\<close>.\<close>

definition codec_send_to ::
    "conn_ptr \<Rightarrow> byte list \<Rightarrow> 'a conn_world_scheme \<Rightarrow> 'a conn_world_scheme result" where
  "codec_send_to c = codec_send (\<lambda>b w. rbind (send_buffer c b w) (\<lambda>(_, w). Inr w))"

definition ChatServer_onStringMessage ::
    "byte list \<Rightarrow> 'a chat_world_scheme \<Rightarrow> 'a chat_world_scheme result" where
  "ChatServer_onStringMessage message w =
     rfold (\<lambda>c. codec_send_to c message) (chat_connections w) w"

text \<open>
  The message callback is the codec's \<open>onMessage\<close>, on the connection's input buffer. The buffer is
  written back at the end: neither the string callbacks below nor \<open>shutdown\<close> look at it meanwhile.
\<close>

definition codec_onMessage ::
    "(byte list \<Rightarrow> 'a conn_world_scheme \<Rightarrow> 'a conn_world_scheme result) \<Rightarrow> conn_ptr \<Rightarrow>
     'a conn_world_scheme \<Rightarrow> 'a conn_world_scheme result" where
  "codec_onMessage cb c w =
     rbind (deref (conns w) c) (\<lambda>x.
     rbind (onMessage cb (shutdown c) (inputBuffer x) w) (\<lambda>(b, w).
     modify_conn c (\<lambda>x. x\<lparr>inputBuffer := b\<rparr>) w))"

text \<open>What the server installs; the close callback of its connections is that of \<open>server_code\<close>.\<close>

definition chat_server_code :: "'a chat_world_scheme conn_code" where
  "chat_server_code = \<lparr>connection_cb = ChatServer_onConnection,
     message_cb = (\<lambda>c now. codec_onMessage ChatServer_onStringMessage c),
     close_cb = (\<lambda>k c w. Inr w), write_complete_cb = (\<lambda>c w. Inr w)\<rparr>"

section \<open>The client\<close>

record chat_client_world = client_world +
  chat_connection :: "conn_ptr option"
  chat_connected :: bool
  printed :: "byte list list"

definition new_ChatClient ::
    "loop_ptr \<Rightarrow> sockaddr_in \<Rightarrow> 'a chat_client_world_scheme \<Rightarrow> 'a chat_client_world_scheme" where
  "new_ChatClient l addr w =
     w\<lparr>connector := Connector_setNewConnectionCallback True (new_Connector l addr),
       client := TcpClient_setMessageCallback True
         (TcpClient_setConnectionCallback True (new_TcpClient l ''ChatClient'')),
       chat_connection := None, chat_connected := False\<rparr>"

definition ChatClient_connect :: "'a chat_client_world_scheme \<Rightarrow> 'a chat_client_world_scheme result" where
  "ChatClient_connect = TcpClient_connect"

definition ChatClient_disconnect ::
    "'a chat_client_world_scheme \<Rightarrow> 'a chat_client_world_scheme result" where
  "ChatClient_disconnect = TcpClient_disconnect"

definition ChatClient_connected :: "'a chat_client_world_scheme \<Rightarrow> bool" where
  "ChatClient_connected w = chat_connected w"

definition ChatClient_onConnection ::
    "conn_ptr \<Rightarrow> 'a chat_client_world_scheme \<Rightarrow> 'a chat_client_world_scheme result" where
  "ChatClient_onConnection c w =
     rbind (deref (conns w) c) (\<lambda>x.
       Inr (if connected x then w\<lparr>chat_connection := Some c, chat_connected := True\<rparr>
            else w\<lparr>chat_connection := None, chat_connected := False\<rparr>))"

text \<open>
  \<open>printf("<<< %s\n", message.c_str())\<close> stops at a zero byte; \<open>printed\<close> holds the text of each line
  without the fixed prefix and the line's end.
\<close>

definition ChatClient_onStringMessage ::
    "byte list \<Rightarrow> 'a chat_client_world_scheme \<Rightarrow> 'a chat_client_world_scheme result" where
  "ChatClient_onStringMessage message w =
     Inr (w\<lparr>printed := printed w @ [takeWhile (\<lambda>b. b \<noteq> 0) message]\<rparr>)"

definition ChatClient_write ::
    "byte list \<Rightarrow> 'a chat_client_world_scheme \<Rightarrow> 'a chat_client_world_scheme result" where
  "ChatClient_write message w =
     (case chat_connection w of None \<Rightarrow> Inr w | Some c \<Rightarrow> codec_send_to c message w)"

definition chat_client_code :: "'a chat_client_world_scheme conn_code" where
  "chat_client_code = \<lparr>connection_cb = ChatClient_onConnection,
     message_cb = (\<lambda>c now. codec_onMessage ChatClient_onStringMessage c),
     close_cb = (\<lambda>k c w. Inr w), write_complete_cb = (\<lambda>c w. Inr w)\<rparr>"

section \<open>Who is up\<close>

text \<open>The set stays ordered, and after the callback it holds the connection exactly if that is up.\<close>

lemma ChatServer_onConnection_set:
  assumes "ascending (chat_connections w)" and "conns w c = Some x"
  shows "\<exists>w'. ChatServer_onConnection c w = Inr w' \<and> ascending (chat_connections w') \<and>
    set (chat_connections w') = (if connected x then insert c (set (chat_connections w))
      else set (chat_connections w) - {c})"
  using assms os.ins [OF assms(1), of c] os.del [OF assms(1), of c]
  by (simp add: ChatServer_onConnection_def)

lemma ChatClient_write_frame:
  fixes w :: "'a chat_client_world_scheme"
  assumes "ChatClient_onConnection c w = Inr w'" and "conns w c = Some x" and "connected x"
  shows "ChatClient_connected w' \<and> ChatClient_write m w' = codec_send_to c m w'"
  using assms by (auto simp: ChatClient_onConnection_def ChatClient_connected_def ChatClient_write_def)

section \<open>Relaying\<close>

lemma codec_send_to_is_send:
  assumes at: "conn_at l c fd x ch e p w" and m: "length m < 2 ^ 31"
  shows "codec_send_to c m w = send c (frame m) w"
proof -
  obtain b where b: "\<forall>snd_buf s. codec_send snd_buf m s = snd_buf b (s :: 'a conn_world_scheme)"
      "buffer_ok b" "contents b = frame m"
    using codec_send_eq [OF m] by (elim exE conjE) (rule that)
  have "retrieveAsString b = Inr (frame m, retrieveAll b)"
    using retrieveAsString_whole [OF b(2)] b(3) by simp
  then have "rbind (send_buffer c b w) (\<lambda>(_, w). Inr w) = send c (frame m) w"
    using conn_atD(2,3) [OF at] conn_at_simps(3) [OF at] send_at [OF at, of "frame m"]
    by (simp add: send_buffer_def rbind_assoc)
      (cases "sendInLoop c (frame m) w"; simp)
  then show ?thesis using b(1) by (simp add: codec_send_to_def)
qed

text \<open>The sessions of a set of connections in one loop, each on a descriptor of its own.\<close>

definition sessions_ok ::
    "loop_ptr \<Rightarrow> (conn_ptr \<Rightarrow> int) \<Rightarrow> (conn_ptr \<Rightarrow> session) \<Rightarrow> conn_ptr set \<Rightarrow>
     'a conn_world_scheme \<Rightarrow> bool" where
  "sessions_ok l fd s C w \<longleftrightarrow> inj_on fd C \<and> (\<forall>c\<in>C. session_ok l c (fd c) (s c) w)"

lemma session_at:
  "session_ok l c fd s w \<Longrightarrow> \<exists>x ch e p. conn_at l c fd x ch e p w"
  by (elim session_okE) blast

lemma sessions_at:
  "sessions_ok l fd s C w \<Longrightarrow> c \<in> C \<Longrightarrow> \<exists>x ch e p. conn_at l c (fd c) x ch e p w"
  using session_at [of l c "fd c" "s c" w] by (simp add: sessions_ok_def)

text \<open>A step on one connection that meets its own session and leaves the rest alone.\<close>

lemma sessions_step:
  assumes ok: "sessions_ok l fd s C w" and c: "c \<in> C" and own: "session_ok l c (fd c) s' w'"
    and frame: "\<exists>chan. (\<exists>x. conns w c = Some x \<and> conn_channel x = chan) \<and>
      only_conn c chan (fd c) w w' \<and> wr_shut w' - {fd c} = wr_shut w - {fd c} \<and>
      (\<exists>e p. epoll_loop l e p w')"
  shows "sessions_ok l fd (s(c := s')) C w'"
proof -
  have "session_ok l c (fd c) (s c) w" using ok c by (simp add: sessions_ok_def)
  then have "session_ok l k (fd k) (s k) w'" if "k \<in> C" "k \<noteq> c" for k
  proof (rule session_other [OF _ _ _ frame])
    show "session_ok l k (fd k) (s k) w" using ok that by (simp add: sessions_ok_def)
    show "fd k \<noteq> fd c" using ok that c by (auto simp: sessions_ok_def inj_on_def)
  qed
  then show ?thesis using ok own by (auto simp: sessions_ok_def)
qed

text \<open>What the operations on the connections leave alone: the server's members, and what a channel dispatches.\<close>

definition keeps_rest :: "'a conn_world_scheme \<Rightarrow> 'a conn_world_scheme \<Rightarrow> bool" where
  "keeps_rest w w' \<longleftrightarrow> conn_world.more w' = conn_world.more w \<and>
     (\<forall>k. rel_option same_dispatch (channels w k) (channels w' k))"

lemma keeps_rest_refl [simp]: "keeps_rest w w"
  by (simp add: keeps_rest_def option.rel_refl)

lemma keeps_rest_trans: "keeps_rest w w1 \<Longrightarrow> keeps_rest w1 w2 \<Longrightarrow> keeps_rest w w2"
  unfolding keeps_rest_def using same_option_trans by (elim conjE, intro conjI allI) (simp, blast)

lemma only_conn_rest: "only_conn c chan fd w w' \<Longrightarrow> keeps_rest w w'"
  using only_conn_channel [of c chan fd w w'] by (simp add: keeps_rest_def) (simp add: only_conn_def)

lemma keeps_rest_chat: "keeps_rest w w' \<Longrightarrow> chat_connections w' = chat_connections w"
  by (cases w; cases w') (simp add: keeps_rest_def)

lemma sessions_send:
  assumes ok: "sessions_ok l fd s C w" and c: "c \<in> C" and run: "send c d w = Inr w'"
  shows "sessions_ok l fd (s(c := session_step (Op_send d) (s c))) C w' \<and>
    keeps_rest w w'"
proof -
  have s: "session_ok l c (fd c) (s c) w" using ok c by (simp add: sessions_ok_def)
  note frame = session_send_frame [OF s run]
  then have "keeps_rest w w'" using only_conn_rest by blast
  moreover have "sessions_ok l fd (s(c := session_step (Op_send d) (s c))) C w'"
    by (rule sessions_step [OF ok c session_send [OF s run]]) (use frame in auto)
  ultimately show ?thesis by blast
qed

lemma sessions_shutdown:
  assumes ok: "sessions_ok l fd s C w" and c: "c \<in> C" and run: "shutdown c w = Inr w'"
  shows "sessions_ok l fd (s(c := session_step Op_shutdown (s c))) C w' \<and> keeps_rest w w'"
proof -
  have s: "session_ok l c (fd c) (s c) w" using ok c by (simp add: sessions_ok_def)
  note frame = session_shutdown_frame [OF s run]
  have "session_ok l c (fd c) (session_step Op_shutdown (s c)) w'"
    using session_shutdown [OF s] run by auto
  from sessions_step [OF ok c this frame] show ?thesis using frame only_conn_rest by blast
qed

lemma sessions_broadcast:
  assumes "sessions_ok l fd s C w" and "set cs \<subseteq> C" and "distinct cs" and m: "length m < 2 ^ 31"
    and "rfold (\<lambda>c. codec_send_to c m) cs w = Inr w'"
  shows "sessions_ok l fd (\<lambda>c. if c \<in> set cs then session_step (Op_send (frame m)) (s c) else s c) C w' \<and>
    keeps_rest w w'"
  using assms(1,2,3,5)
proof (induction cs arbitrary: s w)
  case (Cons c cs)
  have c: "c \<in> C" "c \<notin> set cs" using Cons.prems(2,3) by simp_all
  then have "session_ok l c (fd c) (s c) w" using Cons.prems(1) by (simp add: sessions_ok_def)
  then obtain x ch e p where "conn_at l c (fd c) x ch e p w" by (elim session_okE) (rule that)
  then obtain w1 where w1: "send c (frame m) w = Inr w1" "rfold (\<lambda>c. codec_send_to c m) cs w1 = Inr w'"
    using Cons.prems(4) m by (auto simp: codec_send_to_is_send rbind_Inr_iff)
  note step = sessions_send [OF Cons.prems(1) c(1) w1(1)]
  let ?s = "s(c := session_step (Op_send (frame m)) (s c))"
  have "(\<lambda>k. if k \<in> set cs then session_step (Op_send (frame m)) (?s k) else ?s k) =
      (\<lambda>k. if k \<in> set (c # cs) then session_step (Op_send (frame m)) (s k) else s k)"
    using c(2) by (auto simp: fun_eq_iff)
  moreover note Cons.IH [OF step [THEN conjunct1] _ _ w1(2)]
  ultimately show ?case using step Cons.prems(2,3) keeps_rest_trans by (simp del: session_step.simps) blast
qed simp

lemma sessions_relay:
  assumes "sessions_ok l fd s C w" and "set (chat_connections w) \<subseteq> C"
    and "distinct (chat_connections w)" and "\<forall>m\<in>set ms. length m < 2 ^ 31"
    and "rfold ChatServer_onStringMessage ms w = Inr w'"
  shows "sessions_ok l fd (\<lambda>c. if c \<in> set (chat_connections w)
      then fold session_step (map (\<lambda>m. Op_send (frame m)) ms) (s c) else s c) C w' \<and>
    keeps_rest w w'"
  using assms
proof (induction ms arbitrary: s w)
  case (Cons m ms)
  obtain w1 where w1: "rfold (\<lambda>c. codec_send_to c m) (chat_connections w) w = Inr w1"
      "rfold ChatServer_onStringMessage ms w1 = Inr w'"
    using Cons.prems(5) unfolding rfold.simps rbind_Inr_iff
    by (auto simp: ChatServer_onStringMessage_def [of m])
  have m: "length m < 2 ^ 31" using Cons.prems(4) by simp
  note step = sessions_broadcast [OF Cons.prems(1-3) m w1(1)]
  then have conns: "chat_connections w1 = chat_connections w" using keeps_rest_chat by blast
  let ?s = "\<lambda>c. if c \<in> set (chat_connections w) then session_step (Op_send (frame m)) (s c) else s c"
  have "(\<lambda>c. if c \<in> set (chat_connections w)
      then fold session_step (map (\<lambda>m. Op_send (frame m)) ms) (?s c) else ?s c) =
    (\<lambda>c. if c \<in> set (chat_connections w)
      then fold session_step (map (\<lambda>m. Op_send (frame m)) (m # ms)) (s c) else s c)"
    by (simp add: fun_eq_iff)
  note same = this
  have "sessions_ok l fd (\<lambda>c. if c \<in> set (chat_connections w)
      then fold session_step (map (\<lambda>m. Op_send (frame m)) ms) (?s c) else ?s c) C w' \<and>
    keeps_rest w1 w'"
    using Cons.IH [OF step [THEN conjunct1] _ _ _ w1(2), unfolded conns] Cons.prems(2-4) by simp
  then show ?case using step keeps_rest_trans unfolding same by blast
qed (simp add: if_distrib cong: if_cong)

text \<open>The sessions do not depend on the input buffers, nor on what the channels dispatch.\<close>

lemma sessions_frame:
  assumes ok: "sessions_ok l fd s C w" and loop: "epoll_loop l e p w'"
    and conn: "\<And>k y. conns w k = Some y \<Longrightarrow> \<exists>b. conns w' k = Some (y\<lparr>inputBuffer := b\<rparr>)"
    and chan: "\<And>k ch. channels w k = Some ch \<Longrightarrow> \<exists>ch'. channels w' k = Some ch' \<and> same_registration ch ch'"
    and out: "sent w' = sent w" "wr_shut w' = wr_shut w"
  shows "sessions_ok l fd s C w'"
proof -
  have "session_ok l k (fd k) (s k) w'" if "k \<in> C" for k
    using session_frame [of l k "fd k" "s k" w, OF _ loop conn chan] ok that out
    by (simp add: sessions_ok_def)
  then show ?thesis using ok by (simp add: sessions_ok_def)
qed

lemma sessions_input:
  assumes ok: "sessions_ok l fd s C w" and c: "c \<in> C" and x: "conns w c = Some x"
    and run: "modify_conn c (\<lambda>x. x\<lparr>inputBuffer := b\<rparr>) w = Inr w'"
  shows "sessions_ok l fd s C w'"
proof -
  have w': "w' = w\<lparr>conns := (conns w)(c \<mapsto> x\<lparr>inputBuffer := b\<rparr>)\<rparr>"
    using run x by (simp add: modify_conn_def)
  obtain x0 ch e p where at: "conn_at l c (fd c) x0 ch e p w"
    using sessions_at [OF ok c] by blast
  have loop: "epoll_loop l e p w'" using conn_atD(1) [OF at] by (simp add: w' epoll_loop_def)
  show ?thesis
  proof (rule sessions_frame [OF ok loop])
    show "conns w k = Some y \<Longrightarrow> \<exists>b. conns w' k = Some (y\<lparr>inputBuffer := b\<rparr>)" for k y
      using x by (cases y) (auto simp: w' intro: exI [of _ "inputBuffer y"])
  qed (simp_all add: w' same_registration_def)
qed

text \<open>
  The relay. When the input buffer of a connection parses to the messages \<open>ms\<close>, the server's
  message callback appends the frames of \<open>ms\<close>, in order, to the stream of every connection in the
  set, the sender's own included; the streams of the others stay as they are. A bad header closes the
  sender's session after them, and only its own. What did not make a frame stays in the buffer.
\<close>

lemma relay:
  fixes w :: "'a chat_world_scheme"
  assumes "sessions_ok l fd s C w" and "c0 \<in> C" and "set (chat_connections w) \<subseteq> C"
    and "distinct (chat_connections w)" and "conns w c0 = Some x" and "buffer_ok (inputBuffer x)"
    and "parse_frames (contents (inputBuffer x)) = (ms, rest, bad)"
    and "codec_onMessage ChatServer_onStringMessage c0 w = Inr w'"
  shows "(\<exists>x'. conns w' c0 = Some x' \<and> buffer_ok (inputBuffer x') \<and> contents (inputBuffer x') = rest) \<and>
    sessions_ok l fd (\<lambda>c. fold session_step
      ((if c \<in> set (chat_connections w) then map (\<lambda>m. Op_send (frame m)) ms else []) @
       (if bad \<and> c = c0 then [Op_shutdown] else [])) (s c)) C w' \<and> keeps_rest w w'"
proof -
  let ?relayed = "\<lambda>c. if c \<in> set (chat_connections w)
      then fold session_step (map (\<lambda>m. Op_send (frame m)) ms) (s c) else s c"
  let ?final = "if bad then ?relayed(c0 := session_step Op_shutdown (?relayed c0)) else ?relayed"
  obtain b where b: "buffer_ok b" "contents b = rest"
      "\<forall>s :: 'a chat_world_scheme. onMessage ChatServer_onStringMessage (shutdown c0) (inputBuffer x) s =
        rbind (rfold ChatServer_onStringMessage ms s) (\<lambda>s'.
        rbind (if bad then shutdown c0 s' else Inr s') (\<lambda>s''. Inr (b, s'')))"
    using onMessage_parse [OF assms(6,7), of ChatServer_onStringMessage "shutdown c0"]
    by (elim exE conjE) (rule that)
  obtain w1 w2 where w1: "rfold ChatServer_onStringMessage ms w = Inr w1"
      and w2: "(if bad then shutdown c0 w1 else Inr w1) = Inr w2"
      and w': "modify_conn c0 (\<lambda>x. x\<lparr>inputBuffer := b\<rparr>) w2 = Inr w'"
    using assms(8,5) b(3) by (auto simp: codec_onMessage_def rbind_Inr_iff)
  have "\<forall>m\<in>set ms. length m < 2 ^ 31" using parse_frames_short [OF assms(7)] by fastforce
  note ok1 = sessions_relay [OF assms(1,3,4) this w1]
  then have ok2: "sessions_ok l fd ?final C w2" "keeps_rest w1 w2"
    using w2 sessions_shutdown [OF ok1 [THEN conjunct1] assms(2)] by (cases bad; simp)+
  obtain x2 where x2: "conns w2 c0 = Some x2" using w' by (auto simp: modify_conn_def rbind_Inr_iff deref_Inr_iff)
  have "?final = (\<lambda>c. fold session_step
      ((if c \<in> set (chat_connections w) then map (\<lambda>m. Op_send (frame m)) ms else []) @
       (if bad \<and> c = c0 then [Op_shutdown] else [])) (s c))"
    by (auto simp: fun_eq_iff)
  then have "sessions_ok l fd (\<lambda>c. fold session_step
      ((if c \<in> set (chat_connections w) then map (\<lambda>m. Op_send (frame m)) ms else []) @
       (if bad \<and> c = c0 then [Op_shutdown] else [])) (s c)) C w'"
    using sessions_input [OF ok2(1) assms(2) x2 w'] by simp
  moreover have "\<exists>x'. conns w' c0 = Some x' \<and> buffer_ok (inputBuffer x') \<and> contents (inputBuffer x') = rest"
    using w' x2 b(1,2) by (auto simp: modify_conn_def)
  moreover have "keeps_rest w2 w'" using w' x2 by (auto simp: modify_conn_def keeps_rest_def option.rel_refl)
  then have "keeps_rest w w'" using ok1 ok2(2) keeps_rest_trans by blast
  ultimately show ?thesis by blast
qed

text \<open>A single client, whose socket takes the frame of its own message whole.\<close>

lemma send_whole:
  assumes at: "conn_at l c fd x ch e p w" and "state x = kConnected" "\<not> wriComCb x"
    and idle: "\<not> isWriting ch" "buffer_ok (outputBuffer x)" "contents (outputBuffer x) = []"
    and room: "int (length d) \<le> write_answers w 0"
  shows "send c d w = Inr (snd (sys_write fd d w))"
proof -
  define w1 where "w1 = snd (sys_write fd d w)"
  have w1: "sys_write fd d w = (int (length d), w1)" using room by (simp add: w1_def sys_write_def)
  have "write_now c d w = Inr (int (length d), w1)"
    using assms(3) idle conn_atD(6) [OF at] w1 readable_empty [OF idle(2)]
    by (simp add: write_now_def conn_at_simps [OF at])
  then show ?thesis using assms(2) conn_atD(3) [OF at]
    by (simp add: send_at [OF at] sendInLoop_def conn_at_simps [OF at] flip: w1_def)
qed

lemma relay_one:
  fixes w :: "'a chat_world_scheme"
  assumes at: "conn_at l c fd x ch e p w" and "state x = kConnected" "\<not> wriComCb x"
    and idle: "\<not> isWriting ch" "buffer_ok (outputBuffer x)" "contents (outputBuffer x) = []"
    and room: "int (length (frame m)) \<le> write_answers w 0" and m: "length m < 2 ^ 31"
    and one: "chat_connections w = [c]" "buffer_ok (inputBuffer x)"
      "parse_frames (contents (inputBuffer x)) = ([m], rest, False)"
  shows "\<exists>w' y. codec_onMessage ChatServer_onStringMessage c w = Inr w' \<and> conns w' c = Some y \<and>
    outputBuffer y = outputBuffer x"
proof -
  obtain b where "\<forall>s :: 'a chat_world_scheme. onMessage ChatServer_onStringMessage (shutdown c) (inputBuffer x) s =
      rbind (rfold ChatServer_onStringMessage [m] s) (\<lambda>s'. Inr (b, s'))"
    using onMessage_parse [OF one(2,3), of ChatServer_onStringMessage "shutdown c"] by auto
  then show ?thesis using conn_atD(2) [OF at] one(1) send_whole [OF assms(1-7)]
    by (simp add: codec_onMessage_def ChatServer_onStringMessage_def codec_send_to_is_send [OF at m]
        modify_conn_def sys_write_def Let_def)
qed

lemma parse_framed_byte: "parse_frames (frame [42]) = ([[42]], [], False)"
  using parse_frame [of "[42]" "[]"] parse_frames.simps [of "[]"] by simp

end
