(* ===== verification/Chat_Turn.thy ===== *)
theory Chat_Turn
  imports Chat Loop_Turn
begin

text \<open>
  One turn of the chat server's loop, from the poller's report to the streams of the clients: the
  composition of \<open>EventLoop\<close>, \<open>EpollPoller\<close>, \<open>Channel\<close>, \<open>TcpConnection\<close>, \<open>Buffer\<close> and the codec.
\<close>

section \<open>Up to the message callback\<close>

text \<open>
  From the poll to the message callback: the bytes \<open>d\<close> have been added to the input buffer, and
  nothing else that matters to a connection has changed.
\<close>

definition woken ::
    "conn_ptr \<Rightarrow> buffer \<Rightarrow> 'a conn_world_scheme \<Rightarrow> 'a conn_world_scheme \<Rightarrow> bool" where
  "woken c b w w' \<longleftrightarrow> (\<exists>x. conns w c = Some x \<and> conns w' = (conns w)(c \<mapsto> x\<lparr>inputBuffer := b\<rparr>)) \<and>
     (\<forall>k ch. channels w k = Some ch \<longrightarrow> (\<exists>ch'. channels w' k = Some ch' \<and> same_registration ch ch')) \<and>
     map_rel calm_channel (channels w) (channels w') \<and> map_rel calm_loop (loops w) (loops w') \<and>
     this_thread w' = this_thread w \<and> sent w' = sent w \<and> wr_shut w' = wr_shut w \<and>
     conn_world.more w' = conn_world.more w"

lemma sessions_woken:
  assumes ok: "sessions_ok l fd s C w" and "woken c b w w'" and loop: "epoll_loop l e p w'"
  shows "sessions_ok l fd s C w'"
proof (rule sessions_frame [OF ok loop])
  show "conns w k = Some y \<Longrightarrow> \<exists>b. conns w' k = Some (y\<lparr>inputBuffer := b\<rparr>)" for k y
    using assms(2) by (cases y) (auto simp: woken_def intro: exI [of _ "inputBuffer y"])
qed (use assms(2) in \<open>auto simp: woken_def\<close>)

text \<open>The end of \<open>handleEvent\<close>.\<close>

lemma sessions_handled:
  assumes ok: "sessions_ok l fd s C w" and c: "c \<in> C" and ch: "channels w k = Some ch"
  shows "sessions_ok l fd s C (w\<lparr>channels := (channels w)(k \<mapsto> ch\<lparr>eventHandling := b\<rparr>)\<rparr>)"
    (is "sessions_ok _ _ _ _ ?w")
proof -
  obtain x0 ch0 e p where "conn_at l c (fd c) x0 ch0 e p w"
    using sessions_at [OF ok c] by blast
  note loop = conn_atD(1) [OF this, unfolded epoll_loop_def]
  have loop: "epoll_loop l e p ?w"
    using loop epoll_ok_same [of l "channels w" p k ch "ch\<lparr>eventHandling := b\<rparr>"] ch
    by (simp add: epoll_loop_def)
  show ?thesis
  proof (rule sessions_frame [OF ok loop])
    show "conns w j = Some y \<Longrightarrow> \<exists>b. conns ?w j = Some (y\<lparr>inputBuffer := b\<rparr>)" for j y
      by (cases y) (auto intro: exI [of _ "inputBuffer y"])
  qed (use ch in \<open>auto simp: same_registration_def\<close>)
qed

lemma handleRead_data:
  assumes at: "conn_at l c fd x ch e p w" and ok: "buffer_ok (inputBuffer x)"
    and rd: "read_answers w 0 = Inr d" "d \<noteq> []" and message: "messaCb x"
  shows "case readFd (Inr d) (inputBuffer x) of Inl f \<Rightarrow> handleRead code c now w = Inl f
    | Inr (b, n, err) \<Rightarrow> buffer_ok b \<and> contents b = contents (inputBuffer x) @ d \<and>
        handleRead code c now w = message_cb code c now
          ((snd (sys_readv w))\<lparr>conns := (conns w)(c \<mapsto> x\<lparr>inputBuffer := b\<rparr>)\<rparr>)"
proof -
  define w1 where "w1 = snd (sys_readv w)"
  have w1: "sys_readv w = (Inr d, w1)" "conns w1 = conns w" by (simp_all add: sys_readv_def w1_def rd)
  have eq: "handleRead code c now w = rbind (readFd (Inr d) (inputBuffer x)) (\<lambda>(b, n, _).
      if n > 0 then message_cb code c now (w1\<lparr>conns := (conns w)(c \<mapsto> x\<lparr>inputBuffer := b\<rparr>)\<rparr>)
      else if n = 0 then handleClose code c (w1\<lparr>conns := (conns w)(c \<mapsto> x\<lparr>inputBuffer := b\<rparr>)\<rparr>)
      else handleError c (w1\<lparr>conns := (conns w)(c \<mapsto> x\<lparr>inputBuffer := b\<rparr>)\<rparr>))"
    using conn_atD(2) [OF at] message
    by (simp add: handleRead_def conn_at_simps [OF at] w1 modify_conn_def call_if_set_def cong: if_cong)
  show ?thesis
  proof (cases "readFd (Inr d) (inputBuffer x)")
    case (Inr r)
    obtain b n err where r: "r = (b, n, err)" by (cases r)
    have "n = int (length d)"
      using Inr r by (auto simp: readFd_def Let_def rbind_Inr_iff split: if_splits)
    then show ?thesis using readFd_InrD [OF ok, of d b n err] Inr r eq rd(2) by (simp add: w1_def)
  qed (simp add: eq)
qed

lemma readable_turn:
  assumes at: "conn_at l c fd x ch e p w" and size: "0 < ep_events_size p"
    and cb: "readCallback ch = Some (Cb_TcpConnection_handleRead c)" "\<not> tied ch"
      "\<And>now w. exec_cb (Cb_TcpConnection_handleRead c) now w = handleRead code c now w"
    and ok: "buffer_ok (inputBuffer x)" and rd: "read_answers w 0 = Inr d" "d \<noteq> []"
    and message: "messaCb x"
  shows "case readFd (Inr d) (inputBuffer x) of
      Inl f \<Rightarrow> loop_turn alive exec_cb exec l (Epoll_report [(POLLIN, conn_channel x)]) w = Inl f
    | Inr (b, n, err) \<Rightarrow> buffer_ok b \<and> contents b = contents (inputBuffer x) @ d \<and>
        (\<exists>e' p' ch' now w'. woken c b w w' \<and> write_answers w' = write_answers w \<and>
          read_answers w' = (\<lambda>i. read_answers w (Suc i)) \<and>
          conn_at l c fd (x\<lparr>inputBuffer := b\<rparr>) ch' e' p' w' \<and> revents ch' = POLLIN \<and>
          loop_turn alive exec_cb exec l (Epoll_report [(POLLIN, conn_channel x)]) w =
            rbind (message_cb code c now w') (handled exec_cb exec l (conn_channel x) now))"
proof -
  let ?k = "conn_channel x"
  note d = conn_atD [OF at]
  obtain e1 p' now w2 where w2: "polled l ?k w w2" "epoll_loop l e1 p' w2"
      and turn: "loop_turn alive exec_cb exec l (Epoll_report [(POLLIN, ?k)]) w =
        rbind (handleRead code c now w2) (handled exec_cb exec l ?k now)"
    using one_event_turn [OF d(1) size d(4,5,7) cb(1,2), of alive exec_cb exec] unfolding cb(3) by blast
  define ch2 where "ch2 = ch\<lparr>revents := POLLIN, eventHandling := True\<rparr>"
  have eqs: "channels w2 = (channels w)(?k \<mapsto> ch2)" "conns w2 = conns w" "this_thread w2 = this_thread w"
      "sent w2 = sent w" "wr_shut w2 = wr_shut w" "read_answers w2 = read_answers w"
      "conn_world.more w2 = conn_world.more w"
      and loop: "map_rel calm_loop (loops w) (loops w2)"
    using w2(1) d(4) by (auto simp: polled_def ch2_def map_rel_upd)
  have reg: "same_registration ch ch2" by (simp add: same_registration_def ch2_def)
  have at2: "conn_at l c fd x ch2 e1 p' w2" using d w2(2) reg by (simp add: conn_at_def eqs same_registration_def)
  have "read_answers w2 0 = Inr d" using rd(1) by (simp add: eqs)
  note data = handleRead_data [OF at2 ok this rd(2) message, of code now]
  show ?thesis
  proof (cases "readFd (Inr d) (inputBuffer x)")
    case (Inl f)
    then show ?thesis using data turn by simp
  next
    case (Inr r)
    obtain b n err where r: "r = (b, n, err)" by (cases r)
    define w3 where "w3 = (snd (sys_readv w2))\<lparr>conns := (conns w2)(c \<mapsto> x\<lparr>inputBuffer := b\<rparr>)\<rparr>"
    have b: "buffer_ok b" "contents b = contents (inputBuffer x) @ d"
        and run: "handleRead code c now w2 = message_cb code c now w3"
      using data Inr r by (simp_all add: w3_def)
    have "calm_channel ch ch2" by (simp add: ch2_def calm_channel_def)
    then have "map_rel calm_channel (channels w) (channels w3)" "map_rel calm_loop (loops w) (loops w3)"
      using d(4) loop by (simp_all add: w3_def eqs sys_readv_def map_rel_upd)
    then have "woken c b w w3"
      using d(2,4) reg by (auto simp: woken_def w3_def eqs sys_readv_def same_registration_def)
    moreover have "conn_at l c fd (x\<lparr>inputBuffer := b\<rparr>) ch2 e1 p' w3"
      using at2 by (simp add: w3_def sys_readv_def conn_at_def epoll_loop_def)
    moreover have "revents ch2 = POLLIN" "write_answers w3 = write_answers w"
        "read_answers w3 = (\<lambda>i. read_answers w (Suc i))"
      using w2(1) by (simp_all add: ch2_def w3_def sys_readv_def polled_def)
    ultimately have "\<exists>e' p' ch' now w'. woken c b w w' \<and> write_answers w' = write_answers w \<and>
          read_answers w' = (\<lambda>i. read_answers w (Suc i)) \<and>
          conn_at l c fd (x\<lparr>inputBuffer := b\<rparr>) ch' e' p' w' \<and> revents ch' = POLLIN \<and>
          loop_turn alive exec_cb exec l (Epoll_report [(POLLIN, conn_channel x)]) w =
            rbind (message_cb code c now w') (handled exec_cb exec l (conn_channel x) now)"
      unfolding turn run by blast
    then show ?thesis using b Inr r by simp
  qed
qed

section \<open>What a relay leaves alone\<close>

lemma send_buffer_calm:
  assumes "send_buffer c b w = Inr (b', w')" and "conn_here c w" and "conn_quiet c w"
  shows "calm w w'"
  using assms sendInLoop_calm [of c _ w w']
  by (auto simp: send_buffer_def rbind_Inr_iff deref_Inr_iff isInLoopThread_def conn_here_def conn_quiet_def
      split: if_splits)

lemma codec_send_to_calm:
  "codec_send_to c m w = Inr w' \<Longrightarrow> conn_here c w \<Longrightarrow> conn_quiet c w \<Longrightarrow> calm w w'"
  using send_buffer_calm
  by (fastforce simp: codec_send_to_def codec_send_def rbind_Inr_iff Let_def)

lemma relay_calm:
  fixes w :: "'a chat_world_scheme"
  assumes run: "codec_onMessage ChatServer_onStringMessage c w = Inr w'" and x: "conns w c = Some x"
    and all: "\<forall>k\<in>insert c (set (chat_connections w)). conn_here k w \<and> conn_quiet k w"
  shows "\<exists>b x1 w1. calm w w1 \<and> conns w1 c = Some x1 \<and> w' = w1\<lparr>conns := (conns w1)(c \<mapsto> x1\<lparr>inputBuffer := b\<rparr>)\<rparr>"
proof -
  obtain b w1 where w1: "onMessage ChatServer_onStringMessage (shutdown c) (inputBuffer x) w = Inr (b, w1)"
      "modify_conn c (\<lambda>x. x\<lparr>inputBuffer := b\<rparr>) w1 = Inr w'"
    using run x by (auto simp: codec_onMessage_def rbind_Inr_iff)
  let ?I = "\<lambda>v. calm w v"
  have keep: "conn_here k v \<and> conn_quiet k v \<and> chat_connections v = chat_connections w"
    if "calm w v" "k \<in> insert c (set (chat_connections w))" for v k
    using that all conn_calm [OF that(1)] by (cases v; cases w) (auto simp: calm_def)
  have cb: "calm w v'" if v: "calm w v" "ChatServer_onStringMessage m v = Inr v'" for m v v'
  proof -
    have same: "chat_connections v = chat_connections w" using keep [OF v(1)] by blast
    show ?thesis
    proof (rule rfold_invariant [where I = ?I and f = "\<lambda>c. codec_send_to c m" and s = v])
      show "rfold (\<lambda>c. codec_send_to c m) (chat_connections w) v = Inr v'"
        using v(2) same by (simp add: ChatServer_onStringMessage_def)
      show "calm w u'" if "k \<in> set (chat_connections w)" "calm w u" "codec_send_to k m u = Inr u'" for k u u'
        using codec_send_to_calm [OF that(3)] keep [OF that(2), of k] that(1,2) calm_trans by blast
    qed (rule v(1))
  qed
  have "calm w w1"
  proof (rule onMessage_invariant [OF w1(1), where I = ?I])
    show "calm w v'" if "calm w v" "shutdown c v = Inr v'" for v v'
      using shutdown_calm [OF that(2)] keep [OF that(1), of c] calm_trans [OF that(1)] by blast
  qed (use cb in simp_all)
  then show ?thesis using w1(2) by (auto simp: modify_conn_def rbind_Inr_iff deref_Inr_iff)
qed

lemma calm_set_input:
  assumes "calm w v" and "conns w c = Some x" and "conns v c = Some y"
  shows "calm (w\<lparr>conns := (conns w)(c \<mapsto> x\<lparr>inputBuffer := b\<rparr>)\<rparr>) (v\<lparr>conns := (conns v)(c \<mapsto> y\<lparr>inputBuffer := b\<rparr>)\<rparr>)"
proof -
  have "calm_conn x y" using map_relD [of calm_conn "conns w" "conns v" c x] assms by (auto simp: calm_def)
  then show ?thesis using assms(1) by (simp add: calm_def map_rel_def calm_conn_def)
qed

section \<open>The turn\<close>

text \<open>
  What a turn does when epoll reports a connection of the chat server readable and the socket has the
  bytes \<open>d\<close>: the messages whose frames are now complete in the input buffer are appended, framed and
  in order, to the stream of every connection that is up; what is left of the bytes waits in the
  buffer; a bad header closes the sender's session. Then the queued functors run.
\<close>

lemma turn_relays:
  fixes w :: "'a chat_world_scheme"
  assumes ok: "sessions_ok l fd s C w" and c: "c \<in> C" "set (chat_connections w) \<subseteq> C"
      "distinct (chat_connections w)"
    and x: "conns w c = Some x" "buffer_ok (inputBuffer x)" "messaCb x"
    and ch: "channels w (conn_channel x) = Some ch"
      "readCallback ch = Some (Cb_TcpConnection_handleRead c)" "\<not> tied ch"
    and ready: "\<And>e. loops w l = Some e \<Longrightarrow> poller_ready (loop_poller e)"
    and quiet: "\<And>k. k \<in> C \<Longrightarrow> conn_quiet k w"
    and rd: "read_answers w 0 = Inr d" "d \<noteq> []"
    and parse: "parse_frames (contents (inputBuffer x) @ d) = (ms, rest, bad)"
    and run: "loop_turn alive (server_callback chat_server_code) exec l
      (Epoll_report [(POLLIN, conn_channel x)]) w = Inr w'"
  shows "\<exists>x' w3. doPendingFunctors exec l w3 = Inr w' \<and> conns w3 c = Some x' \<and>
    buffer_ok (inputBuffer x') \<and> contents (inputBuffer x') = rest \<and>
    calm (w\<lparr>conns := (conns w)(c \<mapsto> x\<lparr>inputBuffer := inputBuffer x'\<rparr>)\<rparr>) w3 \<and>
    sessions_ok l fd (\<lambda>k. fold session_step
      ((if k \<in> set (chat_connections w) then map (\<lambda>m. Op_send (frame m)) ms else []) @
       (if bad \<and> k = c then [Op_shutdown] else [])) (s k)) C w3"
proof -
  let ?code = "server_code chat_server_code :: 'a chat_world_scheme conn_code"
  let ?final = "\<lambda>k. fold session_step
      ((if k \<in> set (chat_connections w) then map (\<lambda>m. Op_send (frame m)) ms else []) @
       (if bad \<and> k = c then [Op_shutdown] else [])) (s k)"
  obtain x0 ch0 e p where "conn_at l c (fd c) x0 ch0 e p w"
    using sessions_at [OF ok c(1)] by blast
  then have at: "conn_at l c (fd c) x ch e p w" using x(1) ch(1) by (simp add: conn_at_def)
  have size: "0 < ep_events_size p" using ready conn_atD(1,8) [OF at] by (simp add: epoll_loop_def)
  have handler: "server_callback chat_server_code (Cb_TcpConnection_handleRead c) t v =
      handleRead ?code c t v" for t v
    by simp
  note turn = readable_turn [where exec_cb = "server_callback chat_server_code" and code = ?code and
      alive = alive and exec = exec, OF at size ch(2,3) handler x(2) rd x(3)]
  obtain b n err where b0: "readFd (Inr d) (inputBuffer x) = Inr (b, n, err)"
    using turn run by (cases "readFd (Inr d) (inputBuffer x)") auto
  obtain e1 p1 ch1 now w1 where b: "buffer_ok b" "contents b = contents (inputBuffer x) @ d"
      and w1: "woken c b w w1" "conn_at l c (fd c) (x\<lparr>inputBuffer := b\<rparr>) ch1 e1 p1 w1" "revents ch1 = POLLIN"
      and eq: "loop_turn alive (server_callback chat_server_code) exec l
          (Epoll_report [(POLLIN, conn_channel x)]) w = rbind (message_cb ?code c now w1)
        (handled (server_callback chat_server_code) exec l (conn_channel x) now)"
    using turn unfolding b0 sum.case prod.case by (elim exE conjE) (rule that)
  note d1 = conn_atD [OF w1(2)]
  have same: "chat_connections w1 = chat_connections w"
    using w1(1) by (cases w; cases w1) (simp add: woken_def)
  have code: "message_cb ?code c t v = codec_onMessage ChatServer_onStringMessage c v" for t v
    by (simp add: server_code_def chat_server_code_def)
  obtain w2 where w2: "codec_onMessage ChatServer_onStringMessage c w1 = Inr w2"
    using run unfolding eq code rbind_Inr_iff by blast
  note ok1 = sessions_woken [OF ok w1(1) d1(1)]
  have c1: "conns w1 = (conns w)(c \<mapsto> x\<lparr>inputBuffer := b\<rparr>)" using w1(1) x(1) by (auto simp: woken_def)
  have "conn_here k w1 \<and> conn_quiet k w1" if k: "k \<in> C" for k
  proof
    obtain y cy ey py where "conn_at l k (fd k) y cy ey py w1"
      using sessions_at [OF ok1 k] by blast
    then show "conn_here k w1" by (rule conn_at_here)
    show "conn_quiet k w1" using quiet [OF k] x(1) by (auto simp: conn_quiet_def c1)
  qed
  then obtain b2 v1 v where v: "calm w1 v" "conns v c = Some v1"
      "w2 = v\<lparr>conns := (conns v)(c \<mapsto> v1\<lparr>inputBuffer := b2\<rparr>)\<rparr>"
    using relay_calm [OF w2 d1(2)] c(1,2) unfolding same by blast
  note relay [OF ok1 c(1) _ _ d1(2) _ _ w2, unfolded same, OF c(2,3)]
  then obtain x2 where x2: "conns w2 c = Some x2" "buffer_ok (inputBuffer x2)" "contents (inputBuffer x2) = rest"
      and ok2: "sessions_ok l fd ?final C w2" and rest: "keeps_rest w1 w2"
    using b parse by auto
  have "rel_option same_dispatch (channels w1 (conn_channel x)) (channels w2 (conn_channel x))"
    using rest by (simp add: keeps_rest_def)
  then obtain ch2 where ch2: "channels w2 (conn_channel x) = Some ch2" "revents ch2 = POLLIN"
    using d1(4) w1(3) by (auto simp: same_dispatch_def elim: option.rel_cases)
  define w3 where "w3 = w2\<lparr>channels := (channels w2)(conn_channel x \<mapsto> ch2\<lparr>eventHandling := False\<rparr>)\<rparr>"
  have "doPendingFunctors exec l w3 = Inr w'"
    using run w2 handled_readable [OF ch2] unfolding eq code by (simp add: w3_def)
  moreover have "sessions_ok l fd ?final C w3"
    unfolding w3_def by (rule sessions_handled [OF ok2 c(1) ch2(1)])
  moreover have "calm (w\<lparr>conns := (conns w)(c \<mapsto> x\<lparr>inputBuffer := b2\<rparr>)\<rparr>) w3"
  proof -
    let ?w = "w\<lparr>conns := (conns w)(c \<mapsto> x\<lparr>inputBuffer := b\<rparr>)\<rparr>"
    have "calm ?w w1" using w1(1) by (simp add: calm_def woken_def c1)
    from calm_set_input [OF calm_trans [OF this v(1)], of c "x\<lparr>inputBuffer := b\<rparr>" v1 b2] v(2)
    have "calm (w\<lparr>conns := (conns w)(c \<mapsto> x\<lparr>inputBuffer := b2\<rparr>)\<rparr>) w2" by (simp add: v(3))
    moreover have "calm w2 w3" using ch2(1) by (simp add: w3_def calm_def map_rel_upd)
    ultimately show ?thesis by (rule calm_trans)
  qed
  moreover have "inputBuffer x2 = b2" using x2(1) v(3) by auto
  ultimately show ?thesis using x2 by (intro exI [of _ x2] exI [of _ w3]) (simp add: w3_def)
qed

end
