(* ===== verification/Client_Destructor.thy ===== *)
theory Client_Destructor
  imports Tcp_Client
begin

text \<open>
  The destructor of \<open>TcpClient\<close> (TcpClient.cpp), which leaves a live connection with a close callback
  that does without the client, and closes it when nothing else holds it.
\<close>

section \<open>The destructor\<close>

text \<open>
  \<open>unique\<close> is the answer of \<open>connection_.unique()\<close>. At the end the local copy, the connector and the
  member \<open>connection_\<close> go, in this order. If the client was the only owner, that frees the
  connection, unless the queue holds the call of \<open>setCloseCallback\<close>, whose closure owns it too; that
  of \<open>forceClose\<close> does not.
\<close>

definition delete_TcpClient :: "bool \<Rightarrow> 'a client_world_scheme \<Rightarrow> 'a client_world_scheme result" where
  "delete_TcpClient unique w =
     (let l = cl_loop (client w); conn = connection (client w) in
      rbind
        (case conn of
           None \<Rightarrow> Inr (False, w)
         | Some c \<Rightarrow>
             (let k = Cl_removeConnection_base l in
              rbind (isInLoopThread l w) (\<lambda>inloop.
              rbind (runInLoop l (Fn_setCloseCallback c k) (setCloseCallback (Some k) c) w) (\<lambda>w.
              rbind (if unique then forceClose c w else Inr w) (\<lambda>w.
              Inr (unique \<and> inloop, w)))))) (\<lambda>(last, w).
      rbind (delete_Connector w) (\<lambda>w.
      (let w = w\<lparr>client := (client w)\<lparr>connection := None\<rparr>\<rparr> in
       case conn of
         None \<Rightarrow> Inr w
       | Some c \<Rightarrow> if last then delete_TcpConnection c w else Inr w))))"

lemma forceClose_at:
  assumes at: "conn_at l c fd x ch e p w" and up: "state x = kConnected \<or> state x = kDisconnecting"
  shows "\<exists>w'. forceClose c w = Inr w' \<and>
    conn_at l c fd (x\<lparr>state := kDisconnecting\<rparr>) ch (queue_functor True (Fn_forceCloseInLoop c) e) p w' \<and>
    conn_world.more w' = conn_world.more w \<and> queues w' = queues w"
proof -
  define w1 where "w1 = w\<lparr>conns := (conns w)(c \<mapsto> x\<lparr>state := kDisconnecting\<rparr>)\<rparr>"
  have at1: "conn_at l c fd (x\<lparr>state := kDisconnecting\<rparr>) ch e p w1"
    unfolding w1_def by (rule modify_conn_at [OF at]) (simp_all add: conn_atD(3) [OF at])
  have "forceClose c w = queueInLoop l (Fn_forceCloseInLoop c) w1"
    using conn_atD(2,3) [OF at] up by (simp add: forceClose_def modify_conn_def w1_def)
  then show ?thesis using queueInLoop_at [OF at1, of "Fn_forceCloseInLoop c"] by (simp add: w1_def)
qed

lemma delete_Connector_at:
  assumes at: "conn_at l c fd x ch e p w" and q: "queues w l = Some q" "tq_ok [] q"
    and k: "cn_loop (connector w) = l" "cn_channel (connector w) = None"
  shows "\<exists>w'. delete_Connector w = Inr w' \<and> conn_at l c fd x ch e p w' \<and> client w' = client w"
proof -
  obtain q' where "cancelInLoop (cn_timerId (connector w)) q = Inr q'"
    using cancelInLoop_ok [OF q(2)] by blast
  then have "cancel l (cn_timerId (connector w)) w = Inr (w\<lparr>queues := (queues w)(l \<mapsto> q')\<rparr>)"
    using q(1) by (simp add: cancel_def TimerQueue_cancel_def runInLoop_def conn_at_simps [OF at] cancelInLoop_at_def on_queue_def)
  then have "delete_Connector w = Inr (w\<lparr>queues := (queues w)(l \<mapsto> q')\<rparr>)"
    using k by (simp add: delete_Connector_def resetChannel_def)
  then show ?thesis using at by (simp add: conn_at_def epoll_loop_def)
qed

text \<open>
  C36. Destroying a client in its loop's thread, when it is the only owner of a live connection,
  frees the connection at once; but \<open>forceClose\<close> has put its \<open>forceCloseInLoop\<close>, bound to the plain
  pointer, into the loop's queue, where it runs on the freed object. The connection is not closed in
  order: neither its close callback nor \<open>connDestroyed\<close> is queued.
\<close>

theorem client_destructor_dangles:
  assumes at: "conn_at l c fd x ch e p w" and up: "state x = kConnected \<or> state x = kDisconnecting"
    and own: "connection (client w) = Some c" "cl_loop (client w) = l"
    and q: "queues w l = Some q" "tq_ok [] q"
    and k: "cn_loop (connector w) = l" "cn_channel (connector w) = None" and idle: "\<not> eventHandling ch"
  shows "\<exists>w' e'. delete_TcpClient True w = Inr w' \<and> conns w' c = None \<and> loops w' l = Some e' \<and>
    pendingFunctors e' = pendingFunctors e @ [Fn_forceCloseInLoop c] \<and>
    client_functor user l (Fn_forceCloseInLoop c) w' = Inl DanglingPointer"
proof -
  let ?k = "Cl_removeConnection_base l"
  define w1 where "w1 = w\<lparr>conns := (conns w)(c \<mapsto> x\<lparr>closeCb := Some ?k\<rparr>)\<rparr>"
  have at1: "conn_at l c fd (x\<lparr>closeCb := Some ?k\<rparr>) ch e p w1"
    unfolding w1_def by (rule modify_conn_at [OF at]) (simp_all add: conn_atD(3) [OF at])
  have set_cb: "runInLoop l (Fn_setCloseCallback c ?k) (setCloseCallback (Some ?k) c) w = Inr w1"
    using conn_atD(2) [OF at] conn_at_simps(3) [OF at]
    by (simp add: runInLoop_def setCloseCallback_def modify_conn_def w1_def)
  have up1: "state (x\<lparr>closeCb := Some ?k\<rparr>) = kConnected \<or> state (x\<lparr>closeCb := Some ?k\<rparr>) = kDisconnecting"
    using up by simp
  obtain w2 where w2: "forceClose c w1 = Inr w2"
      "conn_at l c fd (x\<lparr>closeCb := Some ?k, state := kDisconnecting\<rparr>) ch
        (queue_functor True (Fn_forceCloseInLoop c) e) p w2"
      "conn_world.more w2 = conn_world.more w1" "queues w2 = queues w1"
    using forceClose_at [OF at1 up1] by auto
  have same: "connector w2 = connector w"
    using w2(3) by (cases w1; cases w2; cases w) (simp add: w1_def)
  obtain w3 where w3: "delete_Connector w2 = Inr w3"
      "conn_at l c fd (x\<lparr>closeCb := Some ?k, state := kDisconnecting\<rparr>) ch
        (queue_functor True (Fn_forceCloseInLoop c) e) p w3"
    using delete_Connector_at [OF w2(2)] q k w2(4) same by (auto simp: w1_def)
  define w4 where "w4 = w3\<lparr>client := (client w3)\<lparr>connection := None\<rparr>,
    conns := (conns w3)(c := None), channels := (channels w3)(conn_channel x := None),
    closed_fds := closed_fds w3 @ [fd]\<rparr>"
  have "delete_TcpClient True w = Inr w4"
    using own conn_at_simps(3) [OF at] set_cb w2(1) w3(1) conn_atD(2,4,6) [OF w3(2)] idle
    by (simp add: delete_TcpClient_def delete_TcpConnection_def delete_Channel_def Let_def w4_def)
  moreover have "client_functor user l (Fn_forceCloseInLoop c) w4 = Inl DanglingPointer"
    by (simp add: forceCloseInLoop_def w4_def)
  ultimately show ?thesis using conn_atD(8) [OF w3(2)]
    by (intro exI [of _ w4] exI [of _ "queue_functor True (Fn_forceCloseInLoop c) e"]) (simp add: w4_def)
qed

theorem client_destructor_dangles_witness:
  "\<exists>w'. delete_TcpClient True connected_demo = Inr w' \<and> conns w' 7 = None \<and>
    client_functor quiet_client 0 (Fn_forceCloseInLoop 7) w' = Inl DanglingPointer"
proof -
  have "state client_conn = kConnected \<or> state client_conn = kDisconnecting"
    "connection (client connected_demo) = Some 7" "cl_loop (client connected_demo) = 0"
    "queues connected_demo 0 = Some new_TimerQueue"
    by (simp_all add: connected_demo_def client_demo_def new_TcpClient_def client_conn_def)
  note args = this
  have "cn_loop (connector connected_demo) = 0" "cn_channel (connector connected_demo) = None"
    "\<not> eventHandling (demo_channel 4)"
    by (simp_all add: connected_demo_def client_demo_def new_Connector_def demo_channel_def new_Channel_def)
  from client_destructor_dangles [OF connected_at args new_queue_ok this, of quiet_client]
  show ?thesis by blast
qed

end
