(* ===== verification/Chat_Programs.thy ===== *)
theory Chat_Programs
  imports Chat Client_Destructor Conn_Frames
begin

text \<open>
  The \<open>main\<close> functions of the chat programs (asio/ChatServer.cpp, asio/ChatClient.cpp). The client
  has two threads, which are interleaved by its list of inputs: a line that the main thread reads, or
  turns of the loop's thread while the main thread waits for one.
\<close>

section \<open>Arguments\<close>

text \<open>A number that an \<open>int\<close> does not hold is undefined for \<open>atoi\<close>.\<close>

definition is_space :: "char \<Rightarrow> bool" where
  "is_space c \<longleftrightarrow> c = CHR '' '' \<or> (9 \<le> (of_char c :: nat) \<and> (of_char c :: nat) \<le> 13)"

definition is_digit :: "char \<Rightarrow> bool" where
  "is_digit c \<longleftrightarrow> 48 \<le> (of_char c :: nat) \<and> (of_char c :: nat) \<le> 57"

definition atoi :: "string \<Rightarrow> int result" where
  "atoi s =
     (let t = dropWhile is_space s; signed = (t \<noteq> [] \<and> hd t \<in> {CHR ''-'', CHR ''+''});
          n = int (undecimal (takeWhile is_digit (if signed then tl t else t)));
          k = (if signed \<and> hd t = CHR ''-'' then - n else n) in
      if - (2 ^ 31) \<le> k \<and> k < 2 ^ 31 then Inr k else Inl OutOfBounds)"

text \<open>\<open>static_cast<uint16_t>(atoi(argv[1]))\<close>, and the address with that port.\<close>

definition argument_address :: "string \<Rightarrow> sockaddr_in result" where
  "argument_address s = rbind (atoi s) (\<lambda>k. Inr (InetAddress_port (word_of_int k)))"

section \<open>The server\<close>

text \<open>
  The loop of the program is built in its main thread, with the addresses of \<open>sp\<close>. The answer is that
  of \<open>loop\<close>; without two arguments the program only prints its usage.
\<close>

definition ChatServer_main ::
    "('a chat_world_scheme \<Rightarrow> nat \<Rightarrow> bool) \<Rightarrow> bool \<Rightarrow> spawned \<Rightarrow> (nat \<Rightarrow> spawned) \<Rightarrow> poll_report list \<Rightarrow>
     string list \<Rightarrow> 'a chat_world_scheme \<Rightarrow> (bool \<times> 'a chat_world_scheme) result" where
  "ChatServer_main alive use_poll sp spawn reports argv w =
     (if length argv > 2 then
        rbind (new_EventLoop use_poll (sp_loop sp) (sp_timerChannel sp) (sp_timerfd sp)
                 (sp_wakeupChannel sp) (sp_wakeupFd sp) w) (\<lambda>w.
        rbind (argument_address (argv ! 1)) (\<lambda>listenAddr.
        rbind (new_ChatServer (sp_loop sp) listenAddr w) (\<lambda>w.
        rbind (atoi (argv ! 2)) (\<lambda>num.
        rbind (ChatServer_start use_poll spawn (ChatServer_setThreadNum num w))
          (loop alive (server_callback chat_server_code)
             (server_functor chat_server_code (sp_loop sp)) (sp_loop sp) reports)))))
      else Inr (True, w))"

section \<open>The client\<close>

datatype client_input = Line "byte list" | Loop_runs "poll_report list"

text \<open>The loop's thread enters \<open>loop\<close> the first time it runs, and goes on with it after that.\<close>

definition loop_thread_runs ::
    "('a chat_client_world_scheme \<Rightarrow> nat \<Rightarrow> bool) \<Rightarrow> loop_ptr \<Rightarrow> poll_report list \<Rightarrow>
     'a chat_client_world_scheme \<Rightarrow> 'a chat_client_world_scheme result" where
  "loop_thread_runs alive l reports w =
     (let exec_cb = client_callback chat_client_code; exec = client_functor chat_client_code l in
      rbind (deref (loops w) l) (\<lambda>e.
      rbind (if looping e
             then loop_turns (\<lambda>w r. loop_turn alive exec_cb exec l r w) l reports (w\<lparr>this_thread := threadId e\<rparr>)
             else loop alive exec_cb exec l reports (w\<lparr>this_thread := threadId e\<rparr>)) (\<lambda>(_, w').
      Inr (w'\<lparr>this_thread := this_thread w\<rparr>))))"

text \<open>\<open>while (std::getline(std::cin, line) && client.connected())\<close>; the inputs end with the file.\<close>

fun client_lines ::
    "('a chat_client_world_scheme \<Rightarrow> nat \<Rightarrow> bool) \<Rightarrow> loop_ptr \<Rightarrow> client_input list \<Rightarrow>
     'a chat_client_world_scheme \<Rightarrow> 'a chat_client_world_scheme result" where
  "client_lines alive l [] w = Inr w"
| "client_lines alive l (Loop_runs reports # q) w =
     rbind (loop_thread_runs alive l reports w) (client_lines alive l q)"
| "client_lines alive l (Line message # q) w =
     (if ChatClient_connected w then rbind (ChatClient_write message w) (client_lines alive l q)
      else Inr w)"

text \<open>
  At the end the client is destroyed, then the thread. The reference of the member \<open>connection_\<close> goes
  before those of the \<open>TcpClient\<close>, of which \<open>unique\<close> says whether they are the last.
\<close>

definition ChatClient_main ::
    "('a chat_client_world_scheme \<Rightarrow> nat \<Rightarrow> bool) \<Rightarrow> bool \<Rightarrow> spawned \<Rightarrow>
     ('a chat_client_world_scheme \<Rightarrow> bool) \<Rightarrow> client_input list \<Rightarrow> string list \<Rightarrow>
     'a chat_client_world_scheme \<Rightarrow> 'a chat_client_world_scheme result" where
  "ChatClient_main alive use_poll sp unique inputs argv w =
     (if length argv > 1 then
        rbind (argument_address (argv ! 1)) (\<lambda>serverAddr.
        rbind (startLoop use_poll sp new_EventLoopThread w) (\<lambda>(l, t, w).
        rbind (ChatClient_connect (new_ChatClient l serverAddr w)) (\<lambda>w.
        rbind (client_lines alive l inputs w) (\<lambda>w.
        rbind (ChatClient_disconnect w) (\<lambda>w.
        rbind (delete_TcpClient (unique w) (w\<lparr>chat_connection := None\<rparr>)) (\<lambda>w.
        rbind (delete_EventLoopThread t w) (\<lambda>(_, w). Inr w)))))))
      else Inr w)"

section \<open>The port\<close>

lemma decimal_digits: "list_all is_digit (decimal n)"
proof (induction n rule: decimal.induct)
  case (1 n)
  have d: "is_digit (char_of (48 + k))" if "k < 10" for k :: nat using that by (simp add: is_digit_def)
  then show ?case using 1 by (subst decimal.simps) simp
qed

lemma decimal_nonempty: "decimal n \<noteq> []"
  by (subst decimal.simps) simp

lemma digit_char: "is_digit c \<Longrightarrow> \<not> is_space c \<and> c \<notin> {CHR ''-'', CHR ''+''}"
  by (auto simp: is_digit_def is_space_def)

lemma atoi_decimal: "n < 2 ^ 31 \<Longrightarrow> atoi (decimal n) = Inr (int n)"
proof -
  assume n: "n < 2 ^ 31"
  obtain c s where s: "decimal n = c # s" using decimal_nonempty by (cases "decimal n") auto
  then have c: "is_digit c" "list_all is_digit s" using decimal_digits [of n] by simp_all
  have "takeWhile is_digit (c # s) = c # s" using c by (simp add: takeWhile_eq_all_conv list_all_iff)
  then show ?thesis using digit_char [OF c(1)] n undecimal_decimal [of n]
    by (simp add: atoi_def s)
qed

text \<open>The programs use the port that their argument names.\<close>

lemma argument_port:
  fixes port :: "16 word"
  shows "argument_address (decimal (unat port)) = Inr (InetAddress_port port)"
proof -
  have "unat port < 2 ^ LENGTH(16)" by (rule unsigned_less)
  then show ?thesis by (simp add: argument_address_def atoi_decimal)
qed

section \<open>Listening\<close>

lemma enable_acceptor:
  assumes lp: "epoll_loop l e p w" and a: "acc_loop a = l" and new: "ep_channels p (acc_fd a) = None"
    and c: "channels w (acc_channel a) = Some ch" "index ch = kNew" "ch_loop ch = l" "ch_fd ch = acc_fd a" "events ch = 0"
    and a': "srv_acceptor (server w) = a" and ok: "call_answers w 0 = 0"
  shows "\<exists>w' e' p' ch'. Acceptor_listen w = Inr w' \<and> epoll_loop l e' p' w' \<and>
    listening_fds w' = insert (acc_fd a) (listening_fds w) \<and>
    epoll_watch (channels w') p' = (epoll_watch (channels w) p)(acc_fd a \<mapsto> (kReadEvent, acc_channel a)) \<and>
    channels w' (acc_channel a) = Some ch' \<and> ch' = ch\<lparr>events := kReadEvent, index := kAdded\<rparr> \<and>
    e' = e\<lparr>loop_poller := Epoll p'\<rparr> \<and> calm_loop e e' \<and> server_world.more w' = server_world.more w \<and>
    conns w' = conns w \<and> channels w' = (channels w)(acc_channel a \<mapsto> ch') \<and> sent w' = sent w \<and>
    wr_shut w' = wr_shut w \<and> accept_answers w' = accept_answers w \<and> new_ptrs w' = new_ptrs w \<and>
    read_answers w' = read_answers w \<and> write_answers w' = write_answers w \<and>
    server w' = (server w)\<lparr>srv_acceptor := a\<lparr>listenning := True\<rparr>\<rparr>"
proof -
  define w1 where "w1 = w\<lparr>server := (server w)\<lparr>srv_acceptor := a\<lparr>listenning := True\<rparr>\<rparr>,
      call_answers := \<lambda>i. call_answers w (Suc i), listening_fds := insert (acc_fd a) (listening_fds w)\<rparr>"
  have lp1: "epoll_loop l e p w1" using lp by (simp add: w1_def epoll_loop_def)
  have c1: "channels w1 (acc_channel a) = Some ch" using c(1) by (simp add: w1_def)
  have "ep_channels p (ch_fd ch) = None" using new c(4) by simp
  from enableReading_new [OF lp1 c1 c(3,2,5) this] obtain p' where
      p': "enableReading (acc_channel a) w1 =
        Inr (store_channel l e p' (acc_channel a) (ch\<lparr>events := kReadEvent, index := kAdded\<rparr>) w1)"
      "epoll_loop l (e\<lparr>loop_poller := Epoll p'\<rparr>) p'
        (store_channel l e p' (acc_channel a) (ch\<lparr>events := kReadEvent, index := kAdded\<rparr>) w1)"
      "epoll_watch ((channels w1)(acc_channel a \<mapsto> ch\<lparr>events := kReadEvent, index := kAdded\<rparr>)) p' =
        (epoll_watch (channels w1) p)(ch_fd ch \<mapsto> (kReadEvent, acc_channel a))"
    by blast
  have "loops w1 l = Some e" using lp1 by (simp add: epoll_loop_def)
  from map_relD [OF calm_loops [OF enableReading_calm [OF p'(1)]] this]
  have "calm_loop e (e\<lparr>loop_poller := Epoll p'\<rparr>)" by simp
  moreover have "Acceptor_listen w = enableReading (acc_channel a) w1"
    using lp a a' ok by (simp add: Acceptor_listen_def assertInLoopThread_def isInLoopThread_def epoll_loop_def
        Let_def Socket_listen_def sys_call_def modify_acceptor_def w1_def)
  ultimately show ?thesis using p' c
    by (intro exI [of _ "store_channel l e p' (acc_channel a) (ch\<lparr>events := kReadEvent, index := kAdded\<rparr>) w1"]
        exI [of _ "e\<lparr>loop_poller := Epoll p'\<rparr>"] exI [of _ p'] exI [of _ "ch\<lparr>events := kReadEvent, index := kAdded\<rparr>"])
      (simp add: store_channel_def w1_def)
qed

lemma more_chat: "server_world.more w' = server_world.more w \<Longrightarrow> chat_connections w' = chat_connections w"
  by (cases w; cases w') simp

text \<open>
  Starting the chat server. Constructed on the loop of its thread and started, without threads of
  its own, the server listens on the descriptor of its acceptor: the kernel watches that for reading,
  and what the event runs is \<open>Acceptor::handleRead\<close>, which has its callback. Nobody is connected.
\<close>

lemma chat_server_listens:
  fixes w :: "'a chat_world_scheme"
  assumes lp: "epoll_loop l e p w" and fd: "ep_channels p (fd_answers w 0) = None"
    and chan: "channels w (new_ptrs w 0) = None"
    and ok: "call_answers w 0 = 0" "call_answers w (Suc 0) = 0"
  shows "\<exists>w' e' p' ch. rbind (new_ChatServer l a w) (ChatServer_start use_poll spawn) = Inr w' \<and>
    epoll_loop l e' p' w' \<and> listening_fds w' = insert (fd_answers w 0) (listening_fds w) \<and>
    epoll_watch (channels w') p' =
      (epoll_watch (channels w) p)(fd_answers w 0 \<mapsto> (kReadEvent, new_ptrs w 0)) \<and>
    channels w' (new_ptrs w 0) = Some ch \<and> ch = (new_Channel l (fd_answers w 0))
      \<lparr>readCallback := Some Cb_Acceptor_handleRead, events := kReadEvent, index := kAdded\<rparr> \<and>
    e' = e\<lparr>loop_poller := Epoll p'\<rparr> \<and> calm_loop e e' \<and> chat_connections w' = [] \<and>
    conns w' = conns w \<and> channels w' = (channels w)(new_ptrs w 0 \<mapsto> ch) \<and> sent w' = sent w \<and>
    wr_shut w' = wr_shut w \<and> accept_answers w' = accept_answers w \<and> new_ptrs w' = (\<lambda>i. new_ptrs w (Suc i)) \<and>
    read_answers w' = read_answers w \<and> write_answers w' = write_answers w \<and>
    server w' = \<lparr>srv_loop = l, srv_name = toIpPort a, started = True,
      srv_acceptor = \<lparr>acc_loop = l, acc_fd = fd_answers w 0, acc_channel = new_ptrs w 0, listenning = True,
        acc_cb = True, idleFd = fd_answers w (Suc 0)\<rparr>,
      threadPool = (new_EventLoopThreadPool l)\<lparr>pool_started := True\<rparr>, nextConnId = 1,
      connections = Map.empty, srv_connCb = True, srv_messaCb = True, srv_wriComCb = False\<rparr>"
proof -
  define c where "c = new_ptrs w 0"
  define fd where "fd = fd_answers w 0"
  define ch where "ch = (new_Channel l fd)\<lparr>readCallback := Some Cb_Acceptor_handleRead\<rparr>"
  define acc where "acc = \<lparr>acc_loop = l, acc_fd = fd, acc_channel = c, listenning = False, acc_cb = True,
      idleFd = fd_answers w (Suc 0)\<rparr>"
  define s where "s = \<lparr>srv_loop = l, srv_name = toIpPort a, started = False, srv_acceptor = acc,
      threadPool = new_EventLoopThreadPool l, nextConnId = 1, connections = Map.empty, srv_connCb = True,
      srv_messaCb = True, srv_wriComCb = False\<rparr>"
  define w1 where "w1 = w\<lparr>new_ptrs := \<lambda>i. new_ptrs w (Suc i), fd_answers := \<lambda>i. fd_answers w (Suc (Suc i)),
      sock_opts := sock_opts w @ [(fd, SO_REUSEADDR, True)], call_answers := \<lambda>i. call_answers w (Suc i),
      channels := (channels w)(c \<mapsto> ch), server := s, chat_connections := []\<rparr>"
  have new: "new_ChatServer l a w = Inr w1"
    using ok by (simp add: new_ChatServer_def new_TcpServer_def new_Acceptor_def
      Socket_createNonblocking_def alloc_def sys_open_def bindAddress_def sys_call_def setReuseAddr_def setsockopt_def
      modify_channel_def TcpServer_setMessageCallback_def TcpServer_setConnectionCallback_def
      Acceptor_setNewConnectionCallback_def w1_def s_def acc_def ch_def c_def fd_def)
  have i: "index ch = kNew" "ch_loop ch = l" "ch_fd ch = fd" "events ch = 0"
    by (simp_all add: ch_def new_Channel_def index_values)
  define w2 where "w2 = w1\<lparr>server := s\<lparr>started := True,
      threadPool := (new_EventLoopThreadPool l)\<lparr>pool_started := True\<rparr>\<rparr>\<rparr>"
  have loops: "loops w2 = loops w" "this_thread w2 = this_thread w" "channels w2 = (channels w)(c \<mapsto> ch)"
    by (simp_all add: w2_def w1_def)
  note same = epoll_loop_new_channel [OF lp chan i(1), folded c_def]
  have lp2: "epoll_loop l e p w2" using lp same(2) by (simp add: epoll_loop_def loops)
  have "isInLoopThread l v = Inr True" if "loops v = loops w" "this_thread v = this_thread w"
      for v :: "'a chat_world_scheme"
    using lp that by (simp add: isInLoopThread_def epoll_loop_def)
  then have start: "ChatServer_start use_poll spawn w1 = Acceptor_listen w2"
    by (simp add: ChatServer_start_def TcpServer_start_def pool_start_def assertInLoopThread_def runInLoop_def
      new_EventLoopThreadPool_def w1_def w2_def s_def acc_def)
  have a: "acc_loop acc = l" "ep_channels p (acc_fd acc) = None" "channels w2 (acc_channel acc) = Some ch"
      "ch_fd ch = acc_fd acc" "srv_acceptor (server w2) = acc" "call_answers w2 0 = 0"
    using fd ok by (simp_all add: acc_def fd_def i loops w2_def s_def w1_def)
  from enable_acceptor [OF lp2 a(1-3) i(1,2) a(4) i(4) a(5,6)] obtain w' e' p' ch' where w':
      "Acceptor_listen w2 = Inr w'" "epoll_loop l e' p' w'"
      "listening_fds w' = insert (acc_fd acc) (listening_fds w2)"
      "epoll_watch (channels w') p' = (epoll_watch (channels w2) p)(acc_fd acc \<mapsto> (kReadEvent, acc_channel acc))"
      "channels w' (acc_channel acc) = Some ch'" "ch' = ch\<lparr>events := kReadEvent, index := kAdded\<rparr>"
      "e' = e\<lparr>loop_poller := Epoll p'\<rparr>" "calm_loop e e'" "conns w' = conns w2" "channels w' = (channels w2)(acc_channel acc \<mapsto> ch')"
      "sent w' = sent w2" "wr_shut w' = wr_shut w2" "accept_answers w' = accept_answers w2" "new_ptrs w' = new_ptrs w2"
      "read_answers w' = read_answers w2" "write_answers w' = write_answers w2"
      "server_world.more w' = server_world.more w2"
      "server w' = (server w2)\<lparr>srv_acceptor := acc\<lparr>listenning := True\<rparr>\<rparr>"
    by blast
  have "chat_connections w' = []"
    unfolding more_chat [OF w'(17)] by (simp add: w2_def w1_def)
  then show ?thesis using w' new start same(1)
    by (intro exI [of _ w'] exI [of _ e'] exI [of _ p'] exI [of _ ch'])
      (simp add: loops acc_def c_def fd_def ch_def w2_def w1_def s_def)
qed

section \<open>The lines\<close>

text \<open>A line that is there before the connection is up ends the loop, and is not sent.\<close>

lemma early_line_is_lost:
  "\<not> ChatClient_connected w \<Longrightarrow> client_lines alive l (Line message # q) w = Inr w"
  by simp

text \<open>
  While the connection is up, the lines that the main thread reads are queued in the connection's
  loop, framed and in order. None of them is lost between the threads.
\<close>

lemma codec_send_queued:
  assumes x: "conns w c = Some x" "state x = kConnected"
    and e: "loops w (conn_loop x) = Some e" "this_thread w \<noteq> threadId e" and m: "length m < 2 ^ 31"
  shows "codec_send_to c m w =
    Inr (w\<lparr>loops := (loops w)(conn_loop x \<mapsto> queue_functor False (Fn_sendInLoop c (frame m)) e)\<rparr>)"
proof -
  obtain b where b: "\<forall>snd_buf s. codec_send snd_buf m s = snd_buf b (s :: 'a conn_world_scheme)"
      "buffer_ok b" "contents b = frame m"
    using codec_send_eq [OF m] by (elim exE conjE) (rule that)
  have "retrieveAsString b = Inr (frame m, retrieveAll b)"
    using retrieveAsString_whole [OF b(2)] b(3) by simp
  then show ?thesis using x e b(1)
    by (simp add: codec_send_to_def send_buffer_def runInLoop_def queueInLoop_def isInLoopThread_def on_loop_def)
qed

definition with_lines :: "conn_ptr \<Rightarrow> byte list list \<Rightarrow> event_loop \<Rightarrow> event_loop" where
  "with_lines c = fold (\<lambda>m. queue_functor False (Fn_sendInLoop c (frame m)))"

lemma with_lines:
  "pendingFunctors (with_lines c ms e) = pendingFunctors e @ map (\<lambda>m. Fn_sendInLoop c (frame m)) ms"
  "threadId (with_lines c ms e) = threadId e" "loop_poller (with_lines c ms e) = loop_poller e"
  by (induction ms arbitrary: e)
    (simp_all add: with_lines_def queue_functor_def push_functor_def wakeup_def Let_def)

lemma lines_queued:
  assumes "chat_connection w = Some c" and "chat_connected w" and "conns w c = Some x"
    and "state x = kConnected" and "loops w (conn_loop x) = Some e" and "this_thread w \<noteq> threadId e"
    and "\<forall>m\<in>set ms. length m < 2 ^ 31"
  shows "client_lines alive l (map Line ms) w =
    Inr (w\<lparr>loops := (loops w)(conn_loop x \<mapsto> with_lines c ms e)\<rparr>)"
  using assms
proof (induction ms arbitrary: w e)
  case (Cons m ms)
  define w1 where "w1 = w\<lparr>loops := (loops w)(conn_loop x \<mapsto> with_lines c [m] e)\<rparr>"
  have m: "length m < 2 ^ 31" using Cons.prems(7) by simp
  have "ChatClient_write m w = Inr w1"
    using Cons.prems(1) codec_send_queued [OF Cons.prems(3-6) m]
    by (simp add: ChatClient_write_def w1_def with_lines_def)
  then have "client_lines alive l (map Line (m # ms)) w = client_lines alive l (map Line ms) w1"
    using Cons.prems(2) by (simp add: ChatClient_connected_def)
  also have "\<dots> = Inr (w1\<lparr>loops := (loops w1)(conn_loop x \<mapsto> with_lines c ms (with_lines c [m] e))\<rparr>)"
    by (rule Cons.IH) (use Cons.prems in \<open>simp_all add: w1_def with_lines\<close>)
  finally show ?case by (simp add: w1_def with_lines_def fun_upd_def cong: if_cong)
qed (simp add: with_lines_def map_upd_triv)

text \<open>The queued lines, run in the loop's thread, are sends.\<close>

lemma run_sends:
  assumes "session_ok l c fd s w" and "\<not> closing s"
    and "rfold (client_functor user l) (map (Fn_sendInLoop c) ds) w = Inr w'"
  shows "session_ok l c fd (s\<lparr>accepted := accepted s @ concat ds\<rparr>) w'"
  using assms
proof (induction ds arbitrary: s w)
  case (Cons d ds)
  obtain w1 where w1: "sendInLoop c d w = Inr w1"
      "rfold (client_functor user l) (map (Fn_sendInLoop c) ds) w1 = Inr w'"
    using Cons.prems(3) by (auto simp: rbind_Inr_iff)
  obtain x ch e p where at: "conn_at l c fd x ch e p w" "state x = kConnected"
    using Cons.prems(1,2) by (elim session_okE) simp
  have "send c d w = Inr w1" using w1(1) at(2) by (simp add: send_at [OF at(1)])
  from session_send [OF Cons.prems(1) this] show ?case
    using Cons.IH [OF _ _ w1(2), of "s\<lparr>accepted := accepted s @ d\<rparr>"] Cons.prems(2) by simp
qed simp

text \<open>
  C11. What is typed reaches the connection's stream. The lines that the client's main thread reads
  while the connection is up are queued for the loop's thread; when that has run its queued functors,
  the frames of all the lines, in order, are at the end of the stream of the connection.
\<close>

theorem typed_lines_sent:
  fixes w :: "'a chat_client_world_scheme"
  assumes s: "session_ok l c fd s (w\<lparr>this_thread := t\<rparr>)" "\<not> closing s" and other: "this_thread w \<noteq> t"
    and up: "chat_connection w = Some c" "chat_connected w"
    and idle: "\<forall>e. loops w l = Some e \<longrightarrow> pendingFunctors e = []"
    and ms: "\<forall>m\<in>set ms. length m < 2 ^ 31"
    and lines: "client_lines alive l (map Line ms) w = Inr w1"
    and run: "doPendingFunctors (client_functor chat_client_code l) l (w1\<lparr>this_thread := t\<rparr>) = Inr w2"
  shows "session_ok l c fd (s\<lparr>accepted := accepted s @ concat (map frame ms)\<rparr>) w2"
proof -
  obtain x ch e p where at: "conn_at l c fd x ch e p (w\<lparr>this_thread := t\<rparr>)" "state x = kConnected"
    using s by (elim session_okE) simp
  have e: "loops w l = Some e" "threadId e = t" "conn_loop x = l" "conns w c = Some x"
      "epoll_ok l (channels w, p)" "loop_poller e = Epoll p"
    using conn_atD [OF at(1)] by (simp_all add: epoll_loop_def)
  have w1: "w1 = w\<lparr>loops := (loops w)(l \<mapsto> with_lines c ms e)\<rparr>"
    using lines_queued [OF up _ at(2) _ _ ms, of e alive l] e other lines by simp
  define e2 where "e2 = with_lines c ms e\<lparr>callingPendingFunctors := True, pendingFunctors := []\<rparr>"
  define v where "v = w1\<lparr>this_thread := t, loops := (loops w)(l \<mapsto> e2)\<rparr>"
  have funs: "pendingFunctors (with_lines c ms e) = map (Fn_sendInLoop c) (map frame ms)"
    using idle e(1) by (simp add: with_lines)
  obtain w3 where w3: "rfold (client_functor chat_client_code l) (map (Fn_sendInLoop c) (map frame ms)) v = Inr w3"
      "on_loop l done_pending w3 = Inr w2"
    using run by (auto simp: doPendingFunctors_def swap_pending_def rbind_Inr_iff funs w1 v_def e2_def)
  have same: "inputBuffer y = b \<Longrightarrow> y\<lparr>inputBuffer := b\<rparr> = y" for y :: conn and b by (cases y) simp
  have "epoll_loop l e2 p v" using e by (simp add: epoll_loop_def v_def w1 e2_def with_lines)
  then have "session_ok l c fd s v"
    by (rule session_frame [OF s(1)]) (auto simp: v_def w1 same_registration_def intro: same [symmetric])
  from run_sends [OF this s(2) w3(1)] have s3: "session_ok l c fd (s\<lparr>accepted := accepted s @ concat (map frame ms)\<rparr>) w3" .
  then obtain x3 ch3 e3 p3 where "conn_at l c fd x3 ch3 e3 p3 w3" by (elim session_okE) (rule that)
  then have loop: "epoll_loop l (done_pending e3) p3 w2" and w2: "w2 = w3\<lparr>loops := (loops w3)(l \<mapsto> done_pending e3)\<rparr>"
    using w3(2) conn_atD(1) [of l c fd x3 ch3 e3 p3 w3] by (auto simp: on_loop_def epoll_loop_def done_pending_def)
  show ?thesis
    by (rule session_frame [OF s3 loop]) (auto simp: w2 same_registration_def intro: same [symmetric])
qed

text \<open>A client whose connection is up in the loop of thread 1, while thread 2 reads one line of one byte.\<close>

definition typed_demo :: chat_client_world where
  "typed_demo = \<lparr>channels = [20 \<mapsto> demo_channel 3], queues = Map.empty, clock = clock empty_world,
     timer_seq = 0, loops = [0 \<mapsto> demo_loop 3], this_thread = 2, loopInThread = [1 \<mapsto> 0],
     conns = [7 \<mapsto> demo_conn kConnected new_Buffer], sent = (\<lambda>_. []), wr_shut = {}, closed_fds = [],
     write_answers = (\<lambda>_. 10), read_answers = (\<lambda>_. Inr []), fd_answers = (\<lambda>_. 9),
     call_answers = (\<lambda>_. 0), accept_answers = (\<lambda>_. Inl EMFILE), local_addr = (\<lambda>_. Some (InetAddress_port 4000)),
     peer_addr = (\<lambda>_. Some (InetAddress_port 80)), socket_errors = (\<lambda>_. 0), listening_fds = {},
     sock_opts = [], new_ptrs = (\<lambda>i. 50 + i), connector = new_Connector 0 (InetAddress_port 80),
     client = new_TcpClient 0 ''ChatClient'', chat_connection = Some 7, chat_connected = True, printed = []\<rparr>"

lemma typed_demo_at:
  "conn_at 0 7 5 (demo_conn kConnected new_Buffer) (demo_channel 3) (demo_loop 3) (demo_poller 3)
     (typed_demo\<lparr>this_thread := 1\<rparr>)"
  by (auto simp: conn_at_def epoll_loop_def epoll_ok_def typed_demo_def demo_conn_def
      demo_channel_def demo_loop_def demo_poller_def small_loop_def index_values epoll_watch_def
      new_EpollPoller_def new_Channel_def interest_def ctl_step_def fun_eq_iff split: if_splits)

theorem typed_lines_sent_witness:
  "\<exists>w1 w2. client_lines (\<lambda>_ _. True) 0 (map Line [[42]]) typed_demo = Inr w1 \<and>
    doPendingFunctors (client_functor chat_client_code 0) 0 (w1\<lparr>this_thread := 1\<rparr>) = Inr w2 \<and>
    session_ok 0 7 5 \<lparr>accepted = frame [42], closing = False\<rparr> w2"
proof -
  let ?x = "demo_conn kConnected new_Buffer" and ?e = "with_lines 7 [[42]] (demo_loop 3)"
  have demo: "chat_connection typed_demo = Some 7" "chat_connected typed_demo" "conns typed_demo 7 = Some ?x"
      "loops typed_demo 0 = Some (demo_loop 3)" "this_thread typed_demo = 2" "threadId (demo_loop 3) = 1"
      "pendingFunctors (demo_loop 3) = []" "sent typed_demo = (\<lambda>_. [])" "wr_shut typed_demo = {}"
      "write_answers typed_demo = (\<lambda>_. 10)" "wriComCb ?x = False"
    by (simp_all add: typed_demo_def demo_loop_def small_loop_def demo_conn_def)
  define w1 where "w1 = typed_demo\<lparr>loops := (loops typed_demo)(0 \<mapsto> ?e)\<rparr>"
  have lines: "client_lines (\<lambda>_ _. True) 0 (map Line [[42]]) typed_demo = Inr w1"
    using lines_queued [OF demo(1-3), of "demo_loop 3" "[[42]]"] demo by (simp add: w1_def)
  have s: "session_ok 0 7 5 \<lparr>accepted = [], closing = False\<rparr> (typed_demo\<lparr>this_thread := 1\<rparr>)"
    using new_Buffer_ok demo by (intro session_okI [OF typed_demo_at]) simp_all
  define v where "v = typed_demo\<lparr>this_thread := 1,
    loops := (loops typed_demo)(0 \<mapsto> ?e\<lparr>callingPendingFunctors := True, pendingFunctors := []\<rparr>)\<rparr>"
  have at: "conn_at 0 7 5 ?x (demo_channel 3) (?e\<lparr>callingPendingFunctors := True, pendingFunctors := []\<rparr>)
      (demo_poller 3) v"
    using typed_demo_at by (simp add: conn_at_def epoll_loop_def v_def with_lines)
  have "send 7 (frame [42]) v = Inr (snd (sys_write 5 (frame [42]) v))"
    using send_whole [OF at, of "frame [42]"] new_Buffer_ok demo by (simp add: v_def)
  then have "sendInLoop 7 (frame [42]) v = Inr (snd (sys_write 5 (frame [42]) v))"
    by (simp add: send_at [OF at])
  then obtain w2 where run: "doPendingFunctors (client_functor chat_client_code 0) 0 (w1\<lparr>this_thread := 1\<rparr>) = Inr w2"
    unfolding v_def
    by (auto simp: doPendingFunctors_def swap_pending_def w1_def with_lines demo on_loop_def sys_write_def Let_def)
  show ?thesis
    using typed_lines_sent [OF s _ _ demo(1,2) _ _ lines run] lines run demo by simp
qed

end
