(* ===== verification/Chat_Room.thy ===== *)
theory Chat_Room
  imports Chat_Turn Chat_Programs
begin

text \<open>
  The chat server as a whole refines a chat room: whatever the clients do, turn after turn of the
  server's loop, the streams that it writes are those of the abstract room, as long as no turn ends
  abnormally. The server has no threads of its own, its poller is epoll, and a turn handles one event.
\<close>

section \<open>The room\<close>

record room =
  present :: "conn_ptr set"
  stream :: "conn_ptr \<Rightarrow> session"
  unparsed :: "conn_ptr \<Rightarrow> byte list"

datatype room_event = Arrives conn_ptr | Says conn_ptr "byte list" | Leaves conn_ptr

definition empty_room :: room where
  "empty_room = \<lparr>present = {}, stream = (\<lambda>_. \<lparr>accepted = [], closing = False\<rparr>), unparsed = (\<lambda>_. [])\<rparr>"

text \<open>
  Who is present hears every message; a bad header closes the session of the one who sent it.
\<close>

fun room_step :: "room_event \<Rightarrow> room \<Rightarrow> room" where
  "room_step (Arrives c) R = R\<lparr>present := insert c (present R),
     stream := (stream R)(c := \<lparr>accepted = [], closing = False\<rparr>), unparsed := (unparsed R)(c := [])\<rparr>"
| "room_step (Says c d) R = (case parse_frames (unparsed R c @ d) of (ms, rest, bad) \<Rightarrow>
     R\<lparr>stream := (\<lambda>k. fold session_step
         ((if k \<in> present R then map (\<lambda>m. Op_send (frame m)) ms else []) @
          (if bad \<and> k = c then [Op_shutdown] else [])) (stream R k)),
       unparsed := (unparsed R)(c := rest)\<rparr>)"
| "room_step (Leaves c) R = R\<lparr>present := present R - {c}\<rparr>"

section \<open>The server\<close>

definition conn_member :: "room \<Rightarrow> conn_ptr \<Rightarrow> tcp_server \<Rightarrow> conn \<Rightarrow> bool" where
  "conn_member R c s x \<longleftrightarrow> buffer_ok (inputBuffer x) \<and> contents (inputBuffer x) = unparsed R c \<and>
     connCb x \<and> messaCb x \<and> \<not> wriComCb x \<and> closeCb x = Some Cl_TcpServer_removeConnection \<and>
     connections s (conn_name x) = Some c"

definition channel_member :: "channel_callback \<Rightarrow> channel \<Rightarrow> bool" where
  "channel_member cb ch \<longleftrightarrow> readCallback ch = Some cb \<and> writeCallback ch = None \<and> \<not> tied ch"

definition member_ok :: "room \<Rightarrow> conn_ptr \<Rightarrow> 'a server_world_scheme \<Rightarrow> bool" where
  "member_ok R c w \<longleftrightarrow> (\<exists>x ch. conns w c = Some x \<and> channels w (conn_channel x) = Some ch \<and>
     conn_member R c (server w) x \<and> channel_member (Cb_TcpConnection_handleRead c) ch)"

definition server_ok :: "loop_ptr \<Rightarrow> tcp_server \<Rightarrow> bool" where
  "server_ok l s \<longleftrightarrow> srv_loop s = l \<and> srv_connCb s \<and> srv_messaCb s \<and> \<not> srv_wriComCb s \<and>
     baseLoop (threadPool s) = l \<and> pool_loops (threadPool s) = [] \<and>
     acc_loop (srv_acceptor s) = l \<and> acc_cb (srv_acceptor s) \<and> names_ok s \<and> 0 < sint (nextConnId s)"

definition acceptor_ok :: "loop_ptr \<Rightarrow> 'a server_world_scheme \<Rightarrow> bool" where
  "acceptor_ok l w \<longleftrightarrow> (\<exists>ch. channels w (acc_channel (srv_acceptor (server w))) = Some ch \<and>
     ch_loop ch = l \<and> index ch \<noteq> kNew \<and> channel_member Cb_Acceptor_handleRead ch)"

definition loop_idle :: "loop_ptr \<Rightarrow> 'a conn_world_scheme \<Rightarrow> bool" where
  "loop_idle l w \<longleftrightarrow> (\<exists>e p. epoll_loop l e p w \<and> pendingFunctors e = [] \<and> poller_ready (loop_poller e))"

definition room_at :: "loop_ptr \<Rightarrow> room \<Rightarrow> conn_ptr set \<Rightarrow> 'a server_world_scheme \<Rightarrow> bool" where
  "room_at l R M w \<longleftrightarrow> (\<exists>fd. sessions_ok l fd (stream R) M w) \<and> (\<forall>c\<in>M. member_ok R c w) \<and>
     server_ok l (server w) \<and> acceptor_ok l w"

definition room_ok :: "loop_ptr \<Rightarrow> room \<Rightarrow> 'a chat_world_scheme \<Rightarrow> bool" where
  "room_ok l R w \<longleftrightarrow> room_at l R (present R) w \<and> ascending (chat_connections w) \<and>
     set (chat_connections w) = present R \<and> loop_idle l w"

section \<open>Calm steps\<close>

lemma calm_more: "calm w w' \<Longrightarrow> server w' = server (w :: 'a server_world_scheme)"
  by (cases w; cases w') (simp add: calm_def)

lemma calm_chat: "calm w w' \<Longrightarrow> chat_connections w' = chat_connections w"
  by (cases w; cases w') (simp add: calm_def)

lemma member_calm:
  fixes w :: "'a server_world_scheme"
  assumes "calm w w'" and "member_ok R c w"
  shows "member_ok R c w'"
proof -
  obtain x ch where x: "conns w c = Some x" "channels w (conn_channel x) = Some ch"
      "conn_member R c (server w) x" "channel_member (Cb_TcpConnection_handleRead c) ch"
    using assms(2) by (auto simp: member_ok_def)
  have maps: "map_rel calm_conn (conns w) (conns w')" "map_rel calm_channel (channels w) (channels w')"
    using assms(1) by (simp_all add: calm_def)
  obtain x' where x': "conns w' c = Some x'" "calm_conn x x'" using map_relD [OF maps(1) x(1)] by blast
  obtain ch' where ch': "channels w' (conn_channel x) = Some ch'" "calm_channel ch ch'"
    using map_relD [OF maps(2) x(2)] by blast
  have "conn_member R c (server w') x'" "channel_member (Cb_TcpConnection_handleRead c) ch'"
    using x(3,4) x'(2) ch'(2) calm_more [OF assms(1)]
    by (simp_all add: conn_member_def channel_member_def calm_conn_def calm_channel_def)
  moreover have "channels w' (conn_channel x') = Some ch'" using ch'(1) x'(2) by (simp add: calm_conn_def)
  ultimately show ?thesis using x'(1) by (auto simp: member_ok_def)
qed

lemma acceptor_calm:
  fixes w :: "'a server_world_scheme"
  assumes "calm w w'" and "acceptor_ok l w"
  shows "acceptor_ok l w'"
proof -
  obtain ch where ch: "channels w (acc_channel (srv_acceptor (server w))) = Some ch"
      "ch_loop ch = l" "index ch \<noteq> kNew" "channel_member Cb_Acceptor_handleRead ch"
    using assms(2) by (auto simp: acceptor_ok_def)
  have "map_rel calm_channel (channels w) (channels w')" using assms(1) by (simp add: calm_def)
  from map_relD [OF this ch(1)] obtain ch' where
      "channels w' (acc_channel (srv_acceptor (server w))) = Some ch'" "calm_channel ch ch'" by blast
  then show ?thesis using ch(2-4) calm_more [OF assms(1)]
    by (auto simp: acceptor_ok_def calm_channel_def channel_member_def)
qed

lemma loop_calm:
  assumes "calm w w'" and "loop_idle l w" and "epoll_loop l e p w'"
  shows "loop_idle l w'"
proof -
  obtain e0 p0 where e0: "epoll_loop l e0 p0 w" "pendingFunctors e0 = []" "poller_ready (loop_poller e0)"
    using assms(2) by (auto simp: loop_idle_def)
  have "map_rel calm_loop (loops w) (loops w')" "loops w l = Some e0"
    using assms(1) e0(1) by (simp_all add: calm_def epoll_loop_def)
  from map_relD [OF this] have "calm_loop e0 e" using assms(3) by (auto simp: epoll_loop_def)
  then show ?thesis using e0(2,3) assms(3) unfolding loop_idle_def calm_loop_def
    by (intro exI [of _ e] exI [of _ p]) simp
qed

lemma room_calm:
  assumes "room_at l R M w" and "calm w w'" and "\<exists>fd. sessions_ok l fd (stream R) M w'"
  shows "room_at l R M w'"
  using assms(1,3) calm_more [OF assms(2)] member_calm [OF assms(2)] acceptor_calm [OF assms(2)]
  by (simp add: room_at_def)

text \<open>Steps that do not touch the sessions at all.\<close>

lemma room_frame:
  fixes w :: "'a server_world_scheme"
  assumes ok: "room_at l R M w" and calm: "calm w w'" and loop: "epoll_loop l e p w'"
    and chan: "\<And>k ch. channels w k = Some ch \<Longrightarrow> \<exists>ch'. channels w' k = Some ch' \<and> same_registration ch ch'"
    and same: "conns w' = conns w" "sent w' = sent w" "wr_shut w' = wr_shut w"
  shows "room_at l R M w'"
proof -
  obtain fd where s: "sessions_ok l fd (stream R) M w" using ok by (auto simp: room_at_def)
  have "sessions_ok l fd (stream R) M w'"
  proof (rule sessions_frame [OF s loop _ chan same(2,3)])
    show "conns w k = Some y \<Longrightarrow> \<exists>b. conns w' k = Some (y\<lparr>inputBuffer := b\<rparr>)" for k y
      by (cases y) (simp add: same(1))
  qed
  then show ?thesis using room_calm [OF ok calm] by blast
qed

section \<open>The end of a turn\<close>

lemma sessions_empty [simp]: "sessions_ok l fd s {} w"
  by (simp add: sessions_ok_def)

lemma room_idle:
  assumes ok: "room_ok l R w"
  shows "\<exists>w'. doPendingFunctors exec l w = Inr w' \<and> room_ok l R w' \<and> conns w' = conns w \<and>
    chat_connections w' = chat_connections w \<and> read_answers w' = read_answers w \<and> write_answers w' = write_answers w"
proof -
  obtain e p where e: "epoll_loop l e p w" "pendingFunctors e = []"
    using ok by (auto simp: room_ok_def loop_idle_def)
  define w' where "w' = w\<lparr>loops := (loops w)(l \<mapsto> e\<lparr>callingPendingFunctors := False\<rparr>)\<rparr>"
  have "loops w l = Some e" using e(1) by (simp add: epoll_loop_def)
  from no_functors [OF this e(2)] have run: "doPendingFunctors exec l w = Inr w'" by (simp add: w'_def)
  have loop: "epoll_loop l (e\<lparr>callingPendingFunctors := False\<rparr>) p w'"
    using e(1) by (simp add: epoll_loop_def w'_def)
  have calm: "calm w w'" using e(1)
    by (simp add: calm_def w'_def map_rel_upd calm_loop_def epoll_loop_def)
  have "room_at l R (present R) w'"
    using ok by (intro room_frame [OF _ calm loop]) (simp_all add: room_ok_def w'_def same_registration_def)
  moreover have "loop_idle l w'" using loop_calm [OF calm _ loop] ok by (simp add: room_ok_def)
  ultimately have "room_ok l R w'" using ok calm_chat [OF calm] by (simp add: room_ok_def)
  then show ?thesis using run by (simp add: w'_def)
qed

section \<open>The two ends of a turn\<close>

lemma polled_room:
  fixes w :: "'a server_world_scheme"
  assumes "room_at l R M w" and polled: "polled l k w w'" and "epoll_loop l e p w'"
  shows "room_at l R M w'"
  by (rule room_frame [OF assms(1) polled_calm [OF polled] assms(3)])
    (use polled in \<open>auto simp: polled_def same_registration_def\<close>)

lemma room_handled:
  fixes w :: "'a chat_world_scheme"
  assumes ok: "room_at l R (present R) w" "ascending (chat_connections w)" "set (chat_connections w) = present R"
    and loop: "epoll_loop l e p w" "pendingFunctors e = []" "poller_ready (loop_poller e)"
    and ch: "channels w k = Some ch" "revents ch = POLLIN"
  shows "\<exists>w'. handled exec_cb exec l k now w = Inr w' \<and> room_ok l R w' \<and> conns w' = conns w \<and>
    chat_connections w' = chat_connections w \<and> read_answers w' = read_answers w \<and> write_answers w' = write_answers w"
proof -
  define w' where "w' = w\<lparr>channels := (channels w)(k \<mapsto> ch\<lparr>eventHandling := False\<rparr>)\<rparr>"
  note aft = unhandled [OF loop(1) ch(1), folded w'_def]
  have "room_at l R (present R) w'"
    by (rule room_frame [OF ok(1) aft]) (use ch in \<open>auto simp: w'_def same_registration_def\<close>)
  then have "room_ok l R w'"
    using ok(2,3) loop(2,3) aft(2) calm_chat [OF aft(1)] by (auto simp: room_ok_def loop_idle_def)
  from room_idle [OF this, of exec] show ?thesis
    using handled_readable [OF ch, of exec_cb exec l now] by (simp add: w'_def)
qed

text \<open>A member of the room in its loop.\<close>

lemma room_member:
  assumes ok: "room_ok l R w" and c: "c \<in> present R" and x: "conns w c = Some x"
  shows "\<exists>fd ch e p. conn_at l c fd x ch e p w \<and> (state x = kConnected \<or> state x = kDisconnecting) \<and>
    conn_member R c (server w) x \<and> channel_member (Cb_TcpConnection_handleRead c) ch"
proof -
  obtain fd where "sessions_ok l fd (stream R) (present R) w" using ok by (auto simp: room_ok_def room_at_def)
  then have s: "session_ok l c (fd c) (stream R c) w" using c by (simp add: sessions_ok_def)
  have "member_ok R c w" using ok c by (simp add: room_ok_def room_at_def)
  then obtain ch where ch: "channels w (conn_channel x) = Some ch" "conn_member R c (server w) x"
      "channel_member (Cb_TcpConnection_handleRead c) ch"
    using x by (auto simp: member_ok_def)
  have "\<exists>e p. conn_at l c (fd c) x ch e p w \<and> (state x = kConnected \<or> state x = kDisconnecting)"
    using s x ch(1) by (auto simp: session_ok_def conn_at_def split: if_splits)
  then show ?thesis using ch by blast
qed

text \<open>Up to the read callback.\<close>

lemma room_poll:
  fixes w :: "'a chat_world_scheme"
  assumes ok: "room_ok l R w" and ch: "channels w k = Some ch" "ch_loop ch = l" "index ch \<noteq> kNew"
    and cb: "readCallback ch = Some cb" "\<not> tied ch"
  shows "\<exists>e p now w1. polled l k w w1 \<and> epoll_loop l e p w1 \<and> room_at l R (present R) w1 \<and>
    pendingFunctors e = [] \<and> poller_ready (loop_poller e) \<and>
    server w1 = server w \<and> chat_connections w1 = chat_connections w \<and>
    loop_turn alive exec_cb exec l (Epoll_report [(POLLIN, k)]) w =
      rbind (exec_cb cb now w1) (handled exec_cb exec l k now)"
proof -
  obtain e p where e: "epoll_loop l e p w" "pendingFunctors e = []" "poller_ready (loop_poller e)"
    using ok by (auto simp: room_ok_def loop_idle_def)
  then have size: "0 < ep_events_size p" and lp: "loops w l = Some e" by (simp_all add: epoll_loop_def)
  obtain e1 p1 now w1 where w1: "polled l k w w1" "epoll_loop l e1 p1 w1"
      "loop_turn alive exec_cb exec l (Epoll_report [(POLLIN, k)]) w =
        rbind (exec_cb cb now w1) (handled exec_cb exec l k now)"
    using one_event_turn [OF e(1) size ch cb, of alive exec_cb exec] by blast
  note calm = polled_calm [OF w1(1)]
  have "calm_loop e e1" using map_relD [OF calm_loops [OF calm] lp] w1(2) by (simp add: epoll_loop_def)
  then have "pendingFunctors e1 = []" "poller_ready (loop_poller e1)" using e(2,3) by (simp_all add: calm_loop_def)
  moreover have "room_at l R (present R) w1" using polled_room [OF _ w1(1,2)] ok by (simp add: room_ok_def)
  ultimately show ?thesis using w1 calm_more [OF calm] calm_chat [OF calm] by blast
qed

section \<open>A message\<close>

lemma room_says:
  fixes w :: "'a chat_world_scheme"
  assumes ok: "room_ok l R w" and c: "c \<in> present R" and x: "conns w c = Some x"
    and rd: "read_answers w 0 = Inr d" "d \<noteq> []"
    and run: "loop_turn alive (server_callback chat_server_code) exec l
      (Epoll_report [(POLLIN, conn_channel x)]) w = Inr w'"
  shows "room_ok l (room_step (Says c d) R) w'"
proof -
  obtain e p where e: "epoll_loop l e p w" "pendingFunctors e = []" "poller_ready (loop_poller e)"
    using ok by (auto simp: room_ok_def loop_idle_def)
  obtain fd where s: "sessions_ok l fd (stream R) (present R) w" using ok by (auto simp: room_ok_def room_at_def)
  have chat: "set (chat_connections w) = present R" "ascending (chat_connections w)" using ok by (simp_all add: room_ok_def)
  have members: "\<forall>k\<in>present R. member_ok R k w" using ok by (simp add: room_ok_def room_at_def)
  then obtain ch where ch: "channels w (conn_channel x) = Some ch" "conn_member R c (server w) x"
      "channel_member (Cb_TcpConnection_handleRead c) ch"
    using c x by (auto simp: member_ok_def)
  obtain ms rest bad where parse: "parse_frames (contents (inputBuffer x) @ d) = (ms, rest, bad)"
    by (cases "parse_frames (contents (inputBuffer x) @ d)")
  have quiet: "conn_quiet k w" if "k \<in> present R" for k
    using members that by (auto simp: member_ok_def conn_member_def conn_quiet_def)
  have ready: "poller_ready (loop_poller e')" if "loops w l = Some e'" for e'
    using that e(1,3) by (simp add: epoll_loop_def)
  let ?R = "room_step (Says c d) R"
  have R: "present ?R = present R" "unparsed ?R = (unparsed R)(c := rest)"
      "stream ?R = (\<lambda>k. fold session_step ((if k \<in> present R then map (\<lambda>m. Op_send (frame m)) ms else []) @
        (if bad \<and> k = c then [Op_shutdown] else [])) (stream R k))"
    using parse ch(2) by (simp_all add: conn_member_def)
  obtain x' w3 where w3: "doPendingFunctors exec l w3 = Inr w'" "conns w3 c = Some x'"
      "buffer_ok (inputBuffer x')" "contents (inputBuffer x') = rest"
      "calm (w\<lparr>conns := (conns w)(c \<mapsto> x\<lparr>inputBuffer := inputBuffer x'\<rparr>)\<rparr>) w3"
      "sessions_ok l fd (stream ?R) (present R) w3"
    using turn_relays [OF s c _ _ x _ _ ch(1) _ _ ready quiet rd parse run] ch(2,3) chat
    unfolding R(3) by (auto simp: conn_member_def channel_member_def)
  let ?w = "w\<lparr>conns := (conns w)(c \<mapsto> x\<lparr>inputBuffer := inputBuffer x'\<rparr>)\<rparr>"
  have "member_ok ?R k ?w" if "k \<in> present R" for k
  proof (cases "k = c")
    case True
    then show ?thesis using ch w3(3,4) by (simp add: member_ok_def conn_member_def R(2) del: room_step.simps)
  next
    case False
    then show ?thesis using members that by (simp add: member_ok_def conn_member_def R(2) del: room_step.simps)
  qed
  then have "member_ok ?R k w3" if "k \<in> present R" for k using member_calm [OF w3(5)] that by blast
  moreover have "acceptor_ok l ?w" "server_ok l (server w)" "loop_idle l ?w"
    using ok by (simp_all add: room_ok_def room_at_def acceptor_ok_def loop_idle_def epoll_loop_def)
  moreover obtain e3 p3 where e3: "epoll_loop l e3 p3 w3"
    using sessions_at [OF w3(6) c] conn_atD(1) by blast
  ultimately have "room_at l ?R (present ?R) w3" "loop_idle l w3"
    using acceptor_calm [OF w3(5)] calm_more [OF w3(5)] loop_calm [OF w3(5) _ e3] w3(6)
    unfolding R(1) room_at_def by auto
  then have "room_ok l ?R w3" using chat calm_chat [OF w3(5)] unfolding room_ok_def R(1) by simp
  from room_idle [OF this, of exec] w3(1) show ?thesis by (simp del: room_step.simps)
qed

section \<open>One connection, apart from the others\<close>

definition apart :: "conn_ptr \<Rightarrow> channel_ptr \<Rightarrow> 'a conn_world_scheme \<Rightarrow> 'a conn_world_scheme \<Rightarrow> bool" where
  "apart c k w w' \<longleftrightarrow> (\<forall>j. j \<noteq> c \<longrightarrow> conns w' j = conns w j) \<and> (\<forall>j. j \<noteq> k \<longrightarrow> channels w' j = channels w j) \<and>
     sent w' = sent w \<and> wr_shut w' = wr_shut w"

lemma apart_trans: "apart c k w w1 \<Longrightarrow> apart c k w1 w2 \<Longrightarrow> apart c k w w2"
  by (simp add: apart_def)

lemma session_apart:
  assumes s: "session_ok l j fd s w" and apart: "apart c k w w'" and loop: "epoll_loop l e p w'"
    and j: "j \<noteq> c" "\<And>y. conns w j = Some y \<Longrightarrow> conn_channel y \<noteq> k"
  shows "session_ok l j fd s w'"
proof (rule session_okE [OF s])
  fix y ch e0 p0
  assume y: "conn_at l j fd y ch e0 p0 w" "buffer_ok (outputBuffer y)" "isWriting ch \<longleftrightarrow> contents (outputBuffer y) \<noteq> []"
    "state y = (if closing s then kDisconnecting else kConnected)"
    "sent w fd @ contents (outputBuffer y) = accepted s" "fd \<in> wr_shut w \<longleftrightarrow> closing s \<and> contents (outputBuffer y) = []"
  have "conn_at l j fd y ch e p w'"
    using y(1) apart loop j by (simp add: conn_at_def apart_def)
  then show ?thesis using y(2-6) apart by (intro session_okI) (simp_all add: apart_def)
qed

text \<open>The channel of the connection is told from the others by what it calls.\<close>

lemma room_apart:
  fixes w :: "'a server_world_scheme"
  assumes ok: "room_at l R M w" and apart: "apart c k w w'" and loop: "epoll_loop l e p w'"
    and k: "\<And>ch. channels w k = Some ch \<Longrightarrow> readCallback ch = Some (Cb_TcpConnection_handleRead c)"
    and server: "server_ok l (server w')" "acc_channel (srv_acceptor (server w')) = acc_channel (srv_acceptor (server w))"
    and names: "\<And>j name. j \<noteq> c \<Longrightarrow> connections (server w) name = Some j \<Longrightarrow> connections (server w') name = Some j"
  shows "room_at l R (M - {c}) w'"
proof -
  obtain fd where s: "sessions_ok l fd (stream R) M w" using ok by (auto simp: room_at_def)
  have other: "\<exists>y cy. conns w j = Some y \<and> channels w (conn_channel y) = Some cy \<and> conn_channel y \<noteq> k \<and>
      conn_member R j (server w) y \<and> channel_member (Cb_TcpConnection_handleRead j) cy"
    if "j \<in> M - {c}" for j
  proof -
    have "member_ok R j w" using ok that by (simp add: room_at_def)
    then obtain y cy where y: "conns w j = Some y" "channels w (conn_channel y) = Some cy"
        "conn_member R j (server w) y" "channel_member (Cb_TcpConnection_handleRead j) cy"
      by (auto simp: member_ok_def)
    have "conn_channel y \<noteq> k" using k [of cy] y(2,4) that by (auto simp: channel_member_def)
    then show ?thesis using y by blast
  qed
  have "session_ok l j (fd j) (stream R j) w'" if "j \<in> M - {c}" for j
    using session_apart [OF _ apart loop, of j "fd j" "stream R j"] s that other [OF that] by (auto simp: sessions_ok_def)
  then have "sessions_ok l fd (stream R) (M - {c}) w'" using s by (simp add: sessions_ok_def inj_on_diff)
  moreover have "member_ok R j w'" if "j \<in> M - {c}" for j
    using other [OF that] apart names that unfolding member_ok_def apart_def conn_member_def by auto
  moreover have "acceptor_ok l w'"
  proof -
    obtain ch where ch: "channels w (acc_channel (srv_acceptor (server w))) = Some ch" "channel_member Cb_Acceptor_handleRead ch"
      using ok by (auto simp: room_at_def acceptor_ok_def)
    then have "acc_channel (srv_acceptor (server w)) \<noteq> k" using k [of ch] by (auto simp: channel_member_def)
    then show ?thesis using ok apart server(2) by (simp add: room_at_def acceptor_ok_def apart_def)
  qed
  ultimately show ?thesis using server(1) by (auto simp: room_at_def)
qed

lemma room_at_cong:
  "room_at l R M w \<Longrightarrow> (\<And>c. c \<in> M \<Longrightarrow> stream R' c = stream R c \<and> unparsed R' c = unparsed R c) \<Longrightarrow>
    room_at l R' M w"
  by (auto simp: room_at_def sessions_ok_def member_ok_def conn_member_def)

lemma room_join:
  assumes ok: "room_at l R M w" and s: "session_ok l c f (stream R c) w" and c: "member_ok R c w" "c \<notin> M"
    and f: "\<And>k ch. channels w k = Some ch \<Longrightarrow> ch_fd ch = f \<Longrightarrow> k = chan"
      "\<And>j y. j \<in> M \<Longrightarrow> conns w j = Some y \<Longrightarrow> conn_channel y \<noteq> chan"
  shows "room_at l R (insert c M) w"
proof -
  obtain fd where fd: "inj_on fd M" "\<forall>j\<in>M. session_ok l j (fd j) (stream R j) w"
    using ok by (auto simp: room_at_def sessions_ok_def)
  have "fd j \<noteq> f" if "j \<in> M" for j
    using session_at [OF bspec [OF fd(2) that]] f that by (auto simp: conn_at_def)
  then have "inj_on (fd(c := f)) (insert c M)" using fd(1) c(2) by (auto simp: inj_on_def)
  then have "sessions_ok l (fd(c := f)) (stream R) (insert c M) w"
    using fd(2) s c(2) by (simp add: sessions_ok_def)
  then show ?thesis using ok c(1) by (auto simp: room_at_def)
qed

section \<open>Somebody arrives\<close>

text \<open>\<open>newConnection\<close> in a server without threads, the connection callback included.\<close>

definition accepted_conn ::
    "loop_ptr \<Rightarrow> channel_ptr \<Rightarrow> string \<Rightarrow> sockaddr_in \<Rightarrow> sockaddr_in \<Rightarrow> conn" where
  "accepted_conn l k name local peer = \<lparr>conn_loop = l, conn_channel = k, conn_name = name, state = kConnecting,
     inputBuffer = new_Buffer, outputBuffer = new_Buffer, connCb = True, messaCb = True,
     closeCb = Some Cl_TcpServer_removeConnection, wriComCb = False, highCb = False,
     conn_localAddr = local, conn_peerAddr = peer\<rparr>"

lemma chat_newConnection:
  fixes w :: "'a chat_world_scheme" and peer :: sockaddr_in
  assumes lp: "epoll_loop l e p w" and ok: "server_ok l (server w)"
    and new: "channels w (new_ptrs w (Suc 0)) = None" "ep_channels p fd = None"
  defines "c \<equiv> new_ptrs w 0" and "k \<equiv> new_ptrs w (Suc 0)" and "s \<equiv> server w"
  defines "x \<equiv> (accepted_conn l k (next_name s) (Socket_getLocalAddr fd w) peer)\<lparr>state := kConnected\<rparr>"
    and "ch \<equiv> (new_Channel l fd)\<lparr>readCallback := Some (Cb_TcpConnection_handleRead c),
      closeCallback := Some (Cb_TcpConnection_handleClose c), events := kReadEvent, index := kAdded\<rparr>"
  shows "\<exists>w' e' p'. newConnection chat_server_code fd peer w = Inr w' \<and> conn_at l c fd x ch e' p' w' \<and>
    apart c k w w' \<and> calm_loop e e' \<and> chat_connections w' = set_insert c (chat_connections w) \<and>
    read_answers w' = read_answers w \<and> write_answers w' = write_answers w \<and>
    server w' = s\<lparr>nextConnId := nextConnId s + 1, threadPool := threadPool s,
      connections := (connections s)(next_name s \<mapsto> c)\<rparr>"
proof -
  define x1 where "x1 = accepted_conn l k (next_name s) (Socket_getLocalAddr fd w) peer"
  define ch1 where "ch1 = (new_Channel l fd)\<lparr>readCallback := Some (Cb_TcpConnection_handleRead c),
      closeCallback := Some (Cb_TcpConnection_handleClose c)\<rparr>"
  define s1 where "s1 = s\<lparr>nextConnId := nextConnId s + 1, threadPool := threadPool s,
      connections := (connections s)(next_name s \<mapsto> c)\<rparr>"
  define w1 where "w1 = w\<lparr>new_ptrs := \<lambda>i. new_ptrs w (Suc (Suc i)),
      channels := (channels w)(k \<mapsto> ch1), server := s1, conns := (conns w)(c \<mapsto> x1)\<rparr>"
  have e: "loops w l = Some e" "threadId e = this_thread w" using lp by (simp_all add: epoll_loop_def)
  have run: "newConnection chat_server_code fd peer w = connEstablished (server_code chat_server_code) c w1"
    using ok e by (simp add: newConnection_def server_ok_def assertInLoopThread_def isInLoopThread_def getNextLoop_def
        Let_def alloc_def new_TcpConnection_def setConnectionCallback_def setMessageCallback_def
        setWriteCompleteCallback_def setCloseCallback_def modify_conn_def runInLoop_def accepted_conn_def
        Socket_getLocalAddr_def
        x1_def ch1_def s1_def w1_def c_def k_def s_def)
  have i: "index ch1 = kNew" "ch_loop ch1 = l" "ch_fd ch1 = fd" "events ch1 = 0"
    by (simp_all add: ch1_def new_Channel_def index_values)
  have lp1: "epoll_loop l e p w1"
    using lp epoll_loop_new_channel(2) [OF lp new(1) i(1)] by (simp add: epoll_loop_def w1_def k_def)
  have x1: "conns w1 c = Some x1" "conn_loop x1 = l" "state x1 = kConnecting" "connCb x1" "conn_channel x1 = k"
      "channels w1 (conn_channel x1) = Some ch1" "ep_channels p (ch_fd ch1) = None"
    using new(2) i(3) by (simp_all add: w1_def x1_def accepted_conn_def)
  have x: "x1\<lparr>state := kConnected\<rparr> = x" "ch1\<lparr>events := kReadEvent, index := kAdded\<rparr> = ch"
    by (simp_all add: x_def x1_def ch_def ch1_def)
  obtain p' w2 where w2: "w2 = store_channel l e p' k ch (w1\<lparr>conns := (conns w1)(c \<mapsto> x)\<rparr>)"
      "connEstablished (server_code chat_server_code) c w1 = connection_cb (server_code chat_server_code) c w2"
      "conn_at l c fd x ch (e\<lparr>loop_poller := Epoll p'\<rparr>) p' w2"
    using connEstablished_at [OF lp1 x1(1-4,6) i(2,1,4) x1(7), of "server_code chat_server_code"]
    unfolding i(3) x1(5) x by blast
  define w3 where "w3 = w2\<lparr>chat_connections := set_insert c (chat_connections w)\<rparr>"
  have same: "chat_connections w2 = chat_connections w" "server w2 = s1"
    by (simp_all add: w2(1) store_channel_def w1_def)
  have "connected x" by (simp add: connected_def x_def)
  then have eq: "newConnection chat_server_code fd peer w = Inr w3"
    using run w2(2) conn_atD(2) [OF w2(3)] same
    by (simp add: server_code_def chat_server_code_def ChatServer_onConnection_def w3_def)
  have at: "conn_at l c fd x ch (e\<lparr>loop_poller := Epoll p'\<rparr>) p' w3"
    using w2(3) by (simp add: conn_at_def epoll_loop_def w3_def)
  have "connEstablished (server_code chat_server_code) c w1 = Inr w3" using eq run by simp
  then have "map_rel calm_loop (loops w1) (loops w3)"
    by (rule connEstablished_loops)
      (auto simp: server_code_def chat_server_code_def ChatServer_onConnection_def rbind_Inr_iff)
  from map_relD [OF this, of l e] have "calm_loop e (e\<lparr>loop_poller := Epoll p'\<rparr>)"
    using conn_atD(8) [OF at] e(1) by (simp add: w1_def)
  moreover have "apart c k w w3" "read_answers w3 = read_answers w" "write_answers w3 = write_answers w"
    by (simp_all add: apart_def w3_def w2(1) store_channel_def w1_def)
  ultimately show ?thesis using eq at same unfolding s1_def
    by (intro exI [of _ w3] exI [of _ "e\<lparr>loop_poller := Epoll p'\<rparr>"] exI [of _ p']) (simp add: w3_def)
qed

lemma polled_acceptor:
  fixes w :: "'a server_world_scheme"
  assumes ok: "server_ok l (server w)" and loop: "epoll_loop l e p w" and acc: "accept_answers w 0 = Inr (fd, peer)"
  shows "Acceptor_handleRead user w =
    newConnection user fd peer (w\<lparr>accept_answers := \<lambda>i. accept_answers w (Suc i)\<rparr>)"
  using assms by (simp add: Acceptor_handleRead_def server_ok_def epoll_loop_def assertInLoopThread_def
      isInLoopThread_def Socket_accept_def sys_accept_def Let_def)

lemma server_ok_next:
  assumes ok: "server_ok l s" and id: "sint (nextConnId s) < 2 ^ 31 - 1"
  shows "server_ok l (s\<lparr>nextConnId := nextConnId s + 1, threadPool := threadPool s,
    connections := (connections s)(next_name s \<mapsto> c)\<rparr>)" (is "server_ok l ?s")
proof -
  have "names_ok s" "0 < sint (nextConnId s)" using ok by (simp_all add: server_ok_def)
  from names_ok_next [OF this id, of ?s c] this(2) show ?thesis using ok by (simp add: server_ok_def)
qed

text \<open>What the acceptor's read handler makes of a new descriptor.\<close>

lemma room_accepts:
  fixes w :: "'a chat_world_scheme"
  assumes at: "room_at l R M w" and lp: "epoll_loop l e p w" and acc: "accept_answers w 0 = Inr (fd, peer)"
    and new: "conns w (new_ptrs w 0) = None" "channels w (new_ptrs w (Suc 0)) = None"
      "\<forall>k ch. channels w k = Some ch \<longrightarrow> ch_fd ch \<noteq> fd" "sent w fd = []" "fd \<notin> wr_shut w"
    and id: "sint (nextConnId (server w)) < 2 ^ 31 - 1"
  defines "c \<equiv> new_ptrs w 0" and "k \<equiv> new_ptrs w (Suc 0)"
  shows "\<exists>w' e' p'. Acceptor_handleRead chat_server_code w = Inr w' \<and> epoll_loop l e' p' w' \<and> calm_loop e e' \<and>
    room_at l (room_step (Arrives c) R) (insert c M) w' \<and> apart c k w w' \<and>
    chat_connections w' = set_insert c (chat_connections w) \<and>
    conns w' c = Some ((accepted_conn l k (next_name (server w)) (Socket_getLocalAddr fd w) peer)\<lparr>state := kConnected\<rparr>) \<and>
    read_answers w' = read_answers w \<and> write_answers w' = write_answers w"
proof -
  let ?R = "room_step (Arrives c) R"
  have s: "server_ok l (server w)" using at by (simp add: room_at_def)
  define w2 where "w2 = w\<lparr>accept_answers := \<lambda>i. accept_answers w (Suc i)\<rparr>"
  have run: "Acceptor_handleRead chat_server_code w = newConnection chat_server_code fd peer w2"
    using polled_acceptor [OF s lp acc] by (simp add: w2_def)
  have lp2: "epoll_loop l e p w2" using lp by (simp add: epoll_loop_def w2_def)
  have same: "server w2 = server w" "new_ptrs w2 = new_ptrs w" "chat_connections w2 = chat_connections w"
      "Socket_getLocalAddr fd w2 = Socket_getLocalAddr fd w"
    by (simp_all add: w2_def Socket_getLocalAddr_def)
  have new2: "channels w2 k = None" using new(2) by (simp add: w2_def k_def)
  have "ep_channels p fd = None"
    using epoll_okD(1) [of l "channels w" p fd] new(3) lp by (cases "ep_channels p fd") (auto simp: epoll_loop_def)
  note made = chat_newConnection [OF lp2 _ _ this, of peer, unfolded same, folded c_def k_def]
  define x where "x = (accepted_conn l k (next_name (server w)) (Socket_getLocalAddr fd w) peer)\<lparr>state := kConnected\<rparr>"
  define cn where "cn = (new_Channel l fd)\<lparr>readCallback := Some (Cb_TcpConnection_handleRead c),
      closeCallback := Some (Cb_TcpConnection_handleClose c), events := kReadEvent, index := kAdded\<rparr>"
  obtain w3 e3 p3 where w3: "newConnection chat_server_code fd peer w2 = Inr w3" "conn_at l c fd x cn e3 p3 w3"
      "apart c k w2 w3" "calm_loop e e3" "chat_connections w3 = set_insert c (chat_connections w)"
      "read_answers w3 = read_answers w2" "write_answers w3 = write_answers w2"
      "server w3 = (server w)\<lparr>nextConnId := nextConnId (server w) + 1, threadPool := threadPool (server w),
        connections := (connections (server w))(next_name (server w) \<mapsto> c)\<rparr>"
    using made [OF s new2] unfolding x_def cn_def by blast
  note d3 = conn_atD [OF w3(2)]
  have apart: "apart c k w w3" using w3(3) by (simp add: apart_def w2_def)
  have s3: "server_ok l (server w3)" unfolding w3(8) by (rule server_ok_next [OF s id])
  have fresh: "connections (server w) (next_name (server w)) = None"
    using fresh_name s by (simp add: server_ok_def del: next_name_def)
  have out: "c \<notin> M" using at new(1) by (auto simp: room_at_def member_ok_def c_def)
  have "room_at l R (M - {c}) w3"
  proof (rule room_apart [OF at apart d3(1) _ s3])
    show "connections (server w) name = Some j \<Longrightarrow> connections (server w3) name = Some j" for j name
      using fresh by (auto simp: w3(8) simp del: next_name_def)
  qed (use new(2) in \<open>simp_all add: w3(8) k_def\<close>)
  then have "room_at l R M w3" using out by simp
  then have "room_at l ?R M w3" by (rule room_at_cong) (use out in auto)
  moreover have R: "stream ?R c = \<lparr>accepted = [], closing = False\<rparr>" "unparsed ?R c = []" by simp_all
  have "session_ok l c fd (stream ?R c) w3" unfolding R(1)
    using new(4,5) apart new_Buffer_ok
    by (intro session_okI [OF w3(2)])
      (auto simp: apart_def x_def accepted_conn_def cn_def isWriting_def event_masks new_Channel_def)
  moreover have "member_ok ?R c w3"
    using d3(2,4) new_Buffer_ok by (auto simp: member_ok_def conn_member_def channel_member_def R(2) x_def
        accepted_conn_def cn_def new_Channel_def w3(8))
  moreover note out
  moreover have "j = k" if "channels w3 j = Some cj" "ch_fd cj = fd" for j cj
    using that new(3) [rule_format, of j cj] apart by (auto simp: apart_def)
  moreover have "conn_channel y \<noteq> k" if "j \<in> M" "conns w3 j = Some y" for j y
  proof -
    have "conns w j = Some y" using that apart out by (auto simp: apart_def)
    moreover have "member_ok R j w" using at that(1) by (simp add: room_at_def)
    ultimately show ?thesis using new(2) by (auto simp: member_ok_def k_def)
  qed
  ultimately have "room_at l ?R (insert c M) w3" by (rule room_join)
  then show ?thesis using run w3(1,4-7) d3(1,2) apart
    by (intro exI [of _ w3] exI [of _ e3] exI [of _ p3]) (simp add: x_def w2_def)
qed

lemma room_arrives:
  fixes w :: "'a chat_world_scheme"
  assumes ok: "room_ok l R w" and acc: "accept_answers w 0 = Inr (fd, peer)"
    and new: "conns w (new_ptrs w 0) = None" "channels w (new_ptrs w (Suc 0)) = None"
      "\<forall>k ch. channels w k = Some ch \<longrightarrow> ch_fd ch \<noteq> fd" "sent w fd = []" "fd \<notin> wr_shut w"
    and id: "sint (nextConnId (server w)) < 2 ^ 31 - 1"
  defines "c \<equiv> new_ptrs w 0"
  shows "\<exists>w'. loop_turn alive (server_callback chat_server_code) exec l
      (Epoll_report [(POLLIN, acc_channel (srv_acceptor (server w)))]) w = Inr w' \<and>
    room_ok l (room_step (Arrives c) R) w' \<and> chat_connections w' = set_insert c (chat_connections w) \<and>
    conns w' c = Some ((accepted_conn l (new_ptrs w (Suc 0)) (next_name (server w)) (Socket_getLocalAddr fd w) peer)\<lparr>state := kConnected\<rparr>) \<and>
    read_answers w' = read_answers w \<and> write_answers w' = write_answers w"
proof -
  let ?k = "acc_channel (srv_acceptor (server w))"
  let ?R = "room_step (Arrives c) R"
  obtain ch where ch: "channels w ?k = Some ch" "ch_loop ch = l" "index ch \<noteq> kNew"
      "readCallback ch = Some Cb_Acceptor_handleRead" "\<not> tied ch"
    using ok by (auto simp: room_ok_def room_at_def acceptor_ok_def channel_member_def)
  obtain e1 p1 now w1 where w1: "polled l ?k w w1" "epoll_loop l e1 p1 w1" "room_at l R (present R) w1"
      "pendingFunctors e1 = []" "poller_ready (loop_poller e1)" "server w1 = server w"
      "chat_connections w1 = chat_connections w"
      "loop_turn alive (server_callback chat_server_code) exec l (Epoll_report [(POLLIN, ?k)]) w =
        rbind (Acceptor_handleRead chat_server_code w1) (handled (server_callback chat_server_code) exec l ?k now)"
    using room_poll [OF ok ch, of alive "server_callback chat_server_code" exec] by auto
  have more: "accept_answers w1 = accept_answers w" "new_ptrs w1 = new_ptrs w"
      "Socket_getLocalAddr fd w1 = Socket_getLocalAddr fd w"
    using w1(1) by (cases w; cases w1; simp add: polled_def Socket_getLocalAddr_def)+
  have eqs: "channels w1 = (channels w)(?k \<mapsto> ch\<lparr>revents := POLLIN, eventHandling := True\<rparr>)" "conns w1 = conns w"
      "sent w1 = sent w" "wr_shut w1 = wr_shut w" "read_answers w1 = read_answers w" "write_answers w1 = write_answers w"
    using w1(1) ch(1) by (auto simp: polled_def)
  have apart: "new_ptrs w (Suc 0) \<noteq> ?k" using ch(1) new(2) by auto
  have "accept_answers w1 0 = Inr (fd, peer)" "conns w1 (new_ptrs w1 0) = None" "channels w1 (new_ptrs w1 (Suc 0)) = None"
      "\<forall>k ch. channels w1 k = Some ch \<longrightarrow> ch_fd ch \<noteq> fd" "sent w1 fd = []" "fd \<notin> wr_shut w1"
      "sint (nextConnId (server w1)) < 2 ^ 31 - 1"
    using acc new id apart new(3) [rule_format, OF ch(1)] by (auto simp: eqs more w1(6))
  from room_accepts [OF w1(3,2) this] obtain w3 e3 p3 where w3: "Acceptor_handleRead chat_server_code w1 = Inr w3"
      "epoll_loop l e3 p3 w3" "calm_loop e1 e3" "room_at l ?R (insert c (present R)) w3"
      "apart c (new_ptrs w (Suc 0)) w1 w3" "chat_connections w3 = set_insert c (chat_connections w)"
      "conns w3 c = Some ((accepted_conn l (new_ptrs w (Suc 0)) (next_name (server w)) (Socket_getLocalAddr fd w) peer)\<lparr>state := kConnected\<rparr>)"
      "read_answers w3 = read_answers w" "write_answers w3 = write_answers w"
    unfolding more eqs(5,6) w1(6,7) c_def [symmetric] by blast
  have R: "insert c (present R) = present ?R" by simp
  have chat: "ascending (chat_connections w3)" "set (chat_connections w3) = present ?R"
    using ok os.ins [of "chat_connections w" c] by (simp_all add: w3(6) room_ok_def)
  have "channels w3 ?k = Some (ch\<lparr>revents := POLLIN, eventHandling := True\<rparr>)"
    using w3(5) apart by (simp add: apart_def eqs)
  moreover have "pendingFunctors e3 = []" "poller_ready (loop_poller e3)"
    using w3(3) w1(4,5) by (simp_all add: calm_loop_def)
  moreover have "revents (ch\<lparr>revents := POLLIN, eventHandling := True\<rparr>) = POLLIN" by simp
  ultimately obtain w4 where "handled (server_callback chat_server_code) exec l ?k now w3 = Inr w4"
      "room_ok l ?R w4" "conns w4 = conns w3" "chat_connections w4 = chat_connections w3"
      "read_answers w4 = read_answers w3" "write_answers w4 = write_answers w3"
    using room_handled [OF w3(4) [unfolded R] chat w3(2), of ?k] by blast
  then show ?thesis using w1(8) w3(1,6-9) by (intro exI [of _ w4]) (simp del: room_step.simps)
qed

section \<open>Somebody leaves\<close>

lemma chat_connDestroyed:
  fixes w :: "'a chat_world_scheme"
  assumes at: "conn_at l c fd x ch e p w" and up: "state x = kConnected \<or> state x = kDisconnecting" and cb: "connCb x"
    and ready: "poller_ready (loop_poller e)"
  shows "\<exists>w' p'. connDestroyed (server_code chat_server_code) c w = Inr w' \<and>
    epoll_loop l (e\<lparr>loop_poller := Epoll p'\<rparr>) p' w' \<and> apart c (conn_channel x) w w' \<and>
    poller_ready (Epoll p') \<and> server w' = server w \<and> chat_connections w' = set_erase c (chat_connections w)"
proof -
  let ?code = "server_code chat_server_code :: 'a chat_world_scheme conn_code"
  let ?k = "conn_channel x"
  let ?x = "x\<lparr>state := kDisconnected\<rparr>"
  have code: "connection_cb ?code c v = Inr (v\<lparr>chat_connections := set_erase c (chat_connections v)\<rparr>)"
    if "conns v c = Some ?x" for v :: "'a chat_world_scheme"
    using that by (simp add: server_code_def chat_server_code_def ChatServer_onConnection_def connected_def)
  then have "\<exists>w2. connection_cb ?code c w1 = Inr w2 \<and> channels w2 = channels w1 \<and>
      loops w2 = loops w1 \<and> conns w2 = conns w1 \<and> this_thread w2 = this_thread w1"
    if "conns w1 c = Some ?x" for w1
    using that by simp
  from connDestroyed_at [OF at up cb this] obtain p1 ch1 w2 p' where w2:
      "connection_cb ?code c (store_channel l e p1 ?k ch1 (w\<lparr>conns := (conns w)(c \<mapsto> ?x)\<rparr>)) = Inr w2"
      "connDestroyed ?code c w = Inr (store_channel l e p' ?k (ch1\<lparr>index := kNew\<rparr>) w2)"
      "epoll_loop l (e\<lparr>loop_poller := Epoll p'\<rparr>) p' (store_channel l e p' ?k (ch1\<lparr>index := kNew\<rparr>) w2)"
    by blast
  let ?w = "store_channel l e p' ?k (ch1\<lparr>index := kNew\<rparr>) w2"
  have eq: "w2 = (store_channel l e p1 ?k ch1 (w\<lparr>conns := (conns w)(c \<mapsto> ?x)\<rparr>))
      \<lparr>chat_connections := set_erase c (chat_connections w)\<rparr>"
    using w2(1) code [of "store_channel l e p1 ?k ch1 (w\<lparr>conns := (conns w)(c \<mapsto> ?x)\<rparr>)"]
    by (simp add: store_channel_def)
  have "map_rel calm_loop (loops w) (loops ?w)"
    by (rule connDestroyed_loops [OF w2(2)])
      (auto simp: server_code_def chat_server_code_def ChatServer_onConnection_def rbind_Inr_iff)
  from map_relD [OF this conn_atD(8) [OF at]] have "poller_ready (Epoll p')"
    using ready by (simp add: calm_loop_def)
  moreover have "apart c ?k w ?w" "server ?w = server w" "chat_connections ?w = set_erase c (chat_connections w)"
    by (simp_all add: apart_def eq store_channel_def)
  ultimately show ?thesis using w2(2,3) by blast
qed

text \<open>The queued \<open>connDestroyed\<close> is the only functor.\<close>

lemma chat_last_functor:
  fixes w :: "'a chat_world_scheme"
  assumes at: "conn_at l c fd x ch e p w" and up: "state x = kConnected \<or> state x = kDisconnecting" and cb: "connCb x"
    and ready: "poller_ready (loop_poller e)" and queue: "pendingFunctors e = [Fn_connDestroyed c]"
  shows "\<exists>w' e' p'. doPendingFunctors (server_functor chat_server_code l) l w = Inr w' \<and>
    epoll_loop l e' p' w' \<and> apart c (conn_channel x) w w' \<and> pendingFunctors e' = [] \<and>
    poller_ready (loop_poller e') \<and> server w' = server w \<and> chat_connections w' = set_erase c (chat_connections w)"
proof -
  define e1 where "e1 = snd (swap_pending e)"
  define w1 where "w1 = w\<lparr>loops := (loops w)(l \<mapsto> e1)\<rparr>"
  have e1: "swap_pending e = ([Fn_connDestroyed c], e1)" "loop_poller e1 = loop_poller e"
      "threadId e1 = threadId e" "pendingFunctors e1 = []"
    using queue by (simp_all add: e1_def swap_pending_def)
  have "conn_at l c fd x ch e1 p w1" using at e1(2,3) by (simp add: conn_at_def epoll_loop_def w1_def)
  from chat_connDestroyed [OF this up cb] obtain w2 p2 where w2:
      "connDestroyed (server_code chat_server_code) c w1 = Inr w2"
      "epoll_loop l (e1\<lparr>loop_poller := Epoll p2\<rparr>) p2 w2" "apart c (conn_channel x) w1 w2" "poller_ready (Epoll p2)"
      "server w2 = server w1" "chat_connections w2 = set_erase c (chat_connections w1)"
    using ready e1(2) by auto
  define e3 where "e3 = done_pending (e1\<lparr>loop_poller := Epoll p2\<rparr>)"
  define w3 where "w3 = w2\<lparr>loops := (loops w2)(l \<mapsto> e3)\<rparr>"
  have "loops w2 l = Some (e1\<lparr>loop_poller := Epoll p2\<rparr>)" using w2(2) by (simp add: epoll_loop_def)
  then have "doPendingFunctors (server_functor chat_server_code l) l w = Inr w3"
    using conn_atD(8) [OF at] e1(1) w2(1)
    by (simp add: doPendingFunctors_def on_loop_def w3_def e3_def flip: w1_def)
  moreover have "epoll_loop l e3 p2 w3"
    using w2(2) by (simp add: epoll_loop_def w3_def e3_def done_pending_def)
  moreover have "apart c (conn_channel x) w w3" using w2(3) by (simp add: apart_def w3_def w1_def)
  ultimately show ?thesis using w2(4-6) e1(4)
    by (intro exI [of _ w3] exI [of _ e3] exI [of _ p2])
      (simp add: e3_def done_pending_def w3_def w1_def)
qed

lemma server_ok_remove: "server_ok l s \<Longrightarrow> server_ok l (s\<lparr>connections := (connections s)(name := None)\<rparr>)"
  using names_ok_remove [of s name] by (simp add: server_ok_def)

text \<open>What the read handler of the connection makes of the end of file.\<close>

lemma chat_eof:
  fixes w :: "'a chat_world_scheme"
  assumes at: "conn_at l c fd x ch e p w" and up: "state x = kConnected \<or> state x = kDisconnecting"
    and member: "conn_member R c (server w) x" and srv: "srv_loop (server w) = l" and rd: "read_answers w 0 = Inr []"
    and ready: "poller_ready (loop_poller e)"
  shows "\<exists>b w' ch' e' p'. handleRead (server_code chat_server_code) c now w = Inr w' \<and>
    conn_at l c fd (x\<lparr>inputBuffer := b\<rparr>) ch' e' p' w' \<and> same_dispatch ch ch' \<and> apart c (conn_channel x) w w' \<and>
    pendingFunctors e' = pendingFunctors e @ [Fn_connDestroyed c] \<and> poller_ready (loop_poller e') \<and>
    chat_connections w' = chat_connections w \<and>
    server w' = (server w)\<lparr>connections := (connections (server w))(conn_name x := None)\<rparr>"
proof -
  let ?code = "server_code chat_server_code :: 'a chat_world_scheme conn_code"
  have "buffer_ok (inputBuffer x)" using member by (simp add: conn_member_def)
  from handleRead_eof [OF at this rd, of ?code now] obtain b w2 where w2:
      "handleRead ?code c now w = handleClose ?code c w2"
      "w2 = (snd (sys_readv w))\<lparr>conns := (conns w)(c \<mapsto> x\<lparr>inputBuffer := b\<rparr>)\<rparr>"
      "conn_at l c fd (x\<lparr>inputBuffer := b\<rparr>) ch e p w2" "conn_world.more w2 = conn_world.more w"
    by blast
  let ?x = "x\<lparr>inputBuffer := b\<rparr>"
  let ?s = "(server w)\<lparr>connections := (connections (server w))(conn_name x := None)\<rparr>"
  have more: "server w2 = server w" "chat_connections w2 = chat_connections w"
    using w2(4) by (cases w; cases w2; simp)+
  have x: "state ?x = kConnected \<or> state ?x = kDisconnecting" "closeCb ?x = Some Cl_TcpServer_removeConnection"
      "srv_loop (server w2) = l" "connections (server w2) (conn_name ?x) \<noteq> None"
    using member srv up by (simp_all add: conn_member_def more)
  obtain p3 ch3 w3 e3 where w3: "handleClose ?code c w2 = Inr w3" "same_dispatch ch ch3"
      "calm_loop e (e\<lparr>loop_poller := Epoll p3\<rparr>)" "conn_at l c fd ?x ch3 e3 p3 w3"
      "w3 = w2\<lparr>channels := (channels w2)(conn_channel x \<mapsto> ch3), server := ?s, loops := (loops w2)(l \<mapsto> e3)\<rparr>"
      "e3 = queue_functor True (Fn_connDestroyed c) (e\<lparr>loop_poller := Epoll p3\<rparr>)"
    using server_close_eq [OF w2(3) x, of chat_server_code] by (auto simp: more)
  have "apart c (conn_channel x) w w3" by (simp add: apart_def w3(5) w2(2) sys_readv_def)
  moreover have "poller_ready (loop_poller e3)" using w3(3) ready by (simp add: w3(6) calm_loop_def)
  moreover have "chat_connections w3 = chat_connections w" "server w3 = ?s" using more by (simp_all add: w3(5))
  moreover have "pendingFunctors e3 = pendingFunctors e @ [Fn_connDestroyed c]" by (simp add: w3(6))
  ultimately show ?thesis using w2(1) w3(1,2,4) by (metis (no_types))
qed

lemma room_drop:
  fixes w :: "'a chat_world_scheme"
  assumes at: "room_at l R M w" and apart: "apart c k w w'" and loop: "epoll_loop l e p w'"
    and ch: "channels w k = Some ch" "readCallback ch = Some (Cb_TcpConnection_handleRead c)"
    and name: "connections (server w) name = Some c"
      "server w' = (server w)\<lparr>connections := (connections (server w))(name := None)\<rparr>"
  shows "room_at l R (M - {c}) w'"
proof -
  have "server_ok l (server w')" using at by (simp add: room_at_def name(2) server_ok_remove)
  then show ?thesis
  proof (rule room_apart [OF at apart loop, rotated])
    show "connections (server w) n = Some j \<Longrightarrow> connections (server w') n = Some j" if "j \<noteq> c" for j n
      using that name by auto
  qed (use ch in \<open>simp_all add: name(2)\<close>)
qed

lemma room_leaves:
  fixes w :: "'a chat_world_scheme"
  assumes ok: "room_ok l R w" and c: "c \<in> present R" and x: "conns w c = Some x" and rd: "read_answers w 0 = Inr []"
  shows "\<exists>w'. loop_turn alive (server_callback chat_server_code) (server_functor chat_server_code l) l
      (Epoll_report [(POLLIN, conn_channel x)]) w = Inr w' \<and> room_ok l (room_step (Leaves c) R) w'"
proof -
  let ?k = "conn_channel x"
  let ?exec = "server_functor chat_server_code l"
  let ?R = "room_step (Leaves c) R"
  obtain f ch e p where at: "conn_at l c f x ch e p w" "state x = kConnected \<or> state x = kDisconnecting"
      "conn_member R c (server w) x" "channel_member (Cb_TcpConnection_handleRead c) ch"
    using room_member [OF ok c x] by blast
  note d = conn_atD [OF at(1)]
  have cb: "readCallback ch = Some (Cb_TcpConnection_handleRead c)" "\<not> tied ch"
    using at(4) by (simp_all add: channel_member_def)
  obtain e1 p1 now w1 where w1: "polled l ?k w w1" "epoll_loop l e1 p1 w1" "room_at l R (present R) w1"
      "pendingFunctors e1 = []" "poller_ready (loop_poller e1)" "server w1 = server w"
      "chat_connections w1 = chat_connections w"
      "loop_turn alive (server_callback chat_server_code) ?exec l (Epoll_report [(POLLIN, ?k)]) w =
        rbind (handleRead (server_code chat_server_code) c now w1) (handled (server_callback chat_server_code) ?exec l ?k now)"
    using room_poll [OF ok d(4,5,7) cb, of alive "server_callback chat_server_code" ?exec] by auto
  define ch1 where "ch1 = ch\<lparr>revents := POLLIN, eventHandling := True\<rparr>"
  have eqs: "channels w1 ?k = Some ch1" "conns w1 = conns w" "read_answers w1 0 = Inr []"
    using w1(1) d(4) rd by (auto simp: polled_def ch1_def)
  have c1: "conn_at l c f x ch1 e1 p1 w1" using d w1(2) eqs by (simp add: conn_at_def ch1_def)
  have "conn_member R c (server w1) x" "srv_loop (server w1) = l"
    using at(3) w1(3,6) by (simp_all add: room_at_def server_ok_def)
  from chat_eof [OF c1 at(2) this eqs(3) w1(5), of now, unfolded w1(4,6,7) append_Nil]
  obtain b w3 ch3 e3 p3 where w3: "handleRead (server_code chat_server_code) c now w1 = Inr w3"
      "conn_at l c f (x\<lparr>inputBuffer := b\<rparr>) ch3 e3 p3 w3" "same_dispatch ch1 ch3" "apart c ?k w1 w3"
      "pendingFunctors e3 = [Fn_connDestroyed c]" "poller_ready (loop_poller e3)"
      "chat_connections w3 = chat_connections w"
      "server w3 = (server w)\<lparr>connections := (connections (server w))(conn_name x := None)\<rparr>"
    by blast
  have ch3: "channels w3 (conn_channel (x\<lparr>inputBuffer := b\<rparr>)) = Some ch3" "revents ch3 = POLLIN"
    using conn_atD(4) [OF w3(2)] w3(3) by (simp_all add: same_dispatch_def ch1_def)
  define w4 where "w4 = w3\<lparr>channels := (channels w3)(?k \<mapsto> ch3\<lparr>eventHandling := False\<rparr>)\<rparr>"
  have at4: "conn_at l c f (x\<lparr>inputBuffer := b\<rparr>) (ch3\<lparr>eventHandling := False\<rparr>) e3 p3 w4"
    using conn_at_handling [OF w3(2), of False] by (simp add: w4_def)
  have "state (x\<lparr>inputBuffer := b\<rparr>) = kConnected \<or> state (x\<lparr>inputBuffer := b\<rparr>) = kDisconnecting"
      "connCb (x\<lparr>inputBuffer := b\<rparr>)"
    using at(2,3) by (simp_all add: conn_member_def)
  from chat_last_functor [OF at4 this w3(6,5)]
  obtain w5 e5 p5 where w5: "doPendingFunctors ?exec l w4 = Inr w5" "epoll_loop l e5 p5 w5" "apart c ?k w4 w5"
      "pendingFunctors e5 = []" "poller_ready (loop_poller e5)" "server w5 = server w4"
      "chat_connections w5 = set_erase c (chat_connections w4)"
    by auto
  have "apart c ?k w1 w4" using w3(4) by (simp add: apart_def w4_def)
  from apart_trans [OF this w5(3)] have "room_at l R (present R - {c}) w5"
    by (rule room_drop [OF w1(3) _ w5(2) eqs(1), of c "conn_name x"])
      (use at(3) cb w5(6) w1(6) w3(8) in \<open>simp_all add: conn_member_def ch1_def w4_def\<close>)
  then have "room_at l ?R (present ?R) w5" by (auto intro: room_at_cong)
  moreover have "ascending (chat_connections w5)" "set (chat_connections w5) = present ?R"
    using ok os.del [of "chat_connections w" c] w3(7) w5(7) by (simp_all add: room_ok_def w4_def)
  ultimately have "room_ok l ?R w5" using w5(2,4,5) by (auto simp: room_ok_def loop_idle_def)
  moreover have "loop_turn alive (server_callback chat_server_code) ?exec l (Epoll_report [(POLLIN, ?k)]) w = Inr w5"
    using w1(8) w3(1) handled_readable [OF ch3] w5(1) by (simp add: w4_def)
  ultimately show ?thesis by blast
qed

section \<open>The whole run\<close>

text \<open>
  What the environment does for an event, and what the poller reports of it. The descriptors that
  \<open>accept4\<close> returns have not been used before in the run; the addresses that \<open>new\<close> returns are free.
\<close>

fun room_input :: "room_event \<Rightarrow> channel_ptr \<Rightarrow> 'a chat_world_scheme \<Rightarrow> bool" where
  "room_input (Arrives c) k w \<longleftrightarrow> k = acc_channel (srv_acceptor (server w)) \<and> c = new_ptrs w 0 \<and>
     conns w c = None \<and> channels w (new_ptrs w (Suc 0)) = None \<and> sint (nextConnId (server w)) < 2 ^ 31 - 1 \<and>
     (\<exists>fd peer. accept_answers w 0 = Inr (fd, peer) \<and> sent w fd = [] \<and> fd \<notin> wr_shut w \<and>
        (\<forall>k ch. channels w k = Some ch \<longrightarrow> ch_fd ch \<noteq> fd))"
| "room_input (Says c d) k w \<longleftrightarrow> c \<in> set (chat_connections w) \<and>
     (\<exists>x. conns w c = Some x \<and> k = conn_channel x) \<and> read_answers w 0 = Inr d \<and> d \<noteq> []"
| "room_input (Leaves c) k w \<longleftrightarrow> c \<in> set (chat_connections w) \<and>
     (\<exists>x. conns w c = Some x \<and> k = conn_channel x) \<and> read_answers w 0 = Inr []"

abbreviation server_turn ::
    "('a chat_world_scheme \<Rightarrow> nat \<Rightarrow> bool) \<Rightarrow> loop_ptr \<Rightarrow> channel_ptr \<Rightarrow> 'a chat_world_scheme \<Rightarrow>
     'a chat_world_scheme result" where
  "server_turn alive l k \<equiv> loop_turn alive (server_callback chat_server_code)
     (server_functor chat_server_code l) l (Epoll_report [(POLLIN, k)])"

inductive room_run ::
    "('a chat_world_scheme \<Rightarrow> nat \<Rightarrow> bool) \<Rightarrow> loop_ptr \<Rightarrow> room_event list \<Rightarrow> 'a chat_world_scheme \<Rightarrow>
     'a chat_world_scheme \<Rightarrow> bool"
  for alive l where
  run_end: "room_run alive l [] w w"
| run_turn: "room_input ev k w \<Longrightarrow> server_turn alive l k w = Inr w1 \<Longrightarrow> room_run alive l evs w1 w2 \<Longrightarrow>
    room_run alive l (ev # evs) w w2"

lemma room_turn:
  fixes w :: "'a chat_world_scheme"
  assumes ok: "room_ok l R w" and ev: "room_input ev k w"
  shows "server_turn alive l k w = Inr w' \<Longrightarrow> room_ok l (room_step ev R) w'"
    and "(\<forall>c d. ev \<noteq> Says c d) \<Longrightarrow> \<exists>w'. server_turn alive l k w = Inr w'"
proof -
  have set: "set (chat_connections w) = present R" using ok by (simp add: room_ok_def)
  have "(server_turn alive l k w = Inr w' \<longrightarrow> room_ok l (room_step ev R) w') \<and>
      ((\<forall>c d. ev \<noteq> Says c d) \<longrightarrow> (\<exists>w'. server_turn alive l k w = Inr w'))"
  proof (cases ev)
    case (Arrives c)
    then obtain fd peer where "k = acc_channel (srv_acceptor (server w))" "c = new_ptrs w 0"
        "accept_answers w 0 = Inr (fd, peer)" "conns w (new_ptrs w 0) = None" "channels w (new_ptrs w (Suc 0)) = None"
        "\<forall>k ch. channels w k = Some ch \<longrightarrow> ch_fd ch \<noteq> fd" "sent w fd = []" "fd \<notin> wr_shut w"
        "sint (nextConnId (server w)) < 2 ^ 31 - 1"
      using ev by auto
    from room_arrives [OF ok this(3-9), where alive = alive and exec = "server_functor chat_server_code l"] this(1,2)
    show ?thesis unfolding Arrives by (auto simp del: room_step.simps)
  next
    case (Says c d)
    then show ?thesis using ev room_says [OF ok, of c _ d] unfolding Says
      by (auto simp: set simp del: room_step.simps)
  next
    case (Leaves c)
    then obtain x where "k = conn_channel x" "c \<in> present R" "conns w c = Some x" "read_answers w 0 = Inr []"
      using ev set by auto
    from room_leaves [OF ok this(2-4), where alive = alive] this(1)
    show ?thesis unfolding Leaves by (auto simp del: room_step.simps)
  qed
  then show "server_turn alive l k w = Inr w' \<Longrightarrow> room_ok l (room_step ev R) w'"
    "(\<forall>c d. ev \<noteq> Says c d) \<Longrightarrow> \<exists>w'. server_turn alive l k w = Inr w'" by blast+
qed

lemma room_run_ok:
  "room_run alive l evs w w' \<Longrightarrow> room_ok l R w \<Longrightarrow> room_ok l (fold room_step evs R) w'"
proof (induction arbitrary: R rule: room_run.induct)
  case (run_turn ev k w w1 evs w2)
  show ?case using run_turn.IH [OF room_turn(1) [OF run_turn.prems run_turn.hyps(1,2)]] by simp
qed simp

text \<open>
  A message ends its turn normally, for one, when its sender is alone, has its buffers untouched, and
  the socket takes the frame whole.
\<close>

lemma room_says_alone:
  fixes w :: "'a chat_world_scheme"
  assumes ok: "room_ok l R w" and alone: "chat_connections w = [c]" and x: "conns w c = Some x"
    and fresh: "state x = kConnected" "inputBuffer x = new_Buffer" "outputBuffer x = new_Buffer"
    and rd: "read_answers w 0 = Inr (frame m)" and len: "length (frame m) \<le> 1024"
    and takes: "int (length (frame m)) \<le> write_answers w 0"
  shows "\<exists>w' y. server_turn alive l (conn_channel x) w = Inr w' \<and> conns w' c = Some y \<and>
    outputBuffer y = outputBuffer x"
proof -
  let ?code = "server_code chat_server_code :: 'a chat_world_scheme conn_code"
  let ?exec = "server_functor chat_server_code l"
  have c: "c \<in> present R" using ok alone by (auto simp: room_ok_def)
  obtain fd where s: "sessions_ok l fd (stream R) (present R) w" using ok by (auto simp: room_ok_def room_at_def)
  then have "session_ok l c (fd c) (stream R c) w" using c by (simp add: sessions_ok_def)
  obtain f0 ch e p where at0: "conn_at l c f0 x ch e p w" "conn_member R c (server w) x"
      "channel_member (Cb_TcpConnection_handleRead c) ch"
    using room_member [OF ok c x] by blast
  have at: "conn_at l c (fd c) x ch e p w"
    using sessions_at [OF s c] at0(1) by (auto simp: conn_at_def)
  note d = conn_atD [OF at]
  obtain e0 p0 where "epoll_loop l e0 p0 w" "pendingFunctors e0 = []" "poller_ready (loop_poller e0)"
    using ok by (auto simp: room_ok_def loop_idle_def)
  then have size: "0 < ep_events_size p" and idle: "pendingFunctors e = []"
    using d(1) by (auto simp: epoll_loop_def)
  have cb: "readCallback ch = Some (Cb_TcpConnection_handleRead c)" "\<not> tied ch"
    using at0(3) by (simp_all add: channel_member_def)
  have handler: "server_callback chat_server_code (Cb_TcpConnection_handleRead c) n v = handleRead ?code c n v"
    for n v by simp
  have input: "buffer_ok (inputBuffer x)" "messaCb x" "\<not> wriComCb x" "frame m \<noteq> []"
    using at0(2) by (simp_all add: conn_member_def flip: length_greater_0_conv)
  obtain b0 where "readFd (Inr (frame m)) (inputBuffer x) = Inr (b0, int (length (frame m)), None)"
    using readFd_fits [of new_Buffer "frame m"] new_Buffer_ok(1) len by (auto simp: fresh(2))
  then obtain b e1 p1 ch1 now w1 where b: "contents b = frame m" "buffer_ok b"
      and w1: "woken c b w w1" "write_answers w1 = write_answers w"
        "conn_at l c (fd c) (x\<lparr>inputBuffer := b\<rparr>) ch1 e1 p1 w1" "revents ch1 = POLLIN"
      and turn: "server_turn alive l (conn_channel x) w = rbind (message_cb ?code c now w1)
        (handled (server_callback chat_server_code) ?exec l (conn_channel x) now)"
    using readable_turn [where exec_cb = "server_callback chat_server_code" and code = ?code and
        alive = alive and exec = ?exec, OF at size cb handler input(1) rd input(4,2)]
    by (simp add: fresh(2) new_Buffer_ok) blast
  note d1 = conn_atD [OF w1(3)]
  note ok1 = sessions_woken [OF s w1(1) d1(1)]
  have same: "chat_connections w1 = [c]" using w1(1) alone by (cases w; cases w1) (simp add: woken_def)
  have "session_ok l c (fd c) (stream R c) w1" using ok1 c by (simp add: sessions_ok_def)
  then have quiet: "\<not> isWriting ch1"
    using d1(2,4) new_Buffer_ok(2) fresh(3) by (elim session_okE) (auto simp: conn_at_def)
  have parse: "parse_frames (contents b) = ([m], [], False)"
    using parse_frame [of m "[]"] parse_frames.simps [of "[]"] len by (simp add: b(1))
  have short: "length m < 2 ^ 31" using len by simp
  obtain w2 y where w2: "codec_onMessage ChatServer_onStringMessage c w1 = Inr w2"
      "conns w2 c = Some y" "outputBuffer y = outputBuffer x"
    using relay_one [OF w1(3) _ _ quiet _ _ _ short same] parse b(2) fresh input(3) takes new_Buffer_ok
    by (auto simp: w1(2))
  have set: "set (chat_connections w) \<subseteq> present R" "distinct (chat_connections w)"
    using ok by (simp_all add: room_ok_def)
  have "keeps_rest w1 w2"
    using relay [OF ok1 c _ _ d1(2) _ _ w2(1)] set b(2) parse same alone by auto
  then have "rel_option same_dispatch (channels w1 (conn_channel x)) (channels w2 (conn_channel x))"
    by (simp add: keeps_rest_def)
  then obtain ch2 where ch2: "channels w2 (conn_channel x) = Some ch2" "revents ch2 = POLLIN"
    using d1(4) w1(4) by (auto simp: same_dispatch_def elim: option.rel_cases)
  have "conn_here c w1 \<and> conn_quiet c w1"
    using conn_at_here [OF w1(3)] d1(2) input(3) by (simp add: conn_quiet_def)
  then have "map_rel calm_loop (loops w1) (loops w2)"
    using relay_calm [OF w2(1) d1(2)] same calm_loops by fastforce
  moreover have "map_rel calm_loop (loops w) (loops w1)" using w1(1) by (simp add: woken_def)
  ultimately have "map_rel calm_loop (loops w) (loops w2)" using calm_loops_trans by blast
  from map_relD [OF this d(8)] obtain e2 where e2: "loops w2 l = Some e2" "calm_loop e e2" by blast
  then have none: "pendingFunctors e2 = []" using idle by (simp add: calm_loop_def)
  let ?w = "w2\<lparr>channels := (channels w2)(conn_channel x \<mapsto> ch2\<lparr>eventHandling := False\<rparr>)\<rparr>"
  have "message_cb ?code c now w1 = Inr w2" using w2(1) by (simp add: server_code_def chat_server_code_def)
  then have "server_turn alive l (conn_channel x) w = doPendingFunctors ?exec l ?w"
    using turn handled_readable [OF ch2, of "server_callback chat_server_code" ?exec l now] by simp
  then show ?thesis using no_functors [of ?w l e2 ?exec] e2(1) none w2(2,3) by auto
qed

text \<open>The constructed and started server is the empty room.\<close>

lemma room_opens:
  fixes w :: "'a chat_world_scheme"
  assumes lp: "epoll_loop l e p w" and fd: "ep_channels p (fd_answers w 0) = None"
    and chan: "channels w (new_ptrs w 0) = None"
    and ok: "call_answers w 0 = 0" "call_answers w (Suc 0) = 0"
    and idle: "pendingFunctors e = []" "0 < ep_events_size p"
    and start: "rbind (new_ChatServer l a w) (ChatServer_start use_poll spawn) = Inr w0"
  shows "room_ok l empty_room w0"
proof -
  obtain w' e' p' ch where w': "rbind (new_ChatServer l a w) (ChatServer_start use_poll spawn) = Inr w'"
      "epoll_loop l e' p' w'" "channels w' (new_ptrs w 0) = Some ch"
      "ch = (new_Channel l (fd_answers w 0))
        \<lparr>readCallback := Some Cb_Acceptor_handleRead, events := kReadEvent, index := kAdded\<rparr>"
      "e' = e\<lparr>loop_poller := Epoll p'\<rparr>" "calm_loop e e'" "chat_connections w' = []"
      "server w' = \<lparr>srv_loop = l, srv_name = toIpPort a, started = True,
        srv_acceptor = \<lparr>acc_loop = l, acc_fd = fd_answers w 0, acc_channel = new_ptrs w 0, listenning = True,
          acc_cb = True, idleFd = fd_answers w (Suc 0)\<rparr>,
        threadPool = (new_EventLoopThreadPool l)\<lparr>pool_started := True\<rparr>, nextConnId = 1,
        connections = Map.empty, srv_connCb = True, srv_messaCb = True, srv_wriComCb = False\<rparr>"
    using chat_server_listens [OF lp fd chan ok, of a use_poll spawn] by blast
  then have "w' = w0" using start by simp
  moreover have "server_ok l (server w')"
    by (simp add: w'(8) server_ok_def names_ok_def new_EventLoopThreadPool_def)
  moreover have "acceptor_ok l w'"
    using w'(3) by (simp add: w'(8) acceptor_ok_def w'(4) channel_member_def new_Channel_def index_values)
  moreover have "loop_poller e = Epoll p" using lp by (simp add: epoll_loop_def)
  then have "loop_idle l w'"
    using w'(2,6) idle by (auto simp: loop_idle_def calm_loop_def)
  ultimately show ?thesis using w'(7) by (simp add: room_ok_def room_at_def empty_room_def)
qed

definition room_after :: "room_event list \<Rightarrow> room" where
  "room_after evs = fold room_step evs empty_room"

text \<open>
  C2. The chat server is a chat room, for clients that close in an orderly way. The server is
  constructed and started on a loop of its thread; then, turn after turn, epoll reports one channel,
  with exactly \<open>POLLIN\<close>: the acceptor, whose \<open>accept4\<close> then succeeds with a descriptor that was not
  used before (an arrival), or a connection, whose read then gets bytes (a message) or the end of file
  (a departure). As long as no turn ends abnormally, the server stays in step with the abstract room:
  the connections that it holds are those who arrived and have not left; for each of them, the bytes
  that its socket took followed by those in its output buffer are the frames of all messages that were
  said while it was there, in the order in which they were said, up to its own first bad header; and
  what it sent short of a whole frame waits in its input buffer. After every such run the turn of one
  more arrival of this kind (while the counter of connections is below its last value) or of one more
  departure of this kind ends normally. Not covered are several reports in one turn, a failing
  \<open>accept4\<close>, and a hang-up: when epoll reports \<open>POLLHUP\<close> without \<open>POLLIN\<close> the server ends abnormally (C34).
\<close>

theorem chat_room:
  fixes w :: "'a chat_world_scheme"
  assumes "epoll_loop l e p w" and "ep_channels p (fd_answers w 0) = None"
    and "channels w (new_ptrs w 0) = None" and "call_answers w 0 = 0" "call_answers w (Suc 0) = 0"
    and "pendingFunctors e = []" "0 < ep_events_size p"
    and "rbind (new_ChatServer l a w) (ChatServer_start use_poll spawn) = Inr w0"
    and "room_run alive l evs w0 w'"
  shows "set (chat_connections w') = present (room_after evs) \<and>
    (\<exists>fd. sessions_ok l fd (stream (room_after evs)) (present (room_after evs)) w') \<and>
    (\<forall>c\<in>present (room_after evs). \<exists>x. conns w' c = Some x \<and>
       contents (inputBuffer x) = unparsed (room_after evs) c) \<and>
    (\<forall>ev k. room_input ev k w' \<longrightarrow> (\<forall>c d. ev \<noteq> Says c d) \<longrightarrow> (\<exists>w''. server_turn alive l k w' = Inr w''))"
proof -
  let ?R = "room_after evs"
  have ok: "room_ok l ?R w'" unfolding room_after_def by (rule room_run_ok [OF assms(9) room_opens [OF assms(1-8)]])
  then have "\<exists>x. conns w' c = Some x \<and> contents (inputBuffer x) = unparsed ?R c" if "c \<in> present ?R" for c
    using that by (auto simp: room_ok_def room_at_def member_ok_def conn_member_def)
  then show ?thesis using ok room_turn(2) [OF ok] by (simp add: room_ok_def room_at_def)
qed

text \<open>
  A loop of thread 1 with nothing in it. The kernel's descriptors are 9 and, for the client, 12; the
  client sends the frame of one byte, and the socket takes ten bytes of a write.
\<close>

definition idle_loop :: event_loop where
  "idle_loop = small_loop\<lparr>pendingFunctors := []\<rparr>"

definition lobby :: chat_world where
  "lobby = \<lparr>channels = Map.empty, queues = Map.empty,
     clock = clock empty_world, timer_seq = 0, loops = [0 \<mapsto> idle_loop], this_thread = 1,
     loopInThread = [1 \<mapsto> 0], conns = Map.empty,
     sent = (\<lambda>_. []), wr_shut = {}, closed_fds = [], write_answers = (\<lambda>_. 10),
     read_answers = (\<lambda>_. Inr (frame [42])), fd_answers = (\<lambda>_. 9), call_answers = (\<lambda>_. 0),
     accept_answers = (\<lambda>_. Inr (12, InetAddress_port 4000)), local_addr = (\<lambda>_. Some (InetAddress_port 80)),
     peer_addr = (\<lambda>_. Some (InetAddress_port 4000)), socket_errors = (\<lambda>_. 0), listening_fds = {}, sock_opts = [],
     new_ptrs = (\<lambda>i. 50 + i), server = demo_server, chat_connections = []\<rparr>"

definition no_thread :: spawned where
  "no_thread = \<lparr>sp_thread = 0, sp_loop = 0, sp_timerChannel = 0, sp_timerfd = 0, sp_wakeupChannel = 0, sp_wakeupFd = 0\<rparr>"

lemma lobby_loop: "epoll_loop 0 idle_loop new_EpollPoller lobby"
  by (simp add: epoll_loop_def lobby_def idle_loop_def small_loop_def epoll_ok_def new_EpollPoller_def
      epoll_watch_def fun_eq_iff)

lemma lobby_simps:
  "ep_channels new_EpollPoller (fd_answers lobby 0) = None" "channels lobby (new_ptrs lobby 0) = None"
  "call_answers lobby 0 = 0" "call_answers lobby (Suc 0) = 0" "pendingFunctors idle_loop = []"
  "0 < ep_events_size new_EpollPoller"
  by (simp_all add: lobby_def new_EpollPoller_def idle_loop_def kInitEventListSize_def)

text \<open>The client is in, and its message has been relayed to it.\<close>

lemma lobby_run:
  assumes start: "rbind (new_ChatServer 0 (InetAddress_port 80) lobby) (ChatServer_start False (\<lambda>_. no_thread)) = Inr w0"
  shows "\<exists>w' x. room_run (\<lambda>_ _. True) 0 [Arrives 51, Says 51 (frame [42])] w0 w' \<and>
    conns w' 51 = Some x \<and> contents (outputBuffer x) = []"
proof -
  obtain w ch where "rbind (new_ChatServer 0 (InetAddress_port 80) lobby) (ChatServer_start False (\<lambda>_. no_thread)) = Inr w"
      "conns w = conns lobby" "channels w = (channels lobby)(new_ptrs lobby 0 \<mapsto> ch)"
      "ch = (new_Channel 0 (fd_answers lobby 0))
        \<lparr>readCallback := Some Cb_Acceptor_handleRead, events := kReadEvent, index := kAdded\<rparr>"
      "sent w = sent lobby" "wr_shut w = wr_shut lobby" "accept_answers w = accept_answers lobby"
      "new_ptrs w = (\<lambda>i. new_ptrs lobby (Suc i))" "read_answers w = read_answers lobby"
      "write_answers w = write_answers lobby" "chat_connections w = []" "nextConnId (server w) = 1"
    using chat_server_listens [OF lobby_loop lobby_simps(1-4), of "InetAddress_port 80" False "\<lambda>_. no_thread"] by auto
  moreover from this have "w = w0" using start by simp
  ultimately have w0: "conns w0 = Map.empty" "channels w0 = [50 \<mapsto> ch]" "ch_fd ch = 9" "sent w0 = (\<lambda>_. [])"
      "wr_shut w0 = {}" "accept_answers w0 0 = Inr (12, InetAddress_port 4000)" "new_ptrs w0 0 = 51"
      "new_ptrs w0 (Suc 0) = 52" "read_answers w0 0 = Inr (frame [42])" "write_answers w0 0 = 10"
      "chat_connections w0 = []" "nextConnId (server w0) = 1"
    by (simp_all add: lobby_def new_Channel_def)
  note ok0 = room_opens [OF lobby_loop lobby_simps start]
  have new: "conns w0 (new_ptrs w0 0) = None" "channels w0 (new_ptrs w0 (Suc 0)) = None"
      "\<forall>k ch. channels w0 k = Some ch \<longrightarrow> ch_fd ch \<noteq> 12" "sent w0 12 = []" "12 \<notin> wr_shut w0"
      "sint (nextConnId (server w0)) < 2 ^ 31 - 1"
    using w0(3) by (simp_all add: w0 split: if_splits)
  let ?k = "acc_channel (srv_acceptor (server w0))"
  let ?x = "(accepted_conn 0 52 (next_name (server w0)) (Socket_getLocalAddr 12 w0) (InetAddress_port 4000))\<lparr>state := kConnected\<rparr>"
  obtain w1 where w1: "server_turn (\<lambda>_ _. True) 0 ?k w0 = Inr w1" "room_ok 0 (room_step (Arrives 51) empty_room) w1"
      "chat_connections w1 = [51]" "conns w1 51 = Some ?x" "read_answers w1 0 = Inr (frame [42])" "write_answers w1 0 = 10"
    using room_arrives [OF ok0 w0(6) new, where alive = "\<lambda>_ _. True" and exec = "server_functor chat_server_code 0"]
    by (auto simp: w0 set_insert_def insort_insert_key_def simp del: room_step.simps next_name_def)
  have x: "state ?x = kConnected" "inputBuffer ?x = new_Buffer" "outputBuffer ?x = new_Buffer"
    by (simp_all add: accepted_conn_def)
  obtain w2 y where w2: "server_turn (\<lambda>_ _. True) 0 (conn_channel ?x) w1 = Inr w2"
      "conns w2 51 = Some y" "outputBuffer y = outputBuffer ?x"
    using room_says_alone [OF w1(2-4) x w1(5), of "\<lambda>_ _. True"] w1(6) by auto
  have "room_input (Arrives 51) ?k w0" using new w0(6) by (simp add: w0)
  moreover have "room_input (Says 51 (frame [42])) (conn_channel ?x) w1"
    using w1(3-5) by (simp flip: length_greater_0_conv)
  ultimately have "room_run (\<lambda>_ _. True) 0 [Arrives 51, Says 51 (frame [42])] w0 w2"
    using w1(1) w2(1) by (blast intro: room_run.intros)
  moreover have "contents (outputBuffer y) = []" using x(3) w2(3) new_Buffer_ok(2) by simp
  ultimately show ?thesis using w2(2) by blast
qed

theorem chat_room_witness:
  "\<exists>w0 w'. rbind (new_ChatServer 0 (InetAddress_port 80) lobby) (ChatServer_start False (\<lambda>_. no_thread)) = Inr w0 \<and>
    room_run (\<lambda>_ _. True) 0 [Arrives 51, Says 51 (frame [42])] w0 w' \<and> set (chat_connections w') = {51} \<and>
    (\<exists>fd x. conns w' 51 = Some x \<and> sent w' fd @ contents (outputBuffer x) = frame [42])"
proof -
  obtain w0 where w0: "rbind (new_ChatServer 0 (InetAddress_port 80) lobby) (ChatServer_start False (\<lambda>_. no_thread)) = Inr w0"
    using chat_server_listens [OF lobby_loop lobby_simps(1-4)] by blast
  obtain w' where run: "room_run (\<lambda>_ _. True) 0 [Arrives 51, Says 51 (frame [42])] w0 w'"
    using lobby_run [OF w0] by blast
  let ?R = "room_after [Arrives 51, Says 51 (frame [42])]"
  have R: "present ?R = {51}" "stream ?R 51 = \<lparr>accepted = frame [42], closing = False\<rparr>"
    by (simp_all add: room_after_def empty_room_def parse_framed_byte)
  from chat_room [OF lobby_loop lobby_simps w0 run] obtain fd where
      fd: "set (chat_connections w') = {51}" "sessions_ok 0 fd (stream ?R) {51} w'"
    unfolding R(1) by blast
  then have "session_ok 0 51 (fd 51) (stream ?R 51) w'" by (simp add: sessions_ok_def)
  then obtain x where "conns w' 51 = Some x" "sent w' (fd 51) @ contents (outputBuffer x) = frame [42]"
    unfolding R(2) by (elim session_okE) (auto simp: conn_at_def)
  then show ?thesis using w0 run fd(1) by blast
qed

end
