(* ===== verification/Chat_Delivery.thy ===== *)
theory Chat_Delivery
  imports Chat_Room
begin

text \<open>
  What is said in the chat room reaches the screens: the client's loop, turn after turn, prints the
  messages whose frames arrive, and the bytes that the server hands over for a client are those
  frames.
\<close>

section \<open>A client that reads\<close>

text \<open>A connection whose loop is running and has nothing else to do; \<open>b\<close> is its input buffer.\<close>

definition client_ready ::
    "loop_ptr \<Rightarrow> conn_ptr \<Rightarrow> channel_ptr \<Rightarrow> buffer \<Rightarrow> 'a conn_world_scheme \<Rightarrow> bool" where
  "client_ready l c k b w \<longleftrightarrow> (\<exists>fd x ch e p. conn_at l c fd x ch e p w \<and> conn_channel x = k \<and>
     inputBuffer x = b \<and> buffer_ok b \<and> 1032 \<le> length (buf b) \<and> length (buf b) < 2 ^ 62 \<and> messaCb x \<and>
     readCallback ch = Some (Cb_TcpConnection_handleRead c) \<and> \<not> tied ch \<and> pendingFunctors e = [] \<and>
     0 < ep_events_size p \<and> looping e \<and> \<not> quitting e)"

text \<open>\<open>printf\<close> ends a text at its first zero byte.\<close>

definition shown :: "byte list \<Rightarrow> byte list" where
  "shown = takeWhile (\<lambda>b. b \<noteq> 0)"

lemma print_messages:
  "rfold ChatClient_onStringMessage ms w = Inr (w\<lparr>printed := printed w @ map shown ms\<rparr>)"
  by (induction ms arbitrary: w) (simp_all add: ChatClient_onStringMessage_def shown_def)

lemma client_prints:
  fixes w :: "'a chat_client_world_scheme"
  assumes x: "conns w c = Some x" and b: "buffer_ok (inputBuffer x)"
    and parse: "parse_frames (contents (inputBuffer x)) = (ms, rest, False)"
  shows "\<exists>b'. codec_onMessage ChatClient_onStringMessage c w =
      Inr (w\<lparr>printed := printed w @ map shown ms, conns := (conns w)(c \<mapsto> x\<lparr>inputBuffer := b'\<rparr>)\<rparr>) \<and>
    buffer_ok b' \<and> contents b' = rest \<and> buf b' = buf (inputBuffer x)"
proof -
  obtain b' where b': "buffer_ok b'" "contents b' = rest" "buf b' = buf (inputBuffer x)"
      "\<forall>s. onMessage ChatClient_onStringMessage (shutdown c) (inputBuffer x) (s :: 'a chat_client_world_scheme) =
        rbind (rfold ChatClient_onStringMessage ms s) (\<lambda>s'. rbind (Inr s') (\<lambda>s''. Inr (b', s'')))"
    using onMessage_parse [OF b parse, of ChatClient_onStringMessage "shutdown c"] by auto
  then show ?thesis using x
    by (intro exI [of _ b']) (simp add: codec_onMessage_def print_messages modify_conn_def)
qed

abbreviation client_turn ::
    "('a chat_client_world_scheme \<Rightarrow> nat \<Rightarrow> bool) \<Rightarrow> loop_ptr \<Rightarrow> poll_report \<Rightarrow> 'a chat_client_world_scheme \<Rightarrow>
     'a chat_client_world_scheme result" where
  "client_turn alive l r w \<equiv>
     loop_turn alive (client_callback chat_client_code) (client_functor chat_client_code l) l r w"

lemma client_reads:
  fixes w :: "'a chat_client_world_scheme"
  assumes ready: "client_ready l c k b w" and rd: "read_answers w 0 = Inr d" "d \<noteq> []"
    and room: "length (contents b) + length d + 8 \<le> length (buf b)"
    and parse: "parse_frames (contents b @ d) = (ms, rest, False)"
  shows "\<exists>b' w'. client_turn alive l (Epoll_report [(POLLIN, k)]) w = Inr w' \<and> client_ready l c k b' w' \<and>
    contents b' = rest \<and> printed w' = printed w @ map shown ms \<and>
    read_answers w' = (\<lambda>i. read_answers w (Suc i)) \<and> this_thread w' = this_thread w"
proof -
  let ?exec = "client_functor chat_client_code l" and ?cbs = "client_callback chat_client_code"
  obtain fd x ch e p where at: "conn_at l c fd x ch e p w" "conn_channel x = k" "inputBuffer x = b" "buffer_ok b"
      "1032 \<le> length (buf b)" "length (buf b) < 2 ^ 62" "messaCb x"
      "readCallback ch = Some (Cb_TcpConnection_handleRead c)" "\<not> tied ch"
      "pendingFunctors e = []" "0 < ep_events_size p" "looping e" "\<not> quitting e"
    using ready by (auto simp: client_ready_def)
  have "length d \<le> length (buf b)" using room by simp
  then have small: "length (buf b) + length d < 2 ^ 63" using at(6) by simp
  have fits: "unat (writeIndex b) + length d + 8 \<le> length (buf b) + unat (readIndex b)"
    using room buffer_okD(1,4) [OF at(4)] by linarith
  obtain b0 where b0: "readFd (Inr d) b = Inr (b0, int (length d), None)"
    using readFd_outcome [OF at(4) small] at(5) by (cases "readFd (Inr d) b") (simp_all add: fits split: prod.splits)
  note len = readFd_length [OF at(4) room b0]
  have handler: "?cbs (Cb_TcpConnection_handleRead c) n v = handleRead (client_code chat_client_code) c n v"
    for n and v :: "'a chat_client_world_scheme" by simp
  obtain e1 p1 ch1 now w1 where b: "buffer_ok b0" "contents b0 = contents b @ d"
      and w1: "woken c b0 w w1" "read_answers w1 = (\<lambda>i. read_answers w (Suc i))"
        "conn_at l c fd (x\<lparr>inputBuffer := b0\<rparr>) ch1 e1 p1 w1" "revents ch1 = POLLIN"
      and turn: "client_turn alive l (Epoll_report [(POLLIN, k)]) w =
        rbind (message_cb (client_code chat_client_code) c now w1) (handled ?cbs ?exec l k now)"
    using readable_turn [where exec_cb = ?cbs and code = "client_code chat_client_code" and alive = alive and exec = ?exec,
        OF at(1,11,8,9) handler _ rd at(7)] at(4) b0 unfolding at(2,3) by auto
  note d1 = conn_atD [OF w1(3)]
  have "map_rel calm_loop (loops w) (loops w1)" "map_rel calm_channel (channels w) (channels w1)"
    using w1(1) by (simp_all add: woken_def)
  from map_relD [OF this(1) conn_atD(8) [OF at(1)]] map_relD [OF this(2) conn_atD(4) [OF at(1)]]
  have calm: "calm_loop e e1" "calm_channel ch ch1" using d1(4,8) by simp_all
  let ?x = "\<lambda>b. x\<lparr>inputBuffer := b\<rparr>"
  obtain b' where b': "codec_onMessage ChatClient_onStringMessage c w1 =
        Inr (w1\<lparr>printed := printed w1 @ map shown ms, conns := (conns w1)(c \<mapsto> ?x b')\<rparr>)"
      "buffer_ok b'" "contents b' = rest" "buf b' = buf b0"
    using client_prints [OF d1(2), of ms rest] b parse by auto
  define w2 where "w2 = w1\<lparr>printed := printed w1 @ map shown ms, conns := (conns w1)(c \<mapsto> ?x b')\<rparr>"
  define w3 where "w3 = w2\<lparr>channels := (channels w2)(k \<mapsto> ch1\<lparr>eventHandling := False\<rparr>)\<rparr>"
  define w' where "w' = w3\<lparr>loops := (loops w3)(l \<mapsto> e1\<lparr>callingPendingFunctors := False\<rparr>)\<rparr>"
  have k: "channels w2 k = Some ch1" using d1(4) at(2) by (simp add: w2_def)
  have loop2: "epoll_loop l e1 p1 w2" using d1(1) by (simp add: epoll_loop_def w2_def)
  have loop3: "epoll_loop l e1 p1 w3" unfolding w3_def by (rule unhandled(2) [OF loop2 k])
  have none: "loops w3 l = Some e1" "pendingFunctors e1 = []"
    using loop3 calm(1) at(10) by (simp_all add: epoll_loop_def calm_loop_def)
  have "message_cb (client_code chat_client_code) c now w1 = Inr w2"
    using b'(1) by (simp add: client_code_def chat_client_code_def w2_def)
  moreover have "handled ?cbs ?exec l k now w2 = Inr w'"
    using handled_readable [OF k w1(4), of ?cbs ?exec l now] no_functors [OF none, of ?exec] by (simp add: w3_def w'_def)
  ultimately have run: "client_turn alive l (Epoll_report [(POLLIN, k)]) w = Inr w'" by (simp add: turn)
  have e1: "looping e1" "\<not> quitting e1" "0 < ep_events_size p1"
    using calm(1) at(11-13) d1(1) conn_atD(1) [OF at(1)] by (simp_all add: calm_loop_def epoll_loop_def)
  have "conn_at l c fd (?x b') (ch1\<lparr>eventHandling := False\<rparr>) (e1\<lparr>callingPendingFunctors := False\<rparr>) p1 w'"
    using w1(3) loop3 at(2) by (simp add: conn_at_def epoll_loop_def w'_def w3_def w2_def)
  then have "client_ready l c k b' w'"
    unfolding client_ready_def
    by (intro exI [of _ fd] exI [of _ "?x b'"] exI [of _ "ch1\<lparr>eventHandling := False\<rparr>"]
        exI [of _ "e1\<lparr>callingPendingFunctors := False\<rparr>"] exI [of _ p1])
      (use at b' e1 none(2) len calm(2) in \<open>simp add: calm_channel_def\<close>)
  moreover have "printed w1 = printed w" "this_thread w1 = this_thread w"
    using w1(1) by (cases w; cases w1; simp add: woken_def)+
  ultimately show ?thesis using run b'(3) w1(2)
    by (intro exI [of _ b'] exI [of _ w']) (simp add: w'_def w3_def w2_def)
qed

section \<open>A stream of reads\<close>

text \<open>
  The reads \<open>ds\<close> of successive turns, while \<open>q\<close> is still on its way: some of the messages are
  printed, and the bytes of the next one wait.
\<close>

lemma client_stream:
  fixes w :: "'a chat_client_world_scheme"
  assumes "client_ready l c k b w" and "\<forall>i<length ds. read_answers w i = Inr (ds ! i)"
    and "\<forall>d\<in>set ds. d \<noteq> [] \<and> length d \<le> C" and "contents b @ concat ds @ q = concat (map frame ms)"
    and "\<forall>m\<in>set ms. length m + 4 \<le> L" and "L + C \<le> 1025" "0 < L"
    and "length (contents b) < L" and "parse_frames (contents b) = ([], contents b, False)"
  shows "\<exists>b' w' ms1 ms2. loop_turns (\<lambda>w r. client_turn alive l r w) l
      (map (\<lambda>_. Epoll_report [(POLLIN, k)]) ds) w = Inr (False, w') \<and>
    client_ready l c k b' w' \<and> this_thread w' = this_thread w \<and> ms = ms1 @ ms2 \<and>
    printed w' = printed w @ map shown ms1 \<and> contents b' @ q = concat (map frame ms2) \<and> length (contents b') < L \<and>
    parse_frames (contents b') = ([], contents b', False)"
  using assms
proof (induction ds arbitrary: b w ms)
  case Nil
  obtain e where "loops w l = Some e" "\<not> quitting e"
    using Nil.prems(1) by (auto simp: client_ready_def conn_at_def epoll_loop_def)
  moreover have "ms = [] @ ms" by simp
  ultimately show ?case using Nil.prems
    by (intro exI [of _ b] exI [of _ w] exI [of _ "[]"] exI [of _ ms]) (simp add: loop_turns.simps [of _ _ "[]"])
next
  case (Cons d ds)
  obtain e where e: "loops w l = Some e" "\<not> quitting e"
    using Cons.prems(1) by (auto simp: client_ready_def conn_at_def epoll_loop_def)
  have room: "length (contents b) + length d + 8 \<le> length (buf b)"
    using Cons.prems(1,3,6,8) by (auto simp: client_ready_def)
  have rd: "read_answers w 0 = Inr d" "d \<noteq> []"
    using Cons.prems(2) [rule_format, of 0] Cons.prems(3) by simp_all
  obtain ms1 ms2 rest where p: "ms = ms1 @ ms2" "parse_frames (contents b @ d) = (ms1, rest, False)"
      "rest @ concat ds @ q = concat (map frame ms2)" "length rest < L" "parse_frames rest = ([], rest, False)"
    using parse_prefix [of "contents b @ d" "concat ds @ q" ms L] Cons.prems(4-7) by auto
  obtain b1 w1 where w1: "client_turn alive l (Epoll_report [(POLLIN, k)]) w = Inr w1" "client_ready l c k b1 w1"
      "contents b1 = rest" "printed w1 = printed w @ map shown ms1"
      "read_answers w1 = (\<lambda>i. read_answers w (Suc i))" "this_thread w1 = this_thread w"
    using client_reads [OF Cons.prems(1) rd room p(2), of alive] by blast
  have later: "\<forall>i<length ds. read_answers w1 i = Inr (ds ! i)"
  proof (intro allI impI)
    fix i assume "i < length ds"
    then show "read_answers w1 i = Inr (ds ! i)" using Cons.prems(2) [rule_format, of "Suc i"] by (simp add: w1(5))
  qed
  have "\<forall>d\<in>set ds. d \<noteq> [] \<and> length d \<le> C" "\<forall>m\<in>set ms2. length m + 4 \<le> L"
    using Cons.prems(3,5) p(1) by simp_all
  from Cons.IH [OF w1(2) later this(1) _ this(2) Cons.prems(6,7)] p(3-5) obtain b' w' ms3 ms4 where w':
      "loop_turns (\<lambda>w r. client_turn alive l r w) l (map (\<lambda>_. Epoll_report [(POLLIN, k)]) ds) w1 = Inr (False, w')"
      "client_ready l c k b' w'" "this_thread w' = this_thread w1" "ms2 = ms3 @ ms4"
      "printed w' = printed w1 @ map shown ms3" "contents b' @ q = concat (map frame ms4)"
      "length (contents b') < L" "parse_frames (contents b') = ([], contents b', False)"
    unfolding w1(3) by blast
  have "loop_turns (\<lambda>w r. client_turn alive l r w) l (map (\<lambda>_. Epoll_report [(POLLIN, k)]) (d # ds)) w = Inr (False, w')"
    using e w1(1) w'(1) by (subst loop_turns.simps) simp
  moreover have "ms = (ms1 @ ms3) @ ms4" using p(1) w'(4) by simp
  ultimately show ?case using w' w1(4,6)
    by (intro exI [of _ b'] exI [of _ w'] exI [of _ "ms1 @ ms3"] exI [of _ ms4]) simp
qed

text \<open>All of it in the program: the main thread waits for a line while the loop's thread runs.\<close>

lemma client_lines_print:
  fixes w :: "'a chat_client_world_scheme"
  assumes ready: "client_ready l c k b (w\<lparr>this_thread := t\<rparr>)" "contents b = []"
    and ds: "\<forall>i<length ds. read_answers w i = Inr (ds ! i)" "\<forall>d\<in>set ds. d \<noteq> [] \<and> length d \<le> C"
    and ms: "concat ds @ q = concat (map frame ms)" "\<forall>m\<in>set ms. length m + 4 \<le> L" "L + C \<le> 1025" "0 < L"
  shows "\<exists>w' ms1 ms2 rest. client_lines alive l [Loop_runs (map (\<lambda>_. Epoll_report [(POLLIN, k)]) ds)] w = Inr w' \<and>
    ms = ms1 @ ms2 \<and> printed w' = printed w @ map shown ms1 \<and> rest @ q = concat (map frame ms2) \<and> length rest < L \<and>
    parse_frames rest = ([], rest, False)"
proof -
  let ?w = "w\<lparr>this_thread := t\<rparr>"
  obtain e where e: "loops w l = Some e" "threadId e = t" "looping e"
    using ready(1) by (auto simp: client_ready_def conn_at_def epoll_loop_def)
  have "contents b @ concat ds @ q = concat (map frame ms)" "parse_frames (contents b) = ([], contents b, False)"
    using ms(1) by (simp_all add: ready(2) parse_frames.simps [of "[]"])
  from client_stream [OF ready(1) _ ds(2) this(1) ms(2-4) _ this(2), of alive] ds(1) ms(4) obtain b' w' ms1 ms2 where
      "loop_turns (\<lambda>w r. client_turn alive l r w) l (map (\<lambda>_. Epoll_report [(POLLIN, k)]) ds) ?w = Inr (False, w')"
      "ms = ms1 @ ms2" "printed w' = printed ?w @ map shown ms1" "contents b' @ q = concat (map frame ms2)"
      "length (contents b') < L" "parse_frames (contents b') = ([], contents b', False)"
    by (auto simp: ready(2))
  then show ?thesis using e
    by (intro exI [of _ "w'\<lparr>this_thread := this_thread w\<rparr>"] exI [of _ ms1] exI [of _ ms2] exI [of _ "contents b'"])
      (simp add: loop_thread_runs_def Let_def)
qed

section \<open>What is heard in the room\<close>


fun heard :: "conn_ptr \<Rightarrow> room \<Rightarrow> room_event list \<Rightarrow> (conn_ptr \<times> byte list) list" where
  "heard k R [] = []"
| "heard k R (ev # evs) =
     (case ev of Says c d \<Rightarrow> if k \<in> present R then map (Pair c) (fst (parse_frames (unparsed R c @ d))) else []
      | _ \<Rightarrow> []) @ heard k (room_step ev R) evs"

fun bytes_from :: "conn_ptr \<Rightarrow> room_event list \<Rightarrow> byte list" where
  "bytes_from a [] = []"
| "bytes_from a (Says c d # evs) = (if c = a then d else []) @ bytes_from a evs"
| "bytes_from a (_ # evs) = bytes_from a evs"

lemma sends_step:
  "fold session_step (map (\<lambda>m. Op_send (frame m)) ms) s =
    (if closing s then s else s\<lparr>accepted := accepted s @ concat (map frame ms)\<rparr>)"
  by (induction ms arbitrary: s) simp_all

lemma stays_closing:
  "closing (stream R k) \<Longrightarrow> Arrives k \<notin> set evs \<Longrightarrow> closing (stream (fold room_step evs R) k)"
proof (induction evs arbitrary: R)
  case (Cons ev evs)
  have "closing (stream (room_step ev R) k)"
    using Cons.prems by (cases ev) (auto simp: sends_step split: prod.splits)
  then show ?case using Cons.IH [of "room_step ev R"] Cons.prems(2) by (simp del: room_step.simps)
qed simp

lemma heard_stream:
  assumes "Arrives k \<notin> set evs" and "\<not> closing (stream (fold room_step evs R) k)"
  shows "accepted (stream (fold room_step evs R) k) =
    accepted (stream R k) @ concat (map (\<lambda>m. frame (snd m)) (heard k R evs))"
  using assms
proof (induction evs arbitrary: R)
  case (Cons ev evs)
  let ?R = "room_step ev R"
  have IH: "accepted (stream (fold room_step evs ?R) k) =
      accepted (stream ?R k) @ concat (map (\<lambda>m. frame (snd m)) (heard k ?R evs))"
    using Cons.IH [of ?R] Cons.prems by simp
  have "\<not> closing (stream ?R k)" using stays_closing [of ?R k evs] Cons.prems by (auto simp del: room_step.simps)
  then have "accepted (stream ?R k) = accepted (stream R k) @ concat (map (\<lambda>m. frame (snd m))
      (case ev of Says c d \<Rightarrow> if k \<in> present R then map (Pair c) (fst (parse_frames (unparsed R c @ d))) else []
       | _ \<Rightarrow> []))"
    using Cons.prems(1) by (cases ev) (auto simp: sends_step comp_def split: prod.splits if_splits)
  then show ?case using IH by (simp add: comp_def del: room_step.simps)
qed simp

text \<open>One sender's part of what is heard is what it sent, whole and in order.\<close>

lemma heard_from:
  assumes "k \<in> present R" and "Leaves k \<notin> set evs" and "Arrives a \<notin> set evs"
    and "parse_frames (unparsed R a) = ([], unparsed R a, False)"
    and "unparsed R a @ bytes_from a evs = concat (map frame lines)" and "\<forall>m\<in>set lines. length m \<le> 65536"
  shows "map snd (filter (\<lambda>(c, m). c = a) (heard k R evs)) = lines"
  using assms
proof (induction evs arbitrary: R lines)
  case Nil
  then show ?case using no_frame_left [of "unparsed R a" lines] by simp
next
  case (Cons ev evs)
  let ?R = "room_step ev R"
  have k: "k \<in> present ?R" using Cons.prems(1,2) by (cases ev) (auto split: prod.splits)
  note rest = Cons.IH [OF k]
  show ?case
  proof (cases "\<exists>d. ev = Says a d")
    case True
    then obtain d where ev: "ev = Says a d" by blast
    obtain ms1 ms2 r where p: "lines = ms1 @ ms2" "parse_frames (unparsed R a @ d) = (ms1, r, False)"
        "r @ bytes_from a evs = concat (map frame ms2)" "length r < 65540" "parse_frames r = ([], r, False)"
      using parse_prefix [of "unparsed R a @ d" "bytes_from a evs" lines 65540] Cons.prems(5,6) by (auto simp: ev)
    have "unparsed ?R a = r" by (simp add: ev p(2))
    then show ?thesis using rest [of ms2] Cons.prems(1-3,6) p by (simp add: ev comp_def del: room_step.simps)
  next
    case False
    then have "unparsed ?R a = unparsed R a" "bytes_from a (ev # evs) = bytes_from a evs"
      using Cons.prems(3) by (cases ev; auto split: prod.splits)+
    moreover have "filter (\<lambda>(c, m). c = a) (heard k R (ev # evs)) = filter (\<lambda>(c, m). c = a) (heard k ?R evs)"
      using False by (cases ev) (auto simp: filter_empty_conv simp del: room_step.simps)
    ultimately show ?thesis using rest [of lines] Cons.prems by (simp del: room_step.simps heard.simps)
  qed
qed

lemma stays_present:
  "k \<in> present R \<Longrightarrow> Leaves k \<notin> set evs \<Longrightarrow> k \<in> present (fold room_step evs R)"
proof (induction evs arbitrary: R)
  case (Cons ev evs)
  have "k \<in> present (room_step ev R)" using Cons.prems by (cases ev) (auto split: prod.splits)
  then show ?case using Cons.IH [of "room_step ev R"] Cons.prems(2) by (simp del: room_step.simps)
qed simp

section \<open>From one program to the other\<close>

text \<open>What the server's socket took for a client, and what still waits, is what that client has to hear.\<close>

lemma room_heard:
  fixes w :: "'a chat_world_scheme"
  assumes ok: "room_ok l (room_after (evs1 @ Arrives k # evs2)) w"
    and stays: "Arrives k \<notin> set evs2" "Leaves k \<notin> set evs2" "\<not> closing (stream (room_after (evs1 @ Arrives k # evs2)) k)"
    and x: "conns w k = Some x" "channels w (conn_channel x) = Some ch"
  shows "sent w (ch_fd ch) @ contents (outputBuffer x) =
    concat (map frame (map snd (heard k (room_after (evs1 @ [Arrives k])) evs2)))"
proof -
  let ?R1 = "room_after (evs1 @ [Arrives k])"
  have R: "room_after (evs1 @ Arrives k # evs2) = fold room_step evs2 ?R1" by (simp add: room_after_def)
  have R1: "k \<in> present ?R1" "accepted (stream ?R1 k) = []" by (simp_all add: room_after_def)
  have "k \<in> present (room_after (evs1 @ Arrives k # evs2))" unfolding R by (rule stays_present [OF R1(1) stays(2)])
  then obtain fd where s: "session_ok l k fd (stream (room_after (evs1 @ Arrives k # evs2)) k) w"
    using ok by (auto simp: room_ok_def room_at_def sessions_ok_def)
  then have "sent w (ch_fd ch) @ contents (outputBuffer x) = accepted (stream (room_after (evs1 @ Arrives k # evs2)) k)"
    using x by (elim session_okE) (auto simp: conn_at_def)
  also have "\<dots> = concat (map (\<lambda>m. frame (snd m)) (heard k ?R1 evs2))"
    unfolding R using heard_stream [OF stays(1) stays(3) [unfolded R]] R1(2) by simp
  finally show ?thesis by (simp add: comp_def)
qed

text \<open>
  C1. What is said is shown, when messages and reads are small. A client arrives in the chat room of a
  server that was constructed and started on its loop (a run as in C2), stays, and sends no bad header;
  the chat client at the other end gets a first part of the bytes that the server's socket took for it,
  in reads that are not empty, while its main thread waits for a line. Every message with its header
  has at most \<open>L\<close> bytes, every read at most \<open>C\<close>, and \<open>L + C \<le> 1025\<close>; within this bound the reads may cut
  the bytes anywhere. Then no turn of the client's loop fails, and it prints, once each and in order, a
  first part of the messages that were said since it arrived; all of them, when nothing is left between
  the programs and in the server's buffer. Among them are the lines of every other client that was not
  in the middle of a message, whole and in the order of its stream. The bound keeps an unfinished
  message and the next read within the input buffer: a read that does not fit can end the client in
  \<open>makeSpace\<close> (C16).
\<close>

theorem chat_delivery:
  fixes w :: "'a chat_world_scheme" and v :: "'b chat_client_world_scheme"
  assumes start: "epoll_loop l e p w" "ep_channels p (fd_answers w 0) = None" "channels w (new_ptrs w 0) = None"
      "call_answers w 0 = 0" "call_answers w (Suc 0) = 0" "pendingFunctors e = []" "0 < ep_events_size p"
      "rbind (new_ChatServer l a w) (ChatServer_start use_poll spawn) = Inr w0"
    and run: "room_run alive l (evs1 @ Arrives k # evs2) w0 w'"
    and stays: "Arrives k \<notin> set evs2" "Leaves k \<notin> set evs2" "\<not> closing (stream (room_after (evs1 @ Arrives k # evs2)) k)"
    and x: "conns w' k = Some x" "channels w' (conn_channel x) = Some ch"
    and client: "client_ready l' c k' b (v\<lparr>this_thread := t\<rparr>)" "contents b = []"
    and reads: "concat ds @ q = sent w' (ch_fd ch)" "\<forall>i<length ds. read_answers v i = Inr (ds ! i)"
      "\<forall>d\<in>set ds. d \<noteq> [] \<and> length d \<le> C"
    and sizes: "\<forall>m\<in>set (heard k (room_after (evs1 @ [Arrives k])) evs2). length (snd m) + 4 \<le> L" "L + C \<le> 1025" "0 < L"
  shows "\<exists>v' ms1 ms2. client_lines alive' l' [Loop_runs (map (\<lambda>_. Epoll_report [(POLLIN, k')]) ds)] v = Inr v' \<and>
      map snd (heard k (room_after (evs1 @ [Arrives k])) evs2) = ms1 @ ms2 \<and>
      printed v' = printed v @ map shown ms1 \<and> (q = [] \<and> contents (outputBuffer x) = [] \<longrightarrow> ms2 = []) \<and>
      (\<forall>a lines. Arrives a \<notin> set evs2 \<longrightarrow> unparsed (room_after (evs1 @ [Arrives k])) a = [] \<longrightarrow>
         bytes_from a evs2 = concat (map frame lines) \<longrightarrow> (\<forall>m\<in>set lines. length m \<le> 65536) \<longrightarrow>
         map snd (filter (\<lambda>(c, m). c = a) (heard k (room_after (evs1 @ [Arrives k])) evs2)) = lines)"
proof -
  let ?R1 = "room_after (evs1 @ [Arrives k])"
  define ms where "ms = map snd (heard k ?R1 evs2)"
  have "room_ok l (room_after (evs1 @ Arrives k # evs2)) w'"
    unfolding room_after_def by (rule room_run_ok [OF run room_opens [OF start]])
  from room_heard [OF this stays x] have stream: "concat ds @ q @ contents (outputBuffer x) = concat (map frame ms)"
    using reads(1) by (simp add: ms_def flip: append_assoc)
  have short: "\<forall>m\<in>set ms. length m + 4 \<le> L" using sizes(1) by (simp add: ms_def)
  obtain v' ms1 ms2 rest where v': "client_lines alive' l' [Loop_runs (map (\<lambda>_. Epoll_report [(POLLIN, k')]) ds)] v = Inr v'"
      "ms = ms1 @ ms2" "printed v' = printed v @ map shown ms1"
      "rest @ q @ contents (outputBuffer x) = concat (map frame ms2)" "parse_frames rest = ([], rest, False)"
    using client_lines_print [OF client reads(2,3) stream short sizes(2,3), of alive'] by blast
  have "length m \<le> 65536" if "m \<in> set ms2" for m
    using bspec [OF short, of m] sizes(2) that by (simp add: v'(2))
  then have "ms2 = []" if "q = []" "contents (outputBuffer x) = []"
    using no_frame_left [of rest ms2] v'(4,5) that by simp
  moreover have "map snd (filter (\<lambda>(c, m). c = a) (heard k ?R1 evs2)) = lines"
    if "Arrives a \<notin> set evs2" "unparsed ?R1 a = []" "bytes_from a evs2 = concat (map frame lines)"
      "\<forall>m\<in>set lines. length m \<le> 65536" for a lines
    using heard_from [OF _ stays(2) that(1), of ?R1 lines] that by (simp add: parse_frames.simps [of "[]"] room_after_def)
  ultimately show ?thesis using v'(1-3) unfolding ms_def [symmetric] by blast
qed

text \<open>
  The one client of the lobby, in front of the program \<open>typed_demo\<close>, whose loop is running; every
  read gets \<open>d\<close>.
\<close>

definition reading_loop :: event_loop where
  "reading_loop = (demo_loop 3)\<lparr>looping := True\<rparr>"

definition reading_demo :: "byte list \<Rightarrow> chat_client_world" where
  "reading_demo d = typed_demo\<lparr>loops := [0 \<mapsto> reading_loop], read_answers := (\<lambda>_. Inr d)\<rparr>"

lemma reading_demo_ready: "client_ready 0 7 20 new_Buffer ((reading_demo d)\<lparr>this_thread := 1\<rparr>)"
proof -
  have "conn_at 0 7 5 (demo_conn kConnected new_Buffer) (demo_channel 3) reading_loop (demo_poller 3)
      ((reading_demo d)\<lparr>this_thread := 1\<rparr>)"
    using typed_demo_at
    by (simp add: conn_at_def epoll_loop_def reading_demo_def reading_loop_def typed_demo_def)
  then show ?thesis using new_Buffer_ok(1) unfolding client_ready_def
    by (intro exI [of _ 5] exI [of _ "demo_conn kConnected new_Buffer"] exI [of _ "demo_channel 3"]
        exI [of _ reading_loop] exI [of _ "demo_poller 3"])
      (simp add: demo_conn_def demo_channel_def new_Channel_def reading_loop_def demo_loop_def small_loop_def
        demo_poller_def new_EpollPoller_def kInitEventListSize_def)
qed

theorem chat_delivery_witness:
  "\<exists>w0 w' v'. rbind (new_ChatServer 0 (InetAddress_port 80) lobby) (ChatServer_start False (\<lambda>_. no_thread)) = Inr w0 \<and>
    room_run (\<lambda>_ _. True) 0 [Arrives 51, Says 51 (frame [42])] w0 w' \<and>
    client_lines (\<lambda>_ _. True) 0 [Loop_runs [Epoll_report [(POLLIN, 20)]]] (reading_demo (frame [42])) = Inr v' \<and>
    printed v' = [[42]]"
proof -
  let ?evs = "[Says 51 (frame [42])]" and ?R = "room_after ([] @ [Arrives 51])"
  obtain w0 where w0: "rbind (new_ChatServer 0 (InetAddress_port 80) lobby) (ChatServer_start False (\<lambda>_. no_thread)) = Inr w0"
    using chat_server_listens [OF lobby_loop lobby_simps(1-4)] by blast
  obtain w' x where run: "room_run (\<lambda>_ _. True) 0 ([] @ Arrives 51 # ?evs) w0 w'"
      and x: "conns w' 51 = Some x" "contents (outputBuffer x) = []"
    using lobby_run [OF w0] by auto
  have R: "heard 51 ?R ?evs = [(51, [42])]" "\<not> closing (stream (room_after ([] @ Arrives 51 # ?evs)) 51)"
      "51 \<in> present (room_after ([] @ Arrives 51 # ?evs))"
    by (simp_all add: room_after_def empty_room_def parse_framed_byte)
  have ok: "room_ok 0 (room_after ([] @ Arrives 51 # ?evs)) w'"
    unfolding room_after_def by (rule room_run_ok [OF run room_opens [OF lobby_loop lobby_simps w0]])
  obtain ch where ch: "channels w' (conn_channel x) = Some ch"
    using room_member [OF ok R(3) x(1)] conn_atD(4) by blast
  have sent: "sent w' (ch_fd ch) = frame [42]"
    using room_heard [OF ok _ _ R(2) x(1) ch] x(2) R(1) by simp
  have reads: "concat [frame [42]] @ [] = sent w' (ch_fd ch)"
      "\<forall>i<length [frame [42]]. read_answers (reading_demo (frame [42])) i = Inr ([frame [42]] ! i)"
      "\<forall>d\<in>set [frame [42]]. d \<noteq> [] \<and> length d \<le> 5"
    using sent by (simp_all add: reading_demo_def flip: length_greater_0_conv)
  have sizes: "\<forall>m\<in>set (heard 51 ?R ?evs). length (snd m) + 4 \<le> 5" "(5 :: nat) + 5 \<le> 1025" "(0 :: nat) < 5"
    unfolding R(1) by simp_all
  have "printed (reading_demo (frame [42])) = []" "shown [42] = [42]"
    by (simp_all add: reading_demo_def typed_demo_def shown_def)
  then show ?thesis
    using chat_delivery [OF lobby_loop lobby_simps w0 run _ _ R(2) x(1) ch reading_demo_ready new_Buffer_ok(2) reads sizes,
        of "\<lambda>_ _. True"] w0 run x(2) unfolding R(1) by auto
qed

end
