(* ===== verification/Client_Opens.thy ===== *)
theory Client_Opens
  imports Chat_Delivery
begin

text \<open>
  The chat client's way up: \<open>connect\<close> in the main thread, the attempt and its success in the loop's
  thread, until the connection is there and the client reads.
\<close>

section \<open>The attempt\<close>

definition attempt_channel :: "loop_ptr \<Rightarrow> int \<Rightarrow> channel" where
  "attempt_channel l fd = (new_Channel l fd)\<lparr>writeCallback := Some Cb_Connector_handleWrite,
     errorCallback := Some Cb_Connector_handleError, events := kWriteEvent, index := kAdded\<rparr>"

lemma attempt_channel_simps [simp]:
  "ch_loop (attempt_channel l fd) = l" "ch_fd (attempt_channel l fd) = fd" "index (attempt_channel l fd) = kAdded"
  "writeCallback (attempt_channel l fd) = Some Cb_Connector_handleWrite" "\<not> tied (attempt_channel l fd)"
  "eventHandling (attempt_channel l fd) = False" "kAdded \<noteq> kNew"
  by (simp_all add: attempt_channel_def new_Channel_def index_values)

lemma attempt_starts:
  fixes w :: "'a client_world_scheme"
  assumes lp: "epoll_loop l e p w" and size: "0 < ep_events_size p"
    and k: "cn_loop (connector w) = l" "cn_state (connector w) = Cs_kDisconnected" "cn_connect (connector w)"
      "cn_channel (connector w) = None"
    and new: "channels w (new_ptrs w 0) = None" "ep_channels p (fd_answers w 0) = None"
    and err: "call_answers w 0 \<in> under_way"
  shows "\<exists>w' p'. startInLoop w = Inr w' \<and> epoll_loop l (e\<lparr>loop_poller := Epoll p'\<rparr>) p' w' \<and> 0 < ep_events_size p' \<and>
    channels w' = (channels w)(new_ptrs w 0 \<mapsto> attempt_channel l (fd_answers w 0)) \<and>
    loops w' = (loops w)(l \<mapsto> e\<lparr>loop_poller := Epoll p'\<rparr>) \<and> conns w' = conns w \<and> this_thread w' = this_thread w \<and>
    connector w' = (connector w)\<lparr>cn_state := Cs_kConnecting, cn_channel := Some (new_ptrs w 0)\<rparr> \<and>
    client w' = client w \<and> new_ptrs w' = (\<lambda>i. new_ptrs w (Suc i)) \<and> socket_errors w' = socket_errors w \<and>
    local_addr w' = local_addr w \<and> peer_addr w' = peer_addr w \<and> read_answers w' = read_answers w \<and>
    client_world.more w' = client_world.more w"
proof -
  define c where "c = new_ptrs w 0"
  define ch where "ch = (new_Channel l (fd_answers w 0))\<lparr>writeCallback := Some Cb_Connector_handleWrite,
     errorCallback := Some Cb_Connector_handleError\<rparr>"
  define w1 where "w1 = w\<lparr>fd_answers := \<lambda>i. fd_answers w (Suc i), call_answers := \<lambda>i. call_answers w (Suc i),
     new_ptrs := \<lambda>i. new_ptrs w (Suc i), channels := (channels w)(c \<mapsto> ch),
     connector := (connector w)\<lparr>cn_state := Cs_kConnecting, cn_channel := Some c\<rparr>\<rparr>"
  have i: "index ch = kNew" "ch_loop ch = l" "ch_fd ch = fd_answers w 0" "events ch = 0"
    by (simp_all add: ch_def new_Channel_def index_values)
  have lp1: "epoll_loop l e p w1"
    using lp epoll_loop_new_channel(2) [OF lp new(1) i(1)] by (simp add: epoll_loop_def w1_def c_def)
  have ch1: "channels w1 c = Some ch" "with_writing ch = ch\<lparr>events := kWriteEvent\<rparr>"
    using i(4) by (simp_all add: w1_def with_writing_def)
  have "(if index ch = kAdded \<and> kWriteEvent = 0 then kDeleted else kAdded) = kAdded"
    using i(1) by (simp add: index_values)
  moreover have "ch\<lparr>events := kWriteEvent, index := kAdded\<rparr> = attempt_channel l (fd_answers w 0)"
    by (simp add: ch_def attempt_channel_def)
  ultimately obtain p' where p': "enableWriting c w1 = Inr (store_channel l e p' c (attempt_channel l (fd_answers w 0)) w1)"
      "epoll_loop l (e\<lparr>loop_poller := Epoll p'\<rparr>) p' (store_channel l e p' c (attempt_channel l (fd_answers w 0)) w1)"
    using change_events_ok [where f = with_writing, OF lp1 ch1(1) i(2) ch1(2)] new(2) i(3)
    unfolding enableWriting_def by auto
  let ?w = "store_channel l e p' c (attempt_channel l (fd_answers w 0)) w1"
  have "map_rel calm_loop (loops w1) (loops ?w)" using enableWriting_calm [OF p'(1)] by (simp add: calm_def)
  from map_relD [OF this, of l e] have "0 < ep_events_size p'"
    using lp1 size by (simp add: calm_loop_def epoll_loop_def)
  moreover have "startInLoop w = enableWriting c w1"
    using lp k err by (simp add: startInLoop_def assertInLoopThread_def isInLoopThread_def epoll_loop_def
        Connector_connect_def Socket_createNonblocking_def sys_call_def connecting_def Let_def modify_connector_def
        alloc_def Channel_setErrorCallback_def Channel_setWriteCallback_def w1_def c_def ch_def)
  ultimately show ?thesis using p'
    by (intro exI [of _ ?w] exI [of _ p']) (simp add: store_channel_def w1_def c_def)
qed

section \<open>Its success\<close>

definition opened_conn :: "loop_ptr \<Rightarrow> channel_ptr \<Rightarrow> string \<Rightarrow> sockaddr_in \<Rightarrow> sockaddr_in \<Rightarrow> conn" where
  "opened_conn l k name local peer = \<lparr>conn_loop = l, conn_channel = k, conn_name = name, state = kConnecting,
     inputBuffer = new_Buffer, outputBuffer = new_Buffer, connCb = True, messaCb = True,
     closeCb = Some Cl_TcpClient_removeConnection, wriComCb = False, highCb = False,
     conn_localAddr = local, conn_peerAddr = peer\<rparr>"

definition conn_channel_in :: "loop_ptr \<Rightarrow> conn_ptr \<Rightarrow> int \<Rightarrow> channel" where
  "conn_channel_in l c fd = (new_Channel l fd)\<lparr>readCallback := Some (Cb_TcpConnection_handleRead c),
     closeCallback := Some (Cb_TcpConnection_handleClose c)\<rparr>"

lemma client_cb_loops:
  assumes "connection_cb (client_code chat_client_code) c w = Inr w'"
  shows "loops w' = loops w"
proof -
  obtain x where "conns w c = Some x"
    using assms by (auto simp: client_code_def chat_client_code_def ChatClient_onConnection_def rbind_Inr_iff deref_Inr_iff)
  then show ?thesis using assms
    by (cases "connected x")
      (auto simp: client_code_def chat_client_code_def ChatClient_onConnection_def)
qed

lemma client_connection_up:
  fixes w :: "'a chat_client_world_scheme"
  assumes lp: "epoll_loop l e p w" and size: "0 < ep_events_size p" and fd: "ep_channels p fd = None"
    and cl: "cl_loop (client w) = l" "cl_connCb (client w)" "cl_messaCb (client w)"
    and new: "channels w (new_ptrs w (Suc 0)) = None"
  defines "c \<equiv> new_ptrs w 0" and "k \<equiv> new_ptrs w (Suc 0)"
  shows "\<exists>w' p' x. TcpClient_newConnection chat_client_code fd w = Inr w' \<and>
    conn_at l c fd x ((conn_channel_in l c fd)\<lparr>events := kReadEvent, index := kAdded\<rparr>) (e\<lparr>loop_poller := Epoll p'\<rparr>) p' w' \<and>
    conn_channel x = k \<and> state x = kConnected \<and> inputBuffer x = new_Buffer \<and> messaCb x \<and> 0 < ep_events_size p' \<and>
    channels w' = (channels w)(k \<mapsto> (conn_channel_in l c fd)\<lparr>events := kReadEvent, index := kAdded\<rparr>) \<and>
    connector w' = connector w \<and> connection (client w') = Some c \<and> this_thread w' = this_thread w \<and>
    read_answers w' = read_answers w \<and> chat_connection w' = Some c \<and> chat_connected w' \<and> printed w' = printed w"
proof -
  let ?code = "client_code chat_client_code :: 'a chat_client_world_scheme conn_code"
  define name where "name = cl_name (client w) @ take 31 ('':'' @ toIpPort (Socket_getPeerAddr fd w) @ ''#'' @
      decimal_int (sint (cl_nextConnId (client w))))"
  define x0 where "x0 = opened_conn l k name (Socket_getLocalAddr fd w) (Socket_getPeerAddr fd w)"
  define w1 where "w1 = w\<lparr>new_ptrs := \<lambda>i. new_ptrs w (Suc (Suc i)), channels := (channels w)(k \<mapsto> conn_channel_in l c fd),
     conns := (conns w)(c \<mapsto> x0), client := (client w)\<lparr>cl_nextConnId := cl_nextConnId (client w) + 1, connection := Some c\<rparr>\<rparr>"
  let ?x = "x0\<lparr>state := kConnected\<rparr>" and ?ch = "(conn_channel_in l c fd)\<lparr>events := kReadEvent, index := kAdded\<rparr>"
  have e: "loops w l = Some e" "threadId e = this_thread w" using lp by (simp_all add: epoll_loop_def)
  have run: "TcpClient_newConnection chat_client_code fd w = connEstablished ?code c w1"
    using cl e by (simp add: TcpClient_newConnection_def assertInLoopThread_def isInLoopThread_def Let_def alloc_def
        new_TcpConnection_def setConnectionCallback_def setMessageCallback_def setCloseCallback_def modify_conn_def
        opened_conn_def conn_channel_in_def Socket_getLocalAddr_def Socket_getPeerAddr_def
        x0_def w1_def name_def c_def k_def Channel_setCloseCallback_def Channel_setReadCallback_def)
  have i: "index (conn_channel_in l c fd) = kNew" "ch_loop (conn_channel_in l c fd) = l" "ch_fd (conn_channel_in l c fd) = fd"
      "events (conn_channel_in l c fd) = 0"
    by (simp_all add: conn_channel_in_def new_Channel_def index_values)
  have lp1: "epoll_loop l e p w1"
    using lp epoll_loop_new_channel(2) [OF lp new i(1)] by (simp add: epoll_loop_def w1_def k_def)
  have x0: "conns w1 c = Some x0" "conn_loop x0 = l" "state x0 = kConnecting" "connCb x0" "conn_channel x0 = k"
      "channels w1 (conn_channel x0) = Some (conn_channel_in l c fd)" "ep_channels p (ch_fd (conn_channel_in l c fd)) = None"
    using fd i(3) by (simp_all add: w1_def x0_def opened_conn_def)
  obtain p' w2 where w2: "w2 = store_channel l e p' k ?ch (w1\<lparr>conns := (conns w1)(c \<mapsto> ?x)\<rparr>)"
      "connEstablished ?code c w1 = connection_cb ?code c w2"
      "conn_at l c fd ?x ?ch (e\<lparr>loop_poller := Epoll p'\<rparr>) p' w2"
    using connEstablished_at [OF lp1 x0(1-4,6) i(2,1,4) x0(7), of ?code] unfolding i(3) x0(5) by blast
  define w' where "w' = w2\<lparr>chat_connection := Some c, chat_connected := True\<rparr>"
  have "connected ?x" by (simp add: connected_def)
  then have up: "connection_cb ?code c w2 = Inr w'"
    using conn_atD(2) [OF w2(3)]
    by (simp add: client_code_def chat_client_code_def ChatClient_onConnection_def w'_def)
  then have est: "connEstablished ?code c w1 = Inr w'" using w2(2) by simp
  then have "map_rel calm_loop (loops w1) (loops w')"
    by (rule connEstablished_loops) (rule client_cb_loops)
  from map_relD [OF this, of l e] have "0 < ep_events_size p'"
    using conn_atD(8) [OF w2(3)] e(1) size lp by (simp add: w1_def w'_def calm_loop_def epoll_loop_def)
  moreover have "conn_at l c fd ?x ?ch (e\<lparr>loop_poller := Epoll p'\<rparr>) p' w'"
    using w2(3) by (simp add: conn_at_def epoll_loop_def w'_def)
  ultimately show ?thesis using run est
    by (intro exI [of _ w'] exI [of _ p'] exI [of _ ?x])
      (simp add: x0_def opened_conn_def w'_def w2(1) w1_def store_channel_def)
qed

text \<open>The channel of the attempt is out of the poller and is freed by the queued functor.\<close>

lemma epoll_ok_delete:
  assumes ok: "epoll_ok l (h, p)" and ch: "h c = Some ch" "index ch = kNew"
  shows "epoll_ok l (h(c := None), p)"
proof -
  have out: "ep_channels p fd \<noteq> Some c" for fd
    using epoll_okD(1) [OF ok, of fd c] ch by (auto simp: index_values)
  then have "epoll_watch (h(c := None)) p = epoll_watch h p"
    by (auto simp: epoll_watch_def fun_eq_iff split: option.split)
  then show ?thesis using ok out by (auto simp: epoll_ok_def)
qed

lemma conn_at_delete:
  assumes at: "conn_at l c fd x ch e p w" and k: "channels w k = Some chk" "index chk = kNew"
  shows "conn_at l c fd x ch e p (w\<lparr>channels := (channels w)(k := None)\<rparr>)"
proof -
  have "epoll_ok l (channels w, p)" using at by (simp add: conn_at_def epoll_loop_def)
  from epoll_ok_delete [OF this k] show ?thesis using at k by (auto simp: conn_at_def epoll_loop_def)
qed

lemma attempt_removed_ready:
  fixes w :: "'a client_world_scheme"
  assumes run: "removeAndResetChannel w = Inr (fd, w')" and e: "loops w l = Some e" "loops w' l = Some e'"
    and ready: "poller_ready (loop_poller e)"
  shows "poller_ready (loop_poller e')"
proof -
  obtain k w1 w2 where w1: "disableAll k w = Inr w1" "removeChannel (cn_loop (connector w)) k w1 = Inr w2"
      "queueInLoop (cn_loop (connector w)) Fn_resetChannel w2 = Inr w'"
    using run by (auto simp: removeAndResetChannel_def Let_def rbind_Inr_iff)
  have "map_rel calm_loop (loops w) (loops w2)"
    using disableAll_calm [OF w1(1), THEN calm_loops] removeChannel_loops [OF w1(2)] calm_loops_trans by blast
  from map_relD [OF this e(1)] obtain e2 where e2: "loops w2 l = Some e2" "poller_ready (loop_poller e2)"
    using ready by (auto simp: calm_loop_def)
  then show ?thesis using w1(3) e(2)
    by (auto simp: queueInLoop_def on_loop_def rbind_Inr_iff deref_Inr_iff queue_functor_def push_functor_def
        wakeup_def Let_def split: if_splits)
qed

text \<open>Inside the write callback of the attempt's channel.\<close>

lemma handleWrite_succeeds:
  fixes w :: "'a chat_client_world_scheme"
  assumes lp: "epoll_loop l e p w" "0 < ep_events_size p" "pendingFunctors e = []"
    and k: "cn_loop (connector w) = l" "cn_state (connector w) = Cs_kConnecting" "cn_connect (connector w)"
      "cn_cb (connector w)" "cn_channel (connector w) = Some a"
    and ch: "channels w a = Some ch" "ch_loop ch = l" "index ch \<noteq> kNew" "ch_fd ch = fd"
    and cl: "cl_loop (client w) = l" "cl_connCb (client w)" "cl_messaCb (client w)"
    and new: "channels w (new_ptrs w (Suc 0)) = None"
    and env: "socket_errors w 0 = 0" "\<not> isSelfConnection fd w"
  defines "c \<equiv> new_ptrs w 0" and "k \<equiv> new_ptrs w (Suc 0)"
  shows "\<exists>w' e' p' x. Connector_handleWrite chat_client_code w = Inr w' \<and>
    conn_at l c fd x ((conn_channel_in l c fd)\<lparr>events := kReadEvent, index := kAdded\<rparr>) e' p' w' \<and>
    conn_channel x = k \<and> inputBuffer x = new_Buffer \<and> messaCb x \<and> 0 < ep_events_size p' \<and>
    pendingFunctors e' = [Fn_resetChannel] \<and> looping e' = looping e \<and> quitting e' = quitting e \<and>
    channels w' a = Some (ch\<lparr>events := 0, index := kNew\<rparr>) \<and>
    connector w' = (connector w)\<lparr>cn_state := Cs_kConnected\<rparr> \<and> connection (client w') = Some c \<and>
    chat_connection w' = Some c \<and> chat_connected w' \<and> printed w' = printed w \<and> read_answers w' = read_answers w \<and>
    this_thread w' = this_thread w"
proof -
  have a: "k \<noteq> a" using new ch(1) by (auto simp: k_def)
  obtain w3 e3 p3 where w3: "removeAndResetChannel w = Inr (fd, w3)" "epoll_loop l e3 p3 w3" "ep_channels p3 fd = None"
      "e3 = queue_functor True Fn_resetChannel (e\<lparr>loop_poller := Epoll p3\<rparr>)"
      "channels w3 = (channels w)(a \<mapsto> ch\<lparr>events := 0, index := kNew\<rparr>)"
      "this_thread w3 = this_thread w" "loops_world.more w3 = loops_world.more w"
    using removeAndResetChannel_ok [OF lp(1) k(1,5) ch(1-3)] unfolding ch(4) by blast
  have same: "connector w3 = connector w" "client w3 = client w" "socket_errors w3 = socket_errors w"
      "new_ptrs w3 = new_ptrs w" "local_addr w3 = local_addr w" "peer_addr w3 = peer_addr w" "printed w3 = printed w"
      "read_answers w3 = read_answers w"
    using w3(7) by (cases w3; cases w; simp)+
  have "poller_ready (loop_poller e)" using lp(1,2) by (simp add: epoll_loop_def)
  then have size: "0 < ep_events_size p3"
    using attempt_removed_ready [OF w3(1), of l e e3] lp(1) w3(2) by (simp add: epoll_loop_def)
  define w5 where "w5 = modify_connector (\<lambda>k. k\<lparr>cn_state := Cs_kConnected\<rparr>)
      (w3\<lparr>socket_errors := \<lambda>i. socket_errors w3 (Suc i)\<rparr>)"
  have lp5: "epoll_loop l e3 p3 w5" using w3(2) by (simp add: epoll_loop_def w5_def modify_connector_def)
  have w5: "channels w5 (new_ptrs w5 (Suc 0)) = None" "new_ptrs w5 = new_ptrs w" "channels w5 = channels w3"
      "cl_loop (client w5) = l" "cl_connCb (client w5)" "cl_messaCb (client w5)" "printed w5 = printed w"
      "connector w5 = (connector w)\<lparr>cn_state := Cs_kConnected\<rparr>" "read_answers w5 = read_answers w" "this_thread w5 = this_thread w"
    using new a cl by (simp_all add: w5_def modify_connector_def same w3(5,6) k_def)
  have "\<not> isSelfConnection fd (w3\<lparr>socket_errors := \<lambda>i. socket_errors w3 (Suc i)\<rparr>)"
    using env(2) by (simp add: isSelfConnection_def Socket_getLocalAddr_def Socket_getPeerAddr_def same)
  then have run: "Connector_handleWrite chat_client_code w = TcpClient_newConnection chat_client_code fd w5"
    using k(2-4) env(1) w3(1) by (simp add: Connector_handleWrite_def getSocketError_def same w5_def
        modify_connector_def call_if_set_def)
  obtain w6 p6 x where w6: "TcpClient_newConnection chat_client_code fd w5 = Inr w6"
      "conn_at l c fd x ((conn_channel_in l c fd)\<lparr>events := kReadEvent, index := kAdded\<rparr>) (e3\<lparr>loop_poller := Epoll p6\<rparr>) p6 w6"
      "conn_channel x = k" "inputBuffer x = new_Buffer" "messaCb x" "0 < ep_events_size p6"
      "channels w6 = (channels w5)(k \<mapsto> (conn_channel_in l c fd)\<lparr>events := kReadEvent, index := kAdded\<rparr>)"
      "connector w6 = connector w5" "connection (client w6) = Some c" "this_thread w6 = this_thread w5"
      "read_answers w6 = read_answers w5" "chat_connection w6 = Some c" "chat_connected w6" "printed w6 = printed w5"
    using client_connection_up [OF lp5 size w3(3) w5(4-6,1)] unfolding w5(2) c_def k_def by blast
  have "pendingFunctors e3 = [Fn_resetChannel]" "looping e3 = looping e" "quitting e3 = quitting e"
    using lp(3) by (simp_all add: w3(4) queue_functor_def push_functor_def wakeup_def Let_def)
  then show ?thesis using run w6 w5 a
    by (intro exI [of _ w6] exI [of _ "e3\<lparr>loop_poller := Epoll p6\<rparr>"] exI [of _ p6] exI [of _ x]) (simp add: w3(5))
qed

text \<open>The end of the turn frees the channel of the attempt.\<close>

lemma attempt_freed:
  fixes w :: "'a chat_client_world_scheme"
  assumes at: "conn_at l c fd x chk e p w" and pending: "pendingFunctors e = [Fn_resetChannel]"
    and a: "cn_channel (connector w) = Some a" "channels w a = Some ch" "index ch = kNew" "\<not> eventHandling ch"
  shows "\<exists>w' e'. doPendingFunctors (client_functor chat_client_code l) l w = Inr w' \<and> conn_at l c fd x chk e' p w' \<and>
    pendingFunctors e' = [] \<and> looping e' = looping e \<and> quitting e' = quitting e \<and> channels w' a = None \<and>
    connector w' = (connector w)\<lparr>cn_channel := None\<rparr> \<and> client w' = client w \<and> this_thread w' = this_thread w \<and>
    read_answers w' = read_answers w \<and> client_world.more w' = client_world.more w"
proof -
  let ?exec = "client_functor chat_client_code l"
  define v where "v = w\<lparr>channels := (channels w)(a := None), loops := (loops w)(l \<mapsto> snd (swap_pending e)),
      connector := (connector w)\<lparr>cn_channel := None\<rparr>\<rparr>"
  have "?exec Fn_resetChannel (w\<lparr>loops := (loops w)(l \<mapsto> snd (swap_pending e))\<rparr>) = Inr v"
    using a by (simp add: resetChannel_def delete_Channel_def v_def modify_connector_def)
  then have "doPendingFunctors ?exec l w = Inr (v\<lparr>loops := (loops v)(l \<mapsto> done_pending (snd (swap_pending e)))\<rparr>)"
    using one_functor [where f = Fn_resetChannel and exec = ?exec, OF conn_atD(8) [OF at] pending] by (simp add: v_def)
  moreover have "conn_at l c fd x chk (done_pending (snd (swap_pending e))) p
      (v\<lparr>loops := (loops v)(l \<mapsto> done_pending (snd (swap_pending e)))\<rparr>)"
    using conn_at_delete [OF at a(2,3)] at
    by (simp add: conn_at_def epoll_loop_def v_def done_pending_def swap_pending_def)
  ultimately show ?thesis
    by (intro exI [of _ "v\<lparr>loops := (loops v)(l \<mapsto> done_pending (snd (swap_pending e)))\<rparr>"]
        exI [of _ "done_pending (snd (swap_pending e))"]) (simp add: v_def done_pending_def swap_pending_def)
qed

lemma attempt_succeeds:
  fixes w :: "'a chat_client_world_scheme"
  assumes lp: "epoll_loop l e p w" "0 < ep_events_size p" "pendingFunctors e = []" "looping e" "\<not> quitting e"
    and k: "cn_loop (connector w) = l" "cn_state (connector w) = Cs_kConnecting" "cn_connect (connector w)"
      "cn_cb (connector w)" "cn_channel (connector w) = Some a" "channels w a = Some (attempt_channel l fd)"
    and cl: "cl_loop (client w) = l" "cl_connCb (client w)" "cl_messaCb (client w)"
    and new: "channels w (new_ptrs w (Suc 0)) = None"
    and env: "socket_errors w 0 = 0" "\<not> isSelfConnection fd w"
  shows "\<exists>w'. client_turn alive l (Epoll_report [(POLLOUT, a)]) w = Inr w' \<and>
    client_ready l (new_ptrs w 0) (new_ptrs w (Suc 0)) new_Buffer w' \<and>
    cn_state (connector w') = Cs_kConnected \<and> cn_channel (connector w') = None \<and> channels w' a = None \<and>
    connection (client w') = Some (new_ptrs w 0) \<and> chat_connection w' = Some (new_ptrs w 0) \<and> chat_connected w' \<and>
    printed w' = printed w \<and> this_thread w' = this_thread w \<and> read_answers w' = read_answers w"
proof -
  let ?exec = "client_functor chat_client_code l" and ?cbs = "client_callback chat_client_code"
  let ?c = "new_ptrs w 0" and ?k = "new_ptrs w (Suc 0)"
  obtain e1 p1 now w1 where w1: "reported l a POLLOUT w w1" "epoll_loop l e1 p1 w1"
      "client_turn alive l (Epoll_report [(POLLOUT, a)]) w =
        rbind (handleEvent alive ?cbs now a w1) (doPendingFunctors ?exec l)"
    using one_report_turn [OF lp(1,2) k(6), of POLLOUT alive ?cbs ?exec] by auto
  have calm: "calm_loop e e1" and chans1: "channels w1 = (channels w)(a \<mapsto> (attempt_channel l fd)\<lparr>revents := POLLOUT\<rparr>)"
      and same1: "this_thread w1 = this_thread w" "conn_world.more w1 = conn_world.more w" "read_answers w1 = read_answers w"
    using w1(1,2) lp(1) k(6) by (auto simp: reported_def epoll_loop_def)
  define ch2 where "ch2 = (attempt_channel l fd)\<lparr>revents := POLLOUT, eventHandling := True\<rparr>"
  define w2 where "w2 = w1\<lparr>channels := (channels w1)(a \<mapsto> ch2)\<rparr>"
  have ev: "handleEvent alive ?cbs now a w1 =
      rbind (Connector_handleWrite chat_client_code w2) (modify_channel a (\<lambda>ch. ch\<lparr>eventHandling := False\<rparr>))"
    using handleEvent_writable [of w1 a "(attempt_channel l fd)\<lparr>revents := POLLOUT\<rparr>"] by (simp add: chans1 w2_def ch2_def)
  have "epoll_ok l (channels w2, p1)"
    using w1(2) epoll_ok_same [of l "channels w1" p1 a, where ch' = ch2] by (simp add: epoll_loop_def w2_def chans1 ch2_def)
  then have lp2: "epoll_loop l e1 p1 w2" "0 < ep_events_size p1" "pendingFunctors e1 = []"
    using w1(2) calm lp(1-3) by (simp_all add: epoll_loop_def w2_def calm_loop_def)
  have same2: "connector w2 = connector w" "client w2 = client w" "socket_errors w2 = socket_errors w"
      "new_ptrs w2 = new_ptrs w" "local_addr w2 = local_addr w" "peer_addr w2 = peer_addr w" "printed w2 = printed w"
      "read_answers w2 = read_answers w" "this_thread w2 = this_thread w"
    using same1 by (cases w1; cases w; simp add: w2_def)+
  have ch2: "channels w2 a = Some ch2" "ch_loop ch2 = l" "index ch2 \<noteq> kNew" "ch_fd ch2 = fd"
    by (simp_all add: w2_def ch2_def)
  have "channels w2 = (channels w)(a \<mapsto> ch2)" by (simp add: w2_def chans1)
  then have fresh: "channels w2 (new_ptrs w2 (Suc 0)) = None" "\<not> isSelfConnection fd w2"
    using new k(6) env(2) by (auto simp: same2 isSelfConnection_def Socket_getLocalAddr_def Socket_getPeerAddr_def)
  let ?ck = "(conn_channel_in l ?c fd)\<lparr>events := kReadEvent, index := kAdded\<rparr>"
  let ?ch = "ch2\<lparr>events := 0, index := kNew\<rparr>"
  obtain w6 e6 p6 x where w6: "Connector_handleWrite chat_client_code w2 = Inr w6" "conn_at l ?c fd x ?ck e6 p6 w6"
      "conn_channel x = ?k" "inputBuffer x = new_Buffer" "messaCb x" "0 < ep_events_size p6"
      "pendingFunctors e6 = [Fn_resetChannel]" "looping e6 = looping e1" "quitting e6 = quitting e1"
      "channels w6 a = Some ?ch" "connector w6 = (connector w)\<lparr>cn_state := Cs_kConnected\<rparr>"
      "connection (client w6) = Some ?c" "chat_connection w6 = Some ?c" "chat_connected w6" "printed w6 = printed w"
      "read_answers w6 = read_answers w" "this_thread w6 = this_thread w"
    using handleWrite_succeeds [OF lp2 _ _ _ _ _ ch2 _ _ _ fresh(1) _ fresh(2)] k(1-5) cl env(1) unfolding same2 by blast
  define w7 where "w7 = w6\<lparr>channels := (channels w6)(a \<mapsto> ?ch\<lparr>eventHandling := False\<rparr>)\<rparr>"
  have turn: "client_turn alive l (Epoll_report [(POLLOUT, a)]) w = doPendingFunctors ?exec l w7"
    using w6(10) by (simp add: w1(3) ev w6(1) modify_channel_def w7_def)
  have "?k \<noteq> a" using new k(6) by auto
  moreover have "epoll_ok l (channels w7, p6)"
    using w6(2,10) epoll_ok_same [of l "channels w6" p6 a ?ch "?ch\<lparr>eventHandling := False\<rparr>"]
    by (simp add: conn_at_def epoll_loop_def w7_def)
  ultimately have at7: "conn_at l ?c fd x ?ck e6 p6 w7" using w6(2,3) by (simp add: conn_at_def epoll_loop_def w7_def)
  have a7: "cn_channel (connector w7) = Some a" "channels w7 a = Some (?ch\<lparr>eventHandling := False\<rparr>)"
    using k(5) by (simp_all add: w7_def w6(11))
  obtain w9 e9 where w9: "doPendingFunctors ?exec l w7 = Inr w9" "conn_at l ?c fd x ?ck e9 p6 w9" "pendingFunctors e9 = []"
      "looping e9 = looping e6" "quitting e9 = quitting e6" "channels w9 a = None"
      "connector w9 = (connector w7)\<lparr>cn_channel := None\<rparr>" "client w9 = client w7" "this_thread w9 = this_thread w7"
      "read_answers w9 = read_answers w7" "client_world.more w9 = client_world.more w7"
    using attempt_freed [OF at7 w6(7) a7] by auto
  have "client_ready l ?c ?k new_Buffer w9" unfolding client_ready_def
    by (intro exI [of _ fd] exI [of _ x] exI [of _ ?ck] exI [of _ e9] exI [of _ p6])
      (use w6(3-6,8,9) w9(2-5) new_Buffer_ok(1) lp(4,5) calm in
        \<open>simp add: conn_channel_in_def new_Channel_def calm_loop_def\<close>)
  moreover have "chat_connection w9 = Some ?c" "chat_connected w9" "printed w9 = printed w"
    using w9(11) w6(13-15) by (cases w9; cases w7; simp add: w7_def; cases w6; simp)+
  ultimately show ?thesis using turn w9(1,6-10) w6(11,12,16,17)
    by (intro exI [of _ w9]) (simp add: w7_def)
qed

section \<open>From the call of connect\<close>

lemma connect_queued:
  fixes w :: "'a chat_client_world_scheme"
  assumes e: "loops w l = Some e" "threadId e \<noteq> this_thread w" and k: "cn_loop (connector w) = l"
  shows "ChatClient_connect w = Inr (w\<lparr>loops := (loops w)(l \<mapsto> queue_functor False Fn_startInLoop e),
    connector := (connector w)\<lparr>cn_connect := True\<rparr>, client := (client w)\<lparr>cl_connect := True\<rparr>\<rparr>)"
  using assms by (simp add: ChatClient_connect_def TcpClient_connect_def Connector_start_def runInLoop_def
      isInLoopThread_def queueInLoop_def on_loop_def modify_connector_def)

text \<open>The turn that the wakeup starts: the attempt is under way.\<close>

lemma wakeup_attempt:
  fixes w :: "'a chat_client_world_scheme"
  assumes lp: "epoll_loop l e p w" "0 < ep_events_size p" "pendingFunctors e = [Fn_startInLoop]"
    and wake: "channels w k = Some ch" "ch_loop ch = l" "index ch \<noteq> kNew" "\<not> tied ch"
      "readCallback ch = Some (Cb_EventLoop_handleRead l)"
    and cn: "cn_loop (connector w) = l" "cn_state (connector w) = Cs_kDisconnected" "cn_connect (connector w)"
      "cn_channel (connector w) = None"
    and new: "channels w (new_ptrs w 0) = None" "ep_channels p (fd_answers w 0) = None"
    and err: "call_answers w 0 \<in> under_way"
  shows "\<exists>w' e' p'. client_turn alive l (Epoll_report [(POLLIN, k)]) w = Inr w' \<and> epoll_loop l e' p' w' \<and>
    0 < ep_events_size p' \<and> pendingFunctors e' = [] \<and> looping e' = looping e \<and> quitting e' = quitting e \<and>
    channels w' (new_ptrs w 0) = Some (attempt_channel l (fd_answers w 0)) \<and>
    (\<forall>j. j \<noteq> new_ptrs w 0 \<longrightarrow> j \<noteq> k \<longrightarrow> channels w' j = channels w j) \<and>
    connector w' = (connector w)\<lparr>cn_state := Cs_kConnecting, cn_channel := Some (new_ptrs w 0)\<rparr> \<and>
    client w' = client w \<and> new_ptrs w' = (\<lambda>i. new_ptrs w (Suc i)) \<and> socket_errors w' = socket_errors w \<and>
    local_addr w' = local_addr w \<and> peer_addr w' = peer_addr w \<and> read_answers w' = read_answers w \<and>
    this_thread w' = this_thread w \<and> printed w' = printed w"
proof -
  let ?exec = "client_functor chat_client_code l" and ?a = "new_ptrs w 0"
  obtain e4 p4 w4 ch4 where turn: "client_turn alive l (Epoll_report [(POLLIN, k)]) w =
        rbind (rfold ?exec [Fn_startInLoop] w4) (on_loop l done_pending)"
      and w4: "epoll_loop l e4 p4 w4" "0 < ep_events_size p4" "pendingFunctors e4 = []" "looping e4 = looping e"
        "quitting e4 = quitting e" "channels w4 = (channels w)(k \<mapsto> ch4)" "same_registration ch ch4"
        "this_thread w4 = this_thread w" "read_answers w4 = read_answers w" "conn_world.more w4 = conn_world.more w"
    using wakeup_turn [where exec_cb = "client_callback chat_client_code" and exec = ?exec and alive = alive,
        OF lp(1,2) wake client_callback.simps(3)] unfolding lp(3) by blast
  have same: "connector w4 = connector w" "client w4 = client w" "new_ptrs w4 = new_ptrs w" "fd_answers w4 = fd_answers w"
      "call_answers w4 = call_answers w" "socket_errors w4 = socket_errors w" "local_addr w4 = local_addr w"
      "peer_addr w4 = peer_addr w" "printed w4 = printed w"
    using w4(10) by (cases w4; cases w; simp)+
  have a: "?a \<noteq> k" using new(1) wake(1) by auto
  have "ep_channels p4 (fd_answers w 0) = None"
    using unregistered_stays [where h = "channels w" and k = k and l = l and p' = p4, OF _ _ wake(1) w4(7) new(2)]
      lp(1) w4(1,6) by (simp add: epoll_loop_def)
  then obtain w5 p5 where w5: "startInLoop w4 = Inr w5" "epoll_loop l (e4\<lparr>loop_poller := Epoll p5\<rparr>) p5 w5" "0 < ep_events_size p5"
      "channels w5 = (channels w4)(?a \<mapsto> attempt_channel l (fd_answers w 0))" "this_thread w5 = this_thread w"
      "connector w5 = (connector w)\<lparr>cn_state := Cs_kConnecting, cn_channel := Some ?a\<rparr>" "client w5 = client w"
      "new_ptrs w5 = (\<lambda>i. new_ptrs w (Suc i))" "socket_errors w5 = socket_errors w" "local_addr w5 = local_addr w"
      "peer_addr w5 = peer_addr w" "read_answers w5 = read_answers w" "client_world.more w5 = client_world.more w4"
    using attempt_starts [OF w4(1,2)] cn new(1) err a by (auto simp: same w4(6,8,9))
  let ?e5 = "done_pending (e4\<lparr>loop_poller := Epoll p5\<rparr>)"
  let ?w = "w5\<lparr>loops := (loops w5)(l \<mapsto> ?e5)\<rparr>"
  have "client_turn alive l (Epoll_report [(POLLIN, k)]) w = Inr ?w"
    using w5(1,2) by (simp add: turn on_loop_def epoll_loop_def)
  moreover have "printed w5 = printed w" using w5(13) same(9) by (cases w5; cases w4; simp)
  moreover have "epoll_loop l ?e5 p5 ?w" using w5(2) by (simp add: epoll_loop_def done_pending_def)
  ultimately show ?thesis using w4(3-5) w5 a
    by (intro exI [of _ ?w] exI [of _ ?e5] exI [of _ p5]) (simp add: w4(6) done_pending_def)
qed

text \<open>The main thread's call, and the loop's thread at the start of its first turn, in the world \<open>w\<close>.\<close>

lemma connect_enters:
  fixes v :: "'a chat_client_world_scheme"
  assumes e: "loops v l = Some e" "threadId e = t" "pendingFunctors e = []" "\<not> looping e" "this_thread v \<noteq> t"
  shows "\<exists>v1 w e1. ChatClient_connect (new_ChatClient l addr v) = Inr v1 \<and>
    (\<forall>alive reports w'. loop_turns (\<lambda>w r. client_turn alive l r w) l reports w = Inr (False, w') \<longrightarrow>
       client_lines alive l [Loop_runs reports] v1 = Inr (w'\<lparr>this_thread := this_thread v\<rparr>)) \<and>
    loops w l = Some e1 \<and> loop_poller e1 = loop_poller e \<and> threadId e1 = t \<and> pendingFunctors e1 = [Fn_startInLoop] \<and>
    looping e1 \<and> \<not> quitting e1 \<and> channels w = channels v \<and> new_ptrs w = new_ptrs v \<and> fd_answers w = fd_answers v \<and>
    call_answers w = call_answers v \<and> socket_errors w = socket_errors v \<and> local_addr w = local_addr v \<and>
    peer_addr w = peer_addr v \<and> read_answers w = read_answers v \<and> printed w = printed v \<and> this_thread w = t \<and>
    connector w = (new_Connector l addr)\<lparr>cn_cb := True, cn_connect := True\<rparr> \<and>
    cl_loop (client w) = l \<and> cl_connCb (client w) \<and> cl_messaCb (client w)"
proof -
  define u where "u = new_ChatClient l addr v"
  define e0 where "e0 = queue_functor False Fn_startInLoop e"
  define v1 where "v1 = u\<lparr>loops := (loops u)(l \<mapsto> e0),
    connector := (connector u)\<lparr>cn_connect := True\<rparr>, client := (client u)\<lparr>cl_connect := True\<rparr>\<rparr>"
  let ?e = "e0\<lparr>looping := True, quitting := False\<rparr>"
  define w where "w = v1\<lparr>this_thread := t, loops := (loops v1)(l \<mapsto> ?e)\<rparr>"
  have u: "loops u l = Some e" "threadId e \<noteq> this_thread u" "cn_loop (connector u) = l"
    using e by (simp_all add: u_def new_ChatClient_def new_Connector_def Connector_setNewConnectionCallback_def)
  have go: "ChatClient_connect u = Inr v1" unfolding v1_def e0_def by (rule connect_queued [OF u])
  have e0: "loops v1 l = Some e0" "\<not> looping e0" "threadId e0 = t" "this_thread v1 = this_thread v"
    using e(2,4) by (simp_all add: v1_def u_def new_ChatClient_def e0_def queue_functor_def push_functor_def wakeup_def Let_def)
  have run: "client_lines alive l [Loop_runs reports] v1 = Inr (w'\<lparr>this_thread := this_thread v\<rparr>)"
    if "loop_turns (\<lambda>w r. client_turn alive l r w) l reports w = Inr (False, w')" for alive reports w'
    using e0 that by (simp add: loop_thread_runs_def Let_def loop_def assertInLoopThread_def isInLoopThread_def on_loop_def
        flip: w_def)
  show ?thesis using go run e(2,3) unfolding u_def
    by (intro exI [of _ v1] exI [of _ w] exI [of _ ?e])
      (simp add: w_def v1_def u_def e0_def new_ChatClient_def Connector_setNewConnectionCallback_def
        new_TcpClient_def TcpClient_setMessageCallback_def TcpClient_setConnectionCallback_def new_Connector_def
        queue_functor_def push_functor_def wakeup_def Let_def)
qed

text \<open>
  C10. The client comes up. The chat client is constructed on a loop of another thread that has
  not entered \<open>loop\<close> yet, and its main thread calls \<open>connect\<close>. When the loop's thread enters \<open>loop\<close> and handles
  the wakeup, and then the socket of the attempt becomes writable without an error and not connected to itself,
  the connection is up: the main thread sees it (\<open>connected\<close>), the connector has
  let go of its channel, and the connection reads, with a fresh input buffer, in a loop that has nothing else to do.
\<close>

theorem client_comes_up:
  fixes v :: "'a chat_client_world_scheme"
  assumes lp: "epoll_loop l e p (v\<lparr>this_thread := t\<rparr>)" "0 < ep_events_size p" "pendingFunctors e = []" "\<not> looping e"
      "this_thread v \<noteq> t"
    and wake: "channels v k = Some ch" "ch_loop ch = l" "index ch \<noteq> kNew" "\<not> tied ch"
      "readCallback ch = Some (Cb_EventLoop_handleRead l)"
    and new: "channels v (new_ptrs v 0) = None" "channels v (new_ptrs v 2) = None" "new_ptrs v 2 \<noteq> new_ptrs v 0"
      "ep_channels p (fd_answers v 0) = None"
    and env: "call_answers v 0 \<in> under_way" "socket_errors v 0 = 0" "\<not> isSelfConnection (fd_answers v 0) v"
  shows "\<exists>v1 v2. ChatClient_connect (new_ChatClient l addr v) = Inr v1 \<and>
    client_lines alive l [Loop_runs [Epoll_report [(POLLIN, k)], Epoll_report [(POLLOUT, new_ptrs v 0)]]] v1 = Inr v2 \<and>
    ChatClient_connected v2 \<and> chat_connection v2 = Some (new_ptrs v 1) \<and> connection (client v2) = Some (new_ptrs v 1) \<and>
    cn_state (connector v2) = Cs_kConnected \<and> cn_channel (connector v2) = None \<and> channels v2 (new_ptrs v 0) = None \<and>
    client_ready l (new_ptrs v 1) (new_ptrs v 2) new_Buffer (v2\<lparr>this_thread := t\<rparr>) \<and>
    read_answers v2 = read_answers v \<and> printed v2 = printed v \<and> this_thread v2 = this_thread v"
proof -
  let ?a = "new_ptrs v 0" and ?fd = "fd_answers v 0"
  let ?reports = "[Epoll_report [(POLLIN, k)], Epoll_report [(POLLOUT, ?a)]]"
  have e: "loops v l = Some e" "threadId e = t" using lp(1) by (simp_all add: epoll_loop_def)
  obtain v1 w e1 where go: "ChatClient_connect (new_ChatClient l addr v) = Inr v1"
      and run: "\<forall>alive reports w'. loop_turns (\<lambda>w r. client_turn alive l r w) l reports w = Inr (False, w') \<longrightarrow>
        client_lines alive l [Loop_runs reports] v1 = Inr (w'\<lparr>this_thread := this_thread v\<rparr>)"
      and e1: "loops w l = Some e1" "loop_poller e1 = loop_poller e" "threadId e1 = t" "pendingFunctors e1 = [Fn_startInLoop]"
        "looping e1" "\<not> quitting e1"
      and w: "channels w = channels v" "new_ptrs w = new_ptrs v" "fd_answers w = fd_answers v" "call_answers w = call_answers v"
        "socket_errors w = socket_errors v" "local_addr w = local_addr v" "peer_addr w = peer_addr v"
        "read_answers w = read_answers v" "printed w = printed v" "this_thread w = t"
        "connector w = (new_Connector l addr)\<lparr>cn_cb := True, cn_connect := True\<rparr>"
        "cl_loop (client w) = l" "cl_connCb (client w)" "cl_messaCb (client w)"
    using connect_enters [OF e lp(3-5), of addr] by blast
  have lpw: "epoll_loop l e1 p w" using lp(1) e1(1-3) w(1,10) by (simp add: epoll_loop_def)
  obtain w2 e2 p2 where w2: "client_turn alive l (Epoll_report [(POLLIN, k)]) w = Inr w2" "epoll_loop l e2 p2 w2"
      "0 < ep_events_size p2" "pendingFunctors e2 = []" "looping e2" "\<not> quitting e2"
      "channels w2 ?a = Some (attempt_channel l ?fd)" "\<forall>j. j \<noteq> ?a \<longrightarrow> j \<noteq> k \<longrightarrow> channels w2 j = channels v j"
      "connector w2 = (connector w)\<lparr>cn_state := Cs_kConnecting, cn_channel := Some ?a\<rparr>"
      "client w2 = client w" "new_ptrs w2 = (\<lambda>i. new_ptrs v (Suc i))" "socket_errors w2 = socket_errors v"
      "local_addr w2 = local_addr v" "peer_addr w2 = peer_addr v" "read_answers w2 = read_answers v"
      "this_thread w2 = t" "printed w2 = printed v"
    using wakeup_attempt [OF lpw lp(2) e1(4), of k ch alive] wake new env e1(5,6) by (auto simp: w new_Connector_def)
  have ptrs: "new_ptrs w2 0 = new_ptrs v 1" "new_ptrs w2 (Suc 0) = new_ptrs v 2" by (simp_all add: w2(11) numeral_2_eq_2)
  have "channels w2 (new_ptrs w2 (Suc 0)) = None" using w2(8) new(2,3) wake(1) unfolding ptrs by auto
  moreover have "\<not> isSelfConnection ?fd w2"
    using env(3) by (simp add: isSelfConnection_def Socket_getLocalAddr_def Socket_getPeerAddr_def w2)
  ultimately obtain w3 where w3: "client_turn alive l (Epoll_report [(POLLOUT, ?a)]) w2 = Inr w3"
      "client_ready l (new_ptrs v 1) (new_ptrs v 2) new_Buffer w3" "cn_state (connector w3) = Cs_kConnected"
      "cn_channel (connector w3) = None" "channels w3 ?a = None" "connection (client w3) = Some (new_ptrs v 1)"
      "chat_connection w3 = Some (new_ptrs v 1)" "chat_connected w3" "printed w3 = printed w2" "this_thread w3 = t"
      "read_answers w3 = read_answers w2"
    using attempt_succeeds [OF w2(2-6), of ?a ?fd alive] w2(7,9,10,12,16) w(11-14) env(2) unfolding ptrs
    by (auto simp: new_Connector_def)
  have "turns_run (\<lambda>w r. client_turn alive l r w) l w ?reports w3"
    using e1(1,6) w2(1,2,6) w3(1) by (simp add: epoll_loop_def)
  from loop_turns_run [OF this, of "[]"] have "loop_turns (\<lambda>w r. client_turn alive l r w) l ?reports w = Inr (False, w3)"
    using w3(2) by (auto simp: client_ready_def conn_at_def epoll_loop_def loop_turns_go(1))
  then have "client_lines alive l [Loop_runs ?reports] v1 = Inr (w3\<lparr>this_thread := this_thread v\<rparr>)" using run by blast
  moreover have "client_ready l (new_ptrs v 1) (new_ptrs v 2) new_Buffer (w3\<lparr>this_thread := t\<rparr>)"
    using w3(2,10) by (cases w3) simp
  ultimately show ?thesis using go w3 w2(15,17)
    by (intro exI [of "\<lambda>v1. \<exists>v2. _ v1 v2" v1] exI [of _ "w3\<lparr>this_thread := this_thread v\<rparr>"])
      (simp add: ChatClient_connected_def del: client_lines.simps)
qed

text \<open>A client whose loop, in thread 1, waits for its first run; the attempt gets descriptor 9.\<close>

definition waiting_poller :: epoll_poller where
  "waiting_poller = new_EpollPoller\<lparr>ep_channels := [4 \<mapsto> 11],
     ep_ctl := [\<lparr>ctl_operation = EPOLL_CTL_ADD, ctl_fd = 4, ctl_events = kReadEvent, ctl_ptr = 11\<rparr>]\<rparr>"

definition wakeup_channel :: channel where
  "wakeup_channel = (new_Channel 0 4)\<lparr>readCallback := Some (Cb_EventLoop_handleRead 0), events := kReadEvent,
     index := kAdded\<rparr>"

definition waiting_loop :: event_loop where
  "waiting_loop = small_loop\<lparr>loop_poller := Epoll waiting_poller, pendingFunctors := []\<rparr>"

definition opening_demo :: chat_client_world where
  "opening_demo = typed_demo\<lparr>channels := [11 \<mapsto> wakeup_channel], loops := [0 \<mapsto> waiting_loop], conns := Map.empty,
     call_answers := (\<lambda>_. EINPROGRESS)\<rparr>"

lemma opening_demo_loop: "epoll_loop 0 waiting_loop waiting_poller (opening_demo\<lparr>this_thread := 1\<rparr>)"
  by (auto simp: epoll_loop_def epoll_ok_def opening_demo_def waiting_loop_def waiting_poller_def wakeup_channel_def
      small_loop_def index_values epoll_watch_def new_EpollPoller_def new_Channel_def interest_def ctl_step_def
      fun_eq_iff split: if_splits)

theorem client_comes_up_witness:
  "\<exists>v1 v2. ChatClient_connect (new_ChatClient 0 (InetAddress_port 80) opening_demo) = Inr v1 \<and>
    client_lines (\<lambda>_ _. True) 0 [Loop_runs [Epoll_report [(POLLIN, 11)], Epoll_report [(POLLOUT, 50)]]] v1 = Inr v2 \<and>
    ChatClient_connected v2 \<and> chat_connection v2 = Some 51"
proof -
  have loop: "0 < ep_events_size waiting_poller" "pendingFunctors waiting_loop = []" "\<not> looping waiting_loop"
      "this_thread opening_demo \<noteq> 1"
    by (simp_all add: waiting_poller_def new_EpollPoller_def kInitEventListSize_def waiting_loop_def small_loop_def
        opening_demo_def typed_demo_def)
  have wake: "channels opening_demo 11 = Some wakeup_channel" "ch_loop wakeup_channel = 0" "index wakeup_channel \<noteq> kNew"
      "\<not> tied wakeup_channel" "readCallback wakeup_channel = Some (Cb_EventLoop_handleRead 0)"
    by (simp_all add: opening_demo_def wakeup_channel_def new_Channel_def index_values)
  have new: "channels opening_demo (new_ptrs opening_demo 0) = None" "channels opening_demo (new_ptrs opening_demo 2) = None"
      "new_ptrs opening_demo 2 \<noteq> new_ptrs opening_demo 0" "ep_channels waiting_poller (fd_answers opening_demo 0) = None"
    by (simp_all add: opening_demo_def typed_demo_def waiting_poller_def new_EpollPoller_def)
  have env: "call_answers opening_demo 0 \<in> under_way" "socket_errors opening_demo 0 = 0"
    by (simp_all add: opening_demo_def typed_demo_def under_way_def)
  have "sin_port (InetAddress_port 4000) \<noteq> sin_port (InetAddress_port 80)"
    using toPort_InetAddress [of 4000] toPort_InetAddress [of 80] by (auto simp: toPort_def)
  then have other: "\<not> isSelfConnection (fd_answers opening_demo 0) opening_demo"
    by (simp add: opening_demo_def typed_demo_def isSelfConnection_def Socket_getLocalAddr_def Socket_getPeerAddr_def)
  have ptrs: "new_ptrs opening_demo 0 = 50" "new_ptrs opening_demo 1 = 51"
    by (simp_all add: opening_demo_def typed_demo_def)
  show ?thesis
    using client_comes_up [OF opening_demo_loop loop wake new env other, of "InetAddress_port 80" "\<lambda>_ _. True"]
    unfolding ptrs by blast
qed

end
