(* ===== verification/Spec2Isabelle.thy ===== *)
theory Spec2Isabelle
  imports Poll_Poller Loop_Concurrency Pool_Server Client_Opens
begin

text \<open>
  A verification development for muduo\_rebuild, a C++ network library after muduo: one event loop
  per thread, non-blocking sockets, callbacks. The theories follow the classes of src/.

  \<^bold>\<open>The program.\<close> An \<open>EventLoop\<close> owns a \<open>Poller\<close> (epoll or poll), a \<open>TimerQueue\<close> on a timer
  descriptor and a queue of functors that other threads may fill; a turn of \<open>loop\<close> polls, dispatches
  the active \<open>Channel\<close>s and calls the functors. A \<open>TcpConnection\<close> registers its channel with its loop,
  reads into a \<open>Buffer\<close> and writes from one. A \<open>TcpServer\<close> accepts through an \<open>Acceptor\<close> and gives
  each connection to a loop of an \<open>EventLoopThreadPool\<close>; a \<open>TcpClient\<close> connects through a
  \<open>Connector\<close>. The chat example frames its messages with \<open>LengthHeaderCodec\<close>.

  \<^bold>\<open>Conventions.\<close> An operation that can end abnormally returns \<open>failure + 'a\<close> (Muduo\_Prelude): a
  failed \<open>assert\<close>, the \<open>exit\<close> of \<open>LOG_FATAL\<close>, an exception, an access out of bounds or through a
  dangling pointer. Objects that others point to live in maps from pointers. Machine integers keep
  their width where it matters. Each component's state extends the record of those it uses, so that
  an operation runs in every larger world. \<open>std::function\<close> values are the constructors of
  Callbacks; what the application's callbacks do is an argument. What a system call answers is a
  stream in the world, fixed by the environment. A caller's address for a new object is an argument
  or comes from such a stream.

  \<^bold>\<open>Theories and what they show.\<close>
  \<^item> Muduo\_Prelude, Byte\_Queue, Buffers (Buffer.h, Buffer.cpp): the buffer with its three-part
    vector. When \<open>append\<close>, \<open>readFd\<close> and \<open>shrink\<close> succeed and what they do (C15, C16,
    \<open>shrink_exact\<close>); a sequence of calls of the public members refines a plain queue of bytes, as long
    as \<open>shrink\<close>, \<open>hasWritten\<close> and a bare \<open>ensureWritable\<close>, which can break the buffer without failing
    (\<open>shrink_exact_witness\<close>, \<open>ensureWritable_cuts\<close>), are called where they cannot (C14). The locale
    \<open>byte_queue\<close> is the interface that the codec relies on; Buffers interprets it.
  \<^item> Codec (asio/Codec.h): the decoder's loop, with its termination, equals a reference parser (C5);
    frames are delivered once and in order wherever the reads cut them, as long as an unfinished frame
    and the next read together stay within 1024 bytes (C4; larger reads run into C16); what \<open>send\<close>
    produces (C30).
  \<^item> Timestamps, Texts (Timestamp.h, Timestamp.cpp, Logger.h, Logger.cpp): the order, \<open>addTime\<close>
    through a double, and the texts of a time, which can be read back (\<open>toString_roundtrip\<close>,
    \<open>formatted_roundtrip\<close>); the lines of the log.
  \<^item> Callbacks, Channels (Channel.h, Channel.cpp): which callbacks an event runs, specified by the bits
    of poll(2) and not by the guards of the code (C28).
  \<^item> Pollers, Epoll\_Poller, Poll\_Poller (Poller.h, DefaultPoller.cpp, EpollPoller, PollPoller): the
    locales \<open>poller_contract\<close> and \<open>resuming_poller\<close> state what a loop needs; both pollers are
    interpretations of the first, only epoll of the second. Served requests (C13), the reported
    events (C32), the swap on removal (C17), and the defect of re-enabling under poll (C39).
  \<^item> Ordered\_Sets, Timer\_Queue (TimerQueue, Timer, TimerId): \<open>std::set\<close> as a strictly ascending list
    with the locale \<open>ordered_set\<close>; no history fails (C8), the handler runs the
    timers that are due (C22), exact effects of cancellation and reset (C26, C23), and the setting of
    the descriptor (C27, C25, C24).
  \<^item> Event\_Loop (EventLoop.h, EventLoop.cpp): construction, \<open>loop\<close> and \<open>quit\<close> (C33, C18, C40).
    Loop\_Concurrency: the interleaving of the loop's thread with others as a step relation;
    functors are called in order and once (C7), no wakeup is lost (C6).
  \<^item> Tcp\_Connection (TcpConnection.h, TcpConnection.cpp): the connection's members. Tcp\_Session:
    its output refines an abstract session (C3), and direct calls of \<open>handleWrite\<close>, which no channel
    makes (C35), would drain it (C12). Tcp\_Lifecycle: registration and
    its end (C29, \<open>connection_destroyed\<close>), the outcomes of a read (\<open>handleRead_outcomes\<close>), the
    missing write callback (C35), and that the state only moves forward (C20).
  \<^item> Threads (Thread, CurrentThread), Thread\_Pool (EventLoopThread, EventLoopThreadPool): the flags
    of a thread say whether it is joinable; loops in turn (C31).
  \<^item> Addresses (InetAddress), Sockets (Socket), Tcp\_Server (Acceptor, TcpServer): accepting
    (\<open>accept_failure_is_fatal\<close>, C21) and the end of a connection, by an end of file
    (\<open>eof_removes_connection\<close>) and by a hang-up (C34). Loop\_Turn: a turn of the loop with one event,
    up to the callback and after it. Pool\_Server: the life of a connection in a server with threads,
    from the accept in one thread to the end in the other (C9).
  \<^item> Tcp\_Client (Connector, TcpClient): the retry after a \<open>connect(2)\<close> that fails at once (C19), a late
    error, which is not retried (C38), a second connect (C37).
    Client\_Destructor: what a destroyed client leaves in its loop (C36).
  \<^item> Chat (asio/ChatServer.cpp, asio/ChatClient.cpp): the two programs as users of the library. The
    server relays each message to every connection that is up (\<open>relay\<close>), over the sessions of
    Tcp\_Session. Conn\_Frames: what the operations on connections leave alone. Chat\_Turn: a whole
    turn of the loop in which a client is readable, from the poller's report (\<open>turn_relays\<close>).
    Chat\_Programs: the main functions; the server listens once it is started
    (\<open>chat_server_listens\<close>), and the lines typed into the client reach the stream of its connection
    through the queue of the loop's thread (C11). Chat\_Room: from its constructor on, through any
    sequence of arrivals, messages and departures, one per turn and reported as exactly \<open>POLLIN\<close>, the
    server refines an abstract chat room (C2); a departure is an end of file, since a hang-up ends the
    server (C34).
    Client\_Opens: from the construction of the client and \<open>connect\<close> to a connection that reads
    (C10). Chat\_Delivery: both programs together, from what is said in the room to what the client
    prints, with messages and reads bounded as in C4 (C1).

  \<^bold>\<open>Bounds.\<close> C1 and C4 take \<open>L\<close> for the size of a frame and \<open>C\<close> for that of a read, with \<open>L + C \<le> 1025\<close>:
  what is unread has at most \<open>L - 1\<close> bytes, and an input buffer can always hold 1024. Buffers are assumed smaller than \<open>2 ^ 63\<close> bytes, as every vector is. Timer addresses lie
  below \<open>UINTPTR_MAX\<close>. \<open>loop\<close> takes the list of the reports of successive polls: when it runs out, the
  loop is waiting in a poll, which the result tells apart from returning. No other recursion has fuel.
  Doubles are rationals rounded to 53 bits; the exponent's range is not modelled.

  \<^bold>\<open>Not modelled.\<close> Reference counts of \<open>shared_ptr\<close>: an object is freed by an operation of its own
  (\<open>delete_TcpConnection\<close> and the like). Data races on the plain flags
  that the code shares between threads. The log lines that the components write: of the macros only
  \<open>LOG_FATAL\<close>, which ends the program, is kept where they are used. What the chat programs print about
  their usage, and the end of the server's main function, which is never reached because nothing asks
  its loop to quit.
\<close>

end
